(* ===== verification/RB_Prelude.thy ===== *)
theory RB_Prelude
  imports Main
begin

text \<open>
  Shared vocabulary of the development.

  \<^item> Go's \<open>string\<close> and \<open>[]byte\<close> are both byte sequences; both are HOL's \<open>string\<close> (a list of
    8-bit \<open>char\<close>). \<open>peer.ID\<close> and \<open>protocol.ID\<close> are defined as \<open>string\<close> in the code and here.
  \<^item> A pointer-like value (a connection, a stream, a pool, a notifiee) is a handle, a natural
    number; two interface values are equal in Go when the handles are equal.
  \<^item> A call that may panic has a result of type \<open>'a run\<close>.
  \<^item> The generic container \<open>types.Set\<close> of the package rainbowcat is not part of the
    repository. It is a parameter (\<open>set_ops\<close>) and its documented behaviour is the named
    hypothesis \<open>set_laws\<close>.
\<close>

section \<open>Types and outcomes\<close>

type_synonym bytes = string
type_synonym peer_id = string
type_synonym protocol_id = string
type_synonym handle = nat
type_synonym thread = nat

datatype panic =
    IndexOutOfRange
  | NilDereference
  | NilMapWrite
  | NilFunctionCall
  | MakeSliceLenOutOfRange
  | CloseOfClosedChannel
  | ExplicitPanic string

datatype 'a run = Returns 'a | Panics panic

definition run_bind :: "'a run \<Rightarrow> ('a \<Rightarrow> 'b run) \<Rightarrow> 'b run" where
  "run_bind m k = (case m of Returns x \<Rightarrow> k x | Panics p \<Rightarrow> Panics p)"

lemma run_bind_simps [simp]:
  "run_bind (Returns x) k = k x"
  "run_bind (Panics p) k = Panics p"
  by (simp_all add: run_bind_def)

lemma run_bind_Returns_iff:
  "run_bind m k = Returns y \<longleftrightarrow> (\<exists>x. m = Returns x \<and> k x = Returns y)"
  by (cases m) auto

section \<open>Slices\<close>

text \<open>
  Deleting position \<open>i\<close> of a slice, as \<open>append(xs[:i], xs[i+1:]...)\<close> with the special case
  \<open>xs[:i]\<close> for the last position that the code writes out.
\<close>

definition slice_delete :: "'a list \<Rightarrow> nat \<Rightarrow> 'a list" where
  "slice_delete xs i =
     (if Suc i = length xs then take i xs else take i xs @ drop (Suc i) xs)"

lemma slice_delete_eq: "slice_delete xs i = take i xs @ drop (Suc i) xs"
  by (simp add: slice_delete_def)

lemma length_slice_delete [simp]: "i < length xs \<Longrightarrow> length (slice_delete xs i) = length xs - 1"
  by (simp add: slice_delete_eq)

lemma set_slice_delete: "set (slice_delete xs i) \<subseteq> set xs"
  by (auto simp: slice_delete_eq dest: in_set_takeD in_set_dropD)

lemma slice_delete_map: "map f (slice_delete xs i) = slice_delete (map f xs) i"
  by (simp add: slice_delete_eq take_map drop_map)

lemma distinct_slice_delete: "distinct xs \<Longrightarrow> distinct (slice_delete xs i)"
proof -
  assume d: "distinct xs"
  have "set (take i xs) \<inter> set (drop (Suc i) xs) = {}"
    using d by (rule set_take_disj_set_drop_if_distinct) simp
  then show ?thesis using d by (simp add: slice_delete_eq)
qed

lemma slice_delete_distinct_set:
  "distinct xs \<Longrightarrow> i < length xs \<Longrightarrow> set (slice_delete xs i) = set xs - {xs ! i}"
proof -
  assume d: "distinct xs" and i: "i < length xs"
  have split: "xs = take i xs @ xs ! i # drop (Suc i) xs"
    using i by (rule id_take_nth_drop)
  have "distinct (take i xs @ xs ! i # drop (Suc i) xs)"
    using d split by simp
  then have "xs ! i \<notin> set (take i xs @ drop (Suc i) xs)" by auto
  moreover have "set xs = insert (xs ! i) (set (take i xs @ drop (Suc i) xs))"
    by (subst split) auto
  ultimately show ?thesis by (simp add: slice_delete_eq)
qed

lemma in_slice_delete_other:
  "x \<in> set xs \<Longrightarrow> i < length xs \<Longrightarrow> x \<noteq> xs ! i \<Longrightarrow> x \<in> set (slice_delete xs i)"
proof -
  assume x: "x \<in> set xs" and i: "i < length xs" and ne: "x \<noteq> xs ! i"
  have "xs = take i xs @ xs ! i # drop (Suc i) xs"
    using i by (rule id_take_nth_drop)
  then have "set xs = set (take i xs) \<union> {xs ! i} \<union> set (drop (Suc i) xs)"
    by (metis Un_insert_right list.simps(15) set_append sup_bot_right Un_assoc insert_is_Un)
  with x ne show ?thesis by (auto simp: slice_delete_eq)
qed

section \<open>The container \<open>types.Set\<close>\<close>

text \<open>
  The operations of a set the code calls. \<open>set_range\<close> lists the elements in the order in which
  one call of \<open>Range\<close> visits them; the order is not documented and no law speaks of it.
\<close>

record ('e, 's) set_ops =
  set_new :: 's
  set_put :: "'s \<Rightarrow> 'e \<Rightarrow> 's \<times> bool"
  set_remove :: "'s \<Rightarrow> 'e \<Rightarrow> 's \<times> bool"
  set_exist :: "'s \<Rightarrow> 'e \<Rightarrow> bool"
  set_size :: "'s \<Rightarrow> int"
  set_range :: "'s \<Rightarrow> 'e list"

abbreviation elems :: "('e, 's) set_ops \<Rightarrow> 's \<Rightarrow> 'e set" where
  "elems S s \<equiv> set (set_range S s)"

text \<open>What the code relies on.\<close>

definition set_laws :: "('e, 's) set_ops \<Rightarrow> bool" where
  "set_laws S \<longleftrightarrow>
     set_range S (set_new S) = [] \<and>
     (\<forall>s. distinct (set_range S s)) \<and>
     (\<forall>s. set_size S s = int (length (set_range S s))) \<and>
     (\<forall>s x. set_exist S s x \<longleftrightarrow> x \<in> elems S s) \<and>
     (\<forall>s x. elems S (fst (set_put S s x)) = insert x (elems S s)) \<and>
     (\<forall>s x. snd (set_put S s x) \<longleftrightarrow> x \<notin> elems S s) \<and>
     (\<forall>s x. elems S (fst (set_remove S s x)) = elems S s - {x}) \<and>
     (\<forall>s x. snd (set_remove S s x) \<longleftrightarrow> x \<in> elems S s)"

named_theorems set_simps "what the set laws say of each operation"

lemma set_range_new [set_simps]: "set_laws S \<Longrightarrow> set_range S (set_new S) = []"
  by (simp add: set_laws_def)

lemma set_range_distinct [set_simps]: "set_laws S \<Longrightarrow> distinct (set_range S s)"
  by (simp add: set_laws_def)

lemma set_size_card: "set_laws S \<Longrightarrow> set_size S s = int (card (elems S s))"
  by (simp add: set_laws_def distinct_card)

lemma set_exist_iff [set_simps]: "set_laws S \<Longrightarrow> set_exist S s x \<longleftrightarrow> x \<in> elems S s"
  by (simp add: set_laws_def)

lemma elems_put [set_simps]:
  "set_laws S \<Longrightarrow> elems S (fst (set_put S s x)) = insert x (elems S s)"
  by (simp add: set_laws_def)

lemma put_nonempty [set_simps]: "set_laws S \<Longrightarrow> set_range S (fst (set_put S s x)) \<noteq> []"
  using elems_put [of S s x] by (metis insert_not_empty set_empty)

lemma put_result [set_simps]: "set_laws S \<Longrightarrow> snd (set_put S s x) \<longleftrightarrow> x \<notin> elems S s"
  by (simp add: set_laws_def)

lemma elems_remove [set_simps]:
  "set_laws S \<Longrightarrow> elems S (fst (set_remove S s x)) = elems S s - {x}"
  by (simp add: set_laws_def)

lemma remove_result [set_simps]: "set_laws S \<Longrightarrow> snd (set_remove S s x) \<longleftrightarrow> x \<in> elems S s"
  by (simp add: set_laws_def)

lemma set_size_pos_iff: "set_laws S \<Longrightarrow> 0 < set_size S s \<longleftrightarrow> elems S s \<noteq> {}"
  by (simp add: set_laws_def)

lemma set_size_zero_iff: "set_laws S \<Longrightarrow> set_size S s = 0 \<longleftrightarrow> elems S s = {}"
  by (simp add: set_laws_def)

text \<open>
  Putting every element of a list, as the loops \<open>for _, x := range xs { set.Put(x) }\<close> do,
  and removing every element.
\<close>

definition put_all :: "('e, 's) set_ops \<Rightarrow> 's \<Rightarrow> 'e list \<Rightarrow> 's" where
  "put_all S s xs = foldl (\<lambda>acc x. fst (set_put S acc x)) s xs"

definition remove_all :: "('e, 's) set_ops \<Rightarrow> 's \<Rightarrow> 'e list \<Rightarrow> 's" where
  "remove_all S s xs = foldl (\<lambda>acc x. fst (set_remove S acc x)) s xs"

lemma elems_put_all [set_simps]:
  "set_laws S \<Longrightarrow> elems S (put_all S s xs) = elems S s \<union> set xs"
  by (induction xs arbitrary: s) (auto simp: put_all_def set_simps)

lemma elems_remove_all [set_simps]:
  "set_laws S \<Longrightarrow> elems S (remove_all S s xs) = elems S s - set xs"
  by (induction xs arbitrary: s) (auto simp: remove_all_def set_simps)

text \<open>A set kept as a list in insertion order satisfies the laws; the witnesses run on it.\<close>

definition list_set :: "('e, 'e list) set_ops" where
  "list_set =
     \<lparr>set_new = [],
      set_put = (\<lambda>s x. if x \<in> set s then (s, False) else (s @ [x], True)),
      set_remove = (\<lambda>s x. (filter (\<lambda>y. y \<noteq> x) s, x \<in> set s)),
      set_exist = (\<lambda>s x. x \<in> set s),
      set_size = (\<lambda>s. int (length (remdups s))),
      set_range = remdups\<rparr>"

lemma list_set_simps [simp]:
  "set_new list_set = []"
  "set_put list_set s x = (if x \<in> set s then (s, False) else (s @ [x], True))"
  "set_remove list_set s x = (filter (\<lambda>y. y \<noteq> x) s, x \<in> set s)"
  "set_exist list_set s x \<longleftrightarrow> x \<in> set s"
  "set_size list_set s = int (length (remdups s))"
  "set_range list_set s = remdups s"
  by (simp_all add: list_set_def)

lemma list_set_laws: "set_laws list_set"
  by (auto simp: set_laws_def)

section \<open>Runs of events\<close>

text \<open>
  Goroutines are interleaved as events: \<open>exec\<close> is \<open>None\<close> when the event cannot happen. What follows for a run
  of events is the same everywhere.
\<close>

locale event_runs =
  fixes exec :: "'e \<Rightarrow> 's \<Rightarrow> 's option"
    and run :: "'e list \<Rightarrow> 's \<Rightarrow> 's option"
  assumes run_Nil: "run [] s = Some s"
    and run_Cons: "run (e # es) s = (case exec e s of None \<Rightarrow> None | Some s' \<Rightarrow> run es s')"
begin

lemma run_append: "run (es @ fs) s = (case run es s of None \<Rightarrow> None | Some s' \<Rightarrow> run fs s')"
  by (induction es arbitrary: s) (auto simp: run_Nil run_Cons split: option.split)

lemma run_invariant_on:
  assumes "\<And>e s s'. e \<in> set es \<Longrightarrow> I s \<Longrightarrow> exec e s = Some s' \<Longrightarrow> I s'"
    and "I s" and "run es s = Some s'"
  shows "I s'"
  using assms
proof (induction es arbitrary: s)
  case (Cons e es)
  from Cons.prems(3) obtain s1 where s1: "exec e s = Some s1" "run es s1 = Some s'"
    by (auto simp: run_Cons split: option.splits)
  have "I s1" using Cons.prems(1) [OF _ Cons.prems(2) s1(1)] by simp
  with Cons.IH [OF _ _ s1(2)] Cons.prems(1) show ?case by (metis list.set_intros(2))
qed (simp add: run_Nil)

lemma run_invariant:
  assumes "\<And>e s s'. I s \<Longrightarrow> exec e s = Some s' \<Longrightarrow> I s'" and "I s" and "run es s = Some s'"
  shows "I s'"
  by (rule run_invariant_on [where I = I and es = es and s = s]) (use assms in blast)+

end

text \<open>Runs with an invariant of every step, and a second one that only holds under the first.\<close>

locale safe_runs = event_runs exec run
  for exec :: "'e \<Rightarrow> 's \<Rightarrow> 's option" and run :: "'e list \<Rightarrow> 's \<Rightarrow> 's option" +
  fixes inv :: "'s \<Rightarrow> bool"
  assumes step_safe: "inv s \<Longrightarrow> exec e s = Some s' \<Longrightarrow> inv s'"
begin

lemma run_safe: "inv s \<Longrightarrow> run es s = Some s' \<Longrightarrow> inv s'"
  using run_invariant [where I = inv] step_safe by blast

lemma run_safe_with:
  assumes "\<And>e s s'. inv s \<Longrightarrow> J s \<Longrightarrow> exec e s = Some s' \<Longrightarrow> J s'" and "inv s" and "J s" and "run es s = Some s'"
  shows "J s'"
proof -
  have "inv s' \<and> J s'"
    by (rule run_invariant [where I = "\<lambda>s. inv s \<and> J s", OF _ _ assms(4)]) (use assms(1-3) step_safe in blast)+
  then show ?thesis by blast
qed

end

end
