(* ===== verification/Connection_Manager.thy ===== *)
theory Connection_Manager
  imports RB_Prelude
begin

text \<open>
  \<open>components/connection_manager.go\<close>: the \<open>LevelConnectionManager\<close>. Its state is the record
  \<open>lcm\<close>; every method is an atomic step because the code takes the mutex for the whole
  call. A connection is a handle. The connections the code closes in background goroutines
  (\<open>safe.LoggerGo(... c.Close())\<close>) are part of each result, in the order in which the
  goroutines are started. Logging is left out.
  The number drawn from \<open>crypto/rand\<close> is an argument: \<open>rand.Int(rand.Reader, n)\<close> is
  \<open>rnd mod n\<close>, which for varying \<open>rnd\<close> takes every value below \<open>n\<close>.
\<close>

section \<open>State\<close>

datatype elimination_strategy =
    EliminationStrategyUnknown
  | EliminationStrategyRandom
  | EliminationStrategyFIFO
  | EliminationStrategyLIFO

definition strategy_String :: "elimination_strategy \<Rightarrow> string" where
  "strategy_String e = (case e of
      EliminationStrategyRandom \<Rightarrow> ''RANDOM''
    | EliminationStrategyFIFO \<Rightarrow> ''FIFO''
    | EliminationStrategyLIFO \<Rightarrow> ''LIFO''
    | EliminationStrategyUnknown \<Rightarrow> ''UNKNOWN'')"

text \<open>\<open>strings.ToLower\<close> on the ASCII letters, the only ones the four names hold.\<close>

definition ascii_lower :: "char \<Rightarrow> char" where
  "ascii_lower c =
     (if 65 \<le> (of_char c :: nat) \<and> (of_char c :: nat) \<le> 90
      then char_of ((of_char c :: nat) + 32) else c)"

definition StrToEliminationStrategy :: "string \<Rightarrow> elimination_strategy" where
  "StrToEliminationStrategy str =
     (let s = map ascii_lower str in
      if s = ''random'' then EliminationStrategyRandom
      else if s = ''fifo'' then EliminationStrategyFIFO
      else if s = ''lifo'' then EliminationStrategyLIFO
      else EliminationStrategyUnknown)"

definition DefaultMaxCountOfPeers :: int where
  "DefaultMaxCountOfPeers = 20"

definition DefaultMaxCountOfConnectionsEachPeer :: int where
  "DefaultMaxCountOfConnectionsEachPeer = 1"

definition DefaultEliminationStrategy :: elimination_strategy where
  "DefaultEliminationStrategy = EliminationStrategyLIFO"

record 'n peer_connections =
  pc_pid :: peer_id
  pc_connSet :: 'n

record ('s, 'n) lcm =
  maxCountOfPeers :: int
  maxCountOfConnectionsEachPeer :: int
  strategy :: elimination_strategy
  highLevelPeers :: 's
  highLevelConn :: "'n peer_connections list"
  lowLevelConn :: "'n peer_connections list"
  eliminatePeers :: 's

definition NewLevelConnectionManager :: "(peer_id, 's) set_ops \<Rightarrow> ('s, 'n) lcm" where
  "NewLevelConnectionManager P =
     \<lparr>maxCountOfPeers = DefaultMaxCountOfPeers,
      maxCountOfConnectionsEachPeer = DefaultMaxCountOfConnectionsEachPeer,
      strategy = DefaultEliminationStrategy,
      highLevelPeers = set_new P,
      highLevelConn = [],
      lowLevelConn = [],
      eliminatePeers = set_new P\<rparr>"

section \<open>Configuration\<close>

definition SetStrategy :: "('s, 'n) lcm \<Rightarrow> elimination_strategy \<Rightarrow> ('s, 'n) lcm" where
  "SetStrategy l st = (case st of
      EliminationStrategyUnknown \<Rightarrow> l\<lparr>strategy := DefaultEliminationStrategy\<rparr>
    | _ \<Rightarrow> l\<lparr>strategy := st\<rparr>)"

definition SetMaxCountOfPeers :: "('s, 'n) lcm \<Rightarrow> int \<Rightarrow> ('s, 'n) lcm" where
  "SetMaxCountOfPeers l mx =
     (let mx' = (if mx < 1 then DefaultMaxCountOfPeers else mx)
      in l\<lparr>maxCountOfPeers := mx'\<rparr>)"

definition SetMaxCountOfConnectionsEachPeer :: "('s, 'n) lcm \<Rightarrow> int \<Rightarrow> ('s, 'n) lcm" where
  "SetMaxCountOfConnectionsEachPeer l mx =
     (let mx' = (if mx < 1 then DefaultMaxCountOfConnectionsEachPeer else mx)
      in l\<lparr>maxCountOfConnectionsEachPeer := mx'\<rparr>)"

definition AddHighLevelPeer ::
  "(peer_id, 's) set_ops \<Rightarrow> ('s, 'n) lcm \<Rightarrow> peer_id \<Rightarrow> ('s, 'n) lcm" where
  "AddHighLevelPeer P l pid = l\<lparr>highLevelPeers := fst (set_put P (highLevelPeers l) pid)\<rparr>"

section \<open>Lookups\<close>

text \<open>
  The scans \<open>for idx, connections := range ...\<close>; \<open>None\<close> is the result \<open>nil, -1\<close>.
\<close>

fun scan_connections :: "'n peer_connections list \<Rightarrow> peer_id \<Rightarrow> ('n \<times> nat) option" where
  "scan_connections [] pid = None"
| "scan_connections (c # cs) pid =
     (if pid = pc_pid c then Some (pc_connSet c, 0)
      else map_option (\<lambda>(s, i). (s, Suc i)) (scan_connections cs pid))"

definition getHighLevelConnections :: "('s, 'n) lcm \<Rightarrow> peer_id \<Rightarrow> ('n \<times> nat) option" where
  "getHighLevelConnections l pid = scan_connections (highLevelConn l) pid"

definition getLowLevelConnections :: "('s, 'n) lcm \<Rightarrow> peer_id \<Rightarrow> ('n \<times> nat) option" where
  "getLowLevelConnections l pid = scan_connections (lowLevelConn l) pid"

section \<open>Elimination\<close>

definition closeLowLevelConnWithIdx ::
  "(handle, 'n) set_ops \<Rightarrow> ('s, 'n) lcm \<Rightarrow> nat \<Rightarrow> handle list" where
  "closeLowLevelConnWithIdx C l idx = set_range C (pc_connSet (lowLevelConn l ! idx))"

definition closeHighLevelConnWithIdx ::
  "(handle, 'n) set_ops \<Rightarrow> ('s, 'n) lcm \<Rightarrow> nat \<Rightarrow> handle list" where
  "closeHighLevelConnWithIdx C l idx = set_range C (pc_connSet (highLevelConn l ! idx))"

type_synonym ('s, 'n) closing = "(('s, 'n) lcm \<times> peer_id \<times> handle list) run"

definition closeLowLevelConnRandom ::
  "(handle, 'n) set_ops \<Rightarrow> nat \<Rightarrow> ('s, 'n) lcm \<Rightarrow> nat \<Rightarrow> ('s, 'n) closing" where
  "closeLowLevelConnRandom C rnd l lowLevelConnCount =
     (if lowLevelConnCount = 0 then Panics (ExplicitPanic ''crypto/rand: argument to Int is <= 0'')
      else let random = rnd mod lowLevelConnCount in
        if random < length (lowLevelConn l) then
          Returns
            (l\<lparr>lowLevelConn :=
                 (if random = lowLevelConnCount - 1 then take random (lowLevelConn l)
                  else take random (lowLevelConn l) @ drop (random + 1) (lowLevelConn l))\<rparr>,
             pc_pid (lowLevelConn l ! random),
             closeLowLevelConnWithIdx C l random)
        else Panics IndexOutOfRange)"

definition closeHighLevelConnRandom ::
  "(handle, 'n) set_ops \<Rightarrow> nat \<Rightarrow> ('s, 'n) lcm \<Rightarrow> nat \<Rightarrow> ('s, 'n) closing" where
  "closeHighLevelConnRandom C rnd l highLevelConnCount =
     (if highLevelConnCount = 0 then Panics (ExplicitPanic ''crypto/rand: argument to Int is <= 0'')
      else let random = rnd mod highLevelConnCount in
        if random < length (highLevelConn l) then
          Returns
            (l\<lparr>highLevelConn :=
                 (if random = highLevelConnCount - 1 then take random (highLevelConn l)
                  else take random (highLevelConn l) @ drop (random + 1) (highLevelConn l))\<rparr>,
             pc_pid (highLevelConn l ! random),
             closeHighLevelConnWithIdx C l random)
        else Panics IndexOutOfRange)"

text \<open>
  The result of an elimination: the state, the eliminated peer (the empty string for none),
  the success flag, and the connections closed.
\<close>

type_synonym ('s, 'n) elimination = "(('s, 'n) lcm \<times> peer_id \<times> bool \<times> handle list) run"

definition eliminated :: "('s, 'n) closing \<Rightarrow> ('s, 'n) elimination" where
  "eliminated m = run_bind m (\<lambda>(l, pid, cs). Returns (l, pid, True, cs))"

definition eliminateConnectionsRandom ::
  "(handle, 'n) set_ops \<Rightarrow> nat \<Rightarrow> ('s, 'n) lcm \<Rightarrow> bool \<Rightarrow> ('s, 'n) elimination" where
  "eliminateConnectionsRandom C rnd l eliminateHigh =
     (let hCount = length (highLevelConn l); lCount = length (lowLevelConn l) in
      if int (hCount + lCount) > maxCountOfPeers l then
        if lCount > 0 then eliminated (closeLowLevelConnRandom C rnd l lCount)
        else if \<not> eliminateHigh then Returns (l, '''', False, [])
        else eliminated (closeHighLevelConnRandom C rnd l hCount)
      else Returns (l, '''', True, []))"

definition closeLowLevelConnFirst ::
  "(handle, 'n) set_ops \<Rightarrow> ('s, 'n) lcm \<Rightarrow> ('s, 'n) closing" where
  "closeLowLevelConnFirst C l =
     (if lowLevelConn l = [] then Panics IndexOutOfRange
      else Returns (l\<lparr>lowLevelConn := drop 1 (lowLevelConn l)\<rparr>,
                    pc_pid (lowLevelConn l ! 0), closeLowLevelConnWithIdx C l 0))"

definition closeHighLevelConnFirst ::
  "(handle, 'n) set_ops \<Rightarrow> ('s, 'n) lcm \<Rightarrow> ('s, 'n) closing" where
  "closeHighLevelConnFirst C l =
     (if highLevelConn l = [] then Panics IndexOutOfRange
      else Returns (l\<lparr>highLevelConn := drop 1 (highLevelConn l)\<rparr>,
                    pc_pid (highLevelConn l ! 0), closeHighLevelConnWithIdx C l 0))"

definition eliminateConnectionsFIFO ::
  "(handle, 'n) set_ops \<Rightarrow> ('s, 'n) lcm \<Rightarrow> bool \<Rightarrow> ('s, 'n) elimination" where
  "eliminateConnectionsFIFO C l eliminateHigh =
     (let hCount = length (highLevelConn l); lCount = length (lowLevelConn l) in
      if int (hCount + lCount) > maxCountOfPeers l then
        if lCount > 0 then eliminated (closeLowLevelConnFirst C l)
        else if \<not> eliminateHigh then Returns (l, '''', False, [])
        else eliminated (closeHighLevelConnFirst C l)
      else Returns (l, '''', True, []))"

definition closeLowLevelConnLast ::
  "(handle, 'n) set_ops \<Rightarrow> ('s, 'n) lcm \<Rightarrow> nat \<Rightarrow> ('s, 'n) closing" where
  "closeLowLevelConnLast C l lowLevelConnCount =
     (if lowLevelConnCount = 0 \<or> length (lowLevelConn l) < lowLevelConnCount
      then Panics IndexOutOfRange
      else let idx = lowLevelConnCount - 1 in
        Returns (l\<lparr>lowLevelConn := take idx (lowLevelConn l)\<rparr>,
                 pc_pid (lowLevelConn l ! idx), closeLowLevelConnWithIdx C l idx))"

definition closeHighLevelConnLast ::
  "(handle, 'n) set_ops \<Rightarrow> ('s, 'n) lcm \<Rightarrow> nat \<Rightarrow> ('s, 'n) closing" where
  "closeHighLevelConnLast C l highLevelConnCount =
     (if highLevelConnCount = 0 \<or> length (highLevelConn l) < highLevelConnCount
      then Panics IndexOutOfRange
      else let idx = highLevelConnCount - 1 in
        Returns (l\<lparr>highLevelConn := take idx (highLevelConn l)\<rparr>,
                 pc_pid (highLevelConn l ! idx), closeHighLevelConnWithIdx C l idx))"

definition eliminateConnectionsLIFO ::
  "(handle, 'n) set_ops \<Rightarrow> ('s, 'n) lcm \<Rightarrow> bool \<Rightarrow> ('s, 'n) elimination" where
  "eliminateConnectionsLIFO C l eliminateHigh =
     (let hCount = length (highLevelConn l); lCount = length (lowLevelConn l) in
      if int (hCount + lCount) > maxCountOfPeers l then
        if lCount > 0 then eliminated (closeLowLevelConnLast C l lCount)
        else if \<not> eliminateHigh then Returns (l, '''', False, [])
        else eliminated (closeHighLevelConnLast C l hCount)
      else Returns (l, '''', True, []))"

function eliminateConnections ::
  "(handle, 'n) set_ops \<Rightarrow> nat \<Rightarrow> ('s, 'n) lcm \<Rightarrow> bool \<Rightarrow> ('s, 'n) elimination" where
  "eliminateConnections C rnd l eliminateHigh =
     (case strategy l of
        EliminationStrategyRandom \<Rightarrow> eliminateConnectionsRandom C rnd l eliminateHigh
      | EliminationStrategyFIFO \<Rightarrow> eliminateConnectionsFIFO C l eliminateHigh
      | EliminationStrategyLIFO \<Rightarrow> eliminateConnectionsLIFO C l eliminateHigh
      | EliminationStrategyUnknown \<Rightarrow>
          eliminateConnections C rnd (l\<lparr>strategy := DefaultEliminationStrategy\<rparr>) eliminateHigh)"
  by pat_completeness auto
termination
  by (relation "measure (\<lambda>(C, rnd, l, e). if strategy l = EliminationStrategyUnknown then 1 else 0)")
     (auto simp: DefaultEliminationStrategy_def)

declare eliminateConnections.simps [simp del]

section \<open>Operations of the interface\<close>

definition Close :: "(handle, 'n) set_ops \<Rightarrow> ('s, 'n) lcm \<Rightarrow> handle list" where
  "Close C l =
     concat (map (set_range C \<circ> pc_connSet) (lowLevelConn l)) @
     concat (map (set_range C \<circ> pc_connSet) (highLevelConn l))"

definition AddPeerConnection ::
  "(peer_id, 's) set_ops \<Rightarrow> (handle, 'n) set_ops \<Rightarrow> nat \<Rightarrow> ('s, 'n) lcm \<Rightarrow> peer_id \<Rightarrow> handle
   \<Rightarrow> (('s, 'n) lcm \<times> bool \<times> handle list) run" where
  "AddPeerConnection P C rnd l pid conn =
     (let highLevel = set_exist P (highLevelPeers l) pid;
          found = (if highLevel then getHighLevelConnections l pid else getLowLevelConnections l pid)
      in case found of
           Some (connSet, idx) \<Rightarrow>
             (let (connSet', added) = set_put C connSet conn;
                  l' = (if highLevel
                        then l\<lparr>highLevelConn :=
                                 (highLevelConn l)[idx := (highLevelConn l ! idx)\<lparr>pc_connSet := connSet'\<rparr>]\<rparr>
                        else l\<lparr>lowLevelConn :=
                                 (lowLevelConn l)[idx := (lowLevelConn l ! idx)\<lparr>pc_connSet := connSet'\<rparr>]\<rparr>)
              in Returns (l', added, []))
         | None \<Rightarrow>
             (let pc = \<lparr>pc_pid = pid, pc_connSet = fst (set_put C (set_new C) conn)\<rparr>;
                  l1 = (if highLevel then l\<lparr>highLevelConn := highLevelConn l @ [pc]\<rparr>
                        else l\<lparr>lowLevelConn := lowLevelConn l @ [pc]\<rparr>)
              in run_bind (eliminateConnections C rnd l1 highLevel)
                   (\<lambda>(l2, ePID, ok, closing).
                      Returns
                        (if ePID \<noteq> ''''
                         then l2\<lparr>eliminatePeers := fst (set_put P (eliminatePeers l2) ePID)\<rparr>
                         else l2,
                         True, closing))))"

definition RemovePeerConnection ::
  "(peer_id, 's) set_ops \<Rightarrow> (handle, 'n) set_ops \<Rightarrow> ('s, 'n) lcm \<Rightarrow> peer_id \<Rightarrow> handle
   \<Rightarrow> ('s, 'n) lcm \<times> bool" where
  "RemovePeerConnection P C l pid conn =
     (let (l1, res1) =
            (case getHighLevelConnections l pid of
               Some (c, idx) \<Rightarrow>
                 (if set_exist C c conn
                  then (l\<lparr>highLevelConn := slice_delete (highLevelConn l) idx\<rparr>, True)
                  else (l, False))
             | None \<Rightarrow> (l, False));
          (l2, res2) =
            (case getLowLevelConnections l1 pid of
               Some (c, idx) \<Rightarrow>
                 (if set_exist C c conn
                  then (l1\<lparr>lowLevelConn := slice_delete (lowLevelConn l1) idx\<rparr>, True)
                  else (l1, res1))
             | None \<Rightarrow> (l1, res1));
          (e', removed) = set_remove P (eliminatePeers l2) pid
      in (l2\<lparr>eliminatePeers := e'\<rparr>, if removed then True else res2))"

definition ExistPeerConnection ::
  "(handle, 'n) set_ops \<Rightarrow> ('s, 'n) lcm \<Rightarrow> peer_id \<Rightarrow> handle \<Rightarrow> bool" where
  "ExistPeerConnection C l pid conn =
     (case getHighLevelConnections l pid of
        Some (connSet, _) \<Rightarrow> set_exist C connSet conn
      | None \<Rightarrow>
          (case getLowLevelConnections l pid of
             Some (connSet, _) \<Rightarrow> set_exist C connSet conn
           | None \<Rightarrow> False))"

definition PeerConnection ::
  "(handle, 'n) set_ops \<Rightarrow> ('s, 'n) lcm \<Rightarrow> peer_id \<Rightarrow> handle option" where
  "PeerConnection C l pid =
     (let found = (case getHighLevelConnections l pid of
                     Some r \<Rightarrow> Some r | None \<Rightarrow> getLowLevelConnections l pid)
      in case found of
           Some (connSet, _) \<Rightarrow>
             (case set_range C connSet of conn # _ \<Rightarrow> Some conn | [] \<Rightarrow> None)
         | None \<Rightarrow> None)"

definition PeerAllConnection ::
  "(handle, 'n) set_ops \<Rightarrow> ('s, 'n) lcm \<Rightarrow> peer_id \<Rightarrow> handle list" where
  "PeerAllConnection C l pid =
     (let found = (case getHighLevelConnections l pid of
                     Some r \<Rightarrow> Some r | None \<Rightarrow> getLowLevelConnections l pid)
      in case found of
           Some (connSet, _) \<Rightarrow> set_range C connSet
         | None \<Rightarrow> [])"

definition Connected :: "(handle, 'n) set_ops \<Rightarrow> ('s, 'n) lcm \<Rightarrow> peer_id \<Rightarrow> bool" where
  "Connected C l pid =
     ((case getHighLevelConnections l pid of
         Some (s, _) \<Rightarrow> 0 < set_size C s | None \<Rightarrow> False) \<or>
      (case getLowLevelConnections l pid of
         Some (s, _) \<Rightarrow> 0 < set_size C s | None \<Rightarrow> False))"

definition Allowed ::
  "(peer_id, 's) set_ops \<Rightarrow> (handle, 'n) set_ops \<Rightarrow> ('s, 'n) lcm \<Rightarrow> peer_id \<Rightarrow> bool" where
  "Allowed P C l pid =
     (let currentCount =
            (case getHighLevelConnections l pid of Some (s, _) \<Rightarrow> set_size C s | None \<Rightarrow> 0) +
            (case getLowLevelConnections l pid of Some (s, _) \<Rightarrow> set_size C s | None \<Rightarrow> 0)
      in if currentCount > 0 then currentCount < maxCountOfConnectionsEachPeer l
         else let highLevel = set_exist P (highLevelPeers l) pid in
           if strategy l = EliminationStrategyLIFO then
             (if highLevel then int (length (highLevelConn l)) < maxCountOfPeers l
              else int (length (highLevelConn l) + length (lowLevelConn l)) < maxCountOfPeers l)
           else if \<not> highLevel then int (length (highLevelConn l)) < maxCountOfPeers l
           else True)"

definition MaxCountOfPeersAllowed :: "('s, 'n) lcm \<Rightarrow> int" where
  "MaxCountOfPeersAllowed l = maxCountOfPeers l"

definition CountOfPeers :: "('s, 'n) lcm \<Rightarrow> int" where
  "CountOfPeers l = int (length (highLevelConn l) + length (lowLevelConn l))"

definition AllPeers :: "('s, 'n) lcm \<Rightarrow> peer_id list" where
  "AllPeers l = map pc_pid (highLevelConn l) @ map pc_pid (lowLevelConn l)"

section \<open>Lookup lemmas\<close>

lemma scan_connections_None_iff:
  "scan_connections cs pid = None \<longleftrightarrow> pid \<notin> pc_pid ` set cs"
  by (induction cs) auto

lemma scan_connections_SomeD:
  "scan_connections cs pid = Some (s, i) \<Longrightarrow>
     i < length cs \<and> pc_pid (cs ! i) = pid \<and> pc_connSet (cs ! i) = s"
  by (induction cs arbitrary: i) (auto split: if_splits)

lemma scan_connections_Some_iff:
  assumes "distinct (map pc_pid cs)"
  shows "(\<exists>i. scan_connections cs pid = Some (s, i)) \<longleftrightarrow>
         (\<exists>c\<in>set cs. pc_pid c = pid \<and> pc_connSet c = s)"
  using assms by (induction cs) (auto simp: image_iff split: if_splits)

lemma scan_connections_append:
  "scan_connections (cs @ [c]) pid =
     (case scan_connections cs pid of
        Some r \<Rightarrow> Some r
      | None \<Rightarrow> if pc_pid c = pid then Some (pc_connSet c, length cs) else None)"
  by (induction cs) (auto split: option.splits prod.splits)

text \<open>The lookup as a function of the list alone: the set found first, if any.\<close>

definition conn_set_of :: "'n peer_connections list \<Rightarrow> peer_id \<Rightarrow> 'n option" where
  "conn_set_of cs pid = map_option fst (scan_connections cs pid)"

lemma conn_set_of_simps [simp]:
  "conn_set_of [] pid = None"
  "conn_set_of (c # cs) pid = (if pid = pc_pid c then Some (pc_connSet c) else conn_set_of cs pid)"
  by (auto simp: conn_set_of_def option.map_comp comp_def split_def)

lemma conn_set_of_None_iff: "conn_set_of cs pid = None \<longleftrightarrow> pid \<notin> pc_pid ` set cs"
  by (simp add: conn_set_of_def scan_connections_None_iff)

lemma conn_set_of_append:
  "conn_set_of (cs @ ds) pid = (case conn_set_of cs pid of Some s \<Rightarrow> Some s | None \<Rightarrow> conn_set_of ds pid)"
  by (induction cs) auto

lemma conn_set_of_in: "conn_set_of cs pid = Some s \<Longrightarrow> \<exists>c\<in>set cs. pc_pid c = pid \<and> pc_connSet c = s"
  by (induction cs) (auto split: if_splits)

lemma conn_set_of_update:
  assumes "scan_connections cs pid = Some (s, i)"
  shows "conn_set_of (cs[i := (cs ! i)\<lparr>pc_connSet := s'\<rparr>]) q =
           (if q = pid then Some s' else conn_set_of cs q)"
  using assms by (induction cs arbitrary: i) (auto split: if_splits)

lemma map_pid_update [simp]:
  "map pc_pid (cs[i := (cs ! i)\<lparr>pc_connSet := s'\<rparr>]) = map pc_pid cs"
  by (induction cs arbitrary: i) (auto split: nat.splits)

lemma conn_set_of_delete:
  assumes "distinct (map pc_pid cs)" and "scan_connections cs pid = Some (s, i)"
  shows "conn_set_of (slice_delete cs i) q = (if q = pid then None else conn_set_of cs q)"
proof -
  from assms(2) have i: "i < length cs" and p: "pc_pid (cs ! i) = pid"
    by (auto dest: scan_connections_SomeD)
  have cs: "cs = take i cs @ cs ! i # drop (Suc i) cs"
    using i by (rule id_take_nth_drop)
  have d: "distinct (map pc_pid (take i cs @ cs ! i # drop (Suc i) cs))"
    using assms(1) cs by metis
  have none: "conn_set_of (take i cs) pid = None" "conn_set_of (drop (Suc i) cs) pid = None"
    using d p by (auto simp: conn_set_of_None_iff)
  show ?thesis
  proof (cases "q = pid")
    case True
    then show ?thesis using none by (simp add: slice_delete_eq conn_set_of_append)
  next
    case False
    have "conn_set_of cs q = conn_set_of (take i cs @ cs ! i # drop (Suc i) cs) q"
      using cs by metis
    also have "\<dots> = conn_set_of (slice_delete cs i) q"
      using False p by (simp add: slice_delete_eq conn_set_of_append split: option.split)
    finally show ?thesis using False by simp
  qed
qed

section \<open>Elimination against its specification\<close>

definition effective_strategy :: "elimination_strategy \<Rightarrow> elimination_strategy" where
  "effective_strategy st =
     (if st = EliminationStrategyUnknown then EliminationStrategyLIFO else st)"

definition victim_index :: "elimination_strategy \<Rightarrow> nat \<Rightarrow> nat \<Rightarrow> nat" where
  "victim_index st rnd n = (case st of
      EliminationStrategyRandom \<Rightarrow> rnd mod n
    | EliminationStrategyFIFO \<Rightarrow> 0
    | _ \<Rightarrow> n - 1)"

text \<open>
  The specification: nothing happens up to the limit; above it one low-level peer goes, and
  only when there is none, and the caller agrees, one high-level peer; the strategy
  selects the position.
\<close>

definition elimination_spec ::
  "(handle, 'n) set_ops \<Rightarrow> nat \<Rightarrow> ('s, 'n) lcm \<Rightarrow> bool \<Rightarrow> ('s, 'n) elimination" where
  "elimination_spec C rnd l eliminateHigh =
     (let st = effective_strategy (strategy l);
          l0 = l\<lparr>strategy := st\<rparr>;
          low = lowLevelConn l; high = highLevelConn l
      in if CountOfPeers l \<le> maxCountOfPeers l then Returns (l0, '''', True, [])
         else if low \<noteq> [] then
           (let i = victim_index st rnd (length low)
            in Returns (l0\<lparr>lowLevelConn := slice_delete low i\<rparr>, pc_pid (low ! i), True,
                        set_range C (pc_connSet (low ! i))))
         else if \<not> eliminateHigh then Returns (l0, '''', False, [])
         else
           (let i = victim_index st rnd (length high)
            in Returns (l0\<lparr>highLevelConn := slice_delete high i\<rparr>, pc_pid (high ! i), True,
                        set_range C (pc_connSet (high ! i)))))"

lemma take_slice_delete: "xs \<noteq> [] \<Longrightarrow> take (length xs - Suc 0) xs = slice_delete xs (length xs - 1)"
  by (cases xs rule: rev_cases) (simp_all add: slice_delete_eq)

lemma drop_slice_delete: "drop (Suc 0) xs = slice_delete xs 0"
  by (simp add: slice_delete_eq)

lemma set_strategy_same: "strategy l = st \<Longrightarrow> l\<lparr>strategy := st\<rparr> = l"
  by (cases l) simp

lemma victim_index_less: "0 < n \<Longrightarrow> victim_index st rnd n < n"
  by (simp add: victim_index_def split: elimination_strategy.splits)

lemmas elimination_defs =
  eliminated_def closeLowLevelConnFirst_def closeHighLevelConnFirst_def
  closeLowLevelConnLast_def closeHighLevelConnLast_def
  closeLowLevelConnRandom_def closeHighLevelConnRandom_def
  closeLowLevelConnWithIdx_def closeHighLevelConnWithIdx_def
  eliminateConnectionsRandom_def eliminateConnectionsFIFO_def eliminateConnectionsLIFO_def

lemma eliminateConnections_known:
  assumes "0 \<le> maxCountOfPeers l" and "strategy l \<noteq> EliminationStrategyUnknown"
  shows "eliminateConnections C rnd l h = elimination_spec C rnd l h"
proof (cases "CountOfPeers l \<le> maxCountOfPeers l")
  case True
  with assms(2) show ?thesis
    by (cases "strategy l")
       (simp_all add: eliminateConnections.simps elimination_defs elimination_spec_def
          effective_strategy_def CountOfPeers_def Let_def)
next
  case False
  then have ne: "lowLevelConn l = [] \<Longrightarrow> highLevelConn l \<noteq> []"
    using assms(1) by (auto simp: CountOfPeers_def)
  from False have over: "maxCountOfPeers l < int (length (highLevelConn l) + length (lowLevelConn l))"
    by (simp add: CountOfPeers_def)
  show ?thesis
  proof (cases "lowLevelConn l = []")
    case True
    with ne assms(2) over False show ?thesis
      by (cases "strategy l")
         (simp_all add: eliminateConnections.simps elimination_defs elimination_spec_def
            effective_strategy_def victim_index_def Let_def take_slice_delete drop_slice_delete
            set_strategy_same, simp_all add: slice_delete_eq)
  next
    case False': False
    with assms(2) over False show ?thesis
      by (cases "strategy l")
         (simp_all add: eliminateConnections.simps elimination_defs elimination_spec_def
            effective_strategy_def victim_index_def Let_def take_slice_delete drop_slice_delete
            set_strategy_same, simp_all add: slice_delete_eq)
  qed
qed

lemma eliminateConnections_spec:
  assumes "0 \<le> maxCountOfPeers l"
  shows "eliminateConnections C rnd l h = elimination_spec C rnd l h"
proof (cases "strategy l = EliminationStrategyUnknown")
  case True
  let ?l = "l\<lparr>strategy := DefaultEliminationStrategy\<rparr>"
  have "eliminateConnections C rnd l h = eliminateConnections C rnd ?l h"
    using True by (simp add: eliminateConnections.simps [of C rnd l h])
  also have "\<dots> = elimination_spec C rnd ?l h"
    using assms by (intro eliminateConnections_known) (simp_all add: DefaultEliminationStrategy_def)
  also have "\<dots> = elimination_spec C rnd l h"
    using True
    by (simp add: elimination_spec_def effective_strategy_def DefaultEliminationStrategy_def
        CountOfPeers_def Let_def)
  finally show ?thesis .
next
  case False
  with assms show ?thesis by (rule eliminateConnections_known)
qed

section \<open>Invariant and abstraction\<close>

definition lcm_wf :: "(peer_id, 's) set_ops \<Rightarrow> (handle, 'n) set_ops \<Rightarrow> ('s, 'n) lcm \<Rightarrow> bool" where
  "lcm_wf P C l \<longleftrightarrow>
     distinct (map pc_pid (highLevelConn l)) \<and>
     distinct (map pc_pid (lowLevelConn l)) \<and>
     (\<forall>c\<in>set (highLevelConn l). elems C (pc_connSet c) \<noteq> {}) \<and>
     (\<forall>c\<in>set (lowLevelConn l). elems C (pc_connSet c) \<noteq> {}) \<and>
     pc_pid ` set (highLevelConn l) \<subseteq> elems P (highLevelPeers l) \<and>
     strategy l \<noteq> EliminationStrategyUnknown \<and>
     1 \<le> maxCountOfPeers l \<and> 1 \<le> maxCountOfConnectionsEachPeer l"

text \<open>
  The abstract state: the connections recorded for each peer. The high level hides the low
  level, as in every lookup of the code.
\<close>

definition lcm_lookup :: "('s, 'n) lcm \<Rightarrow> peer_id \<Rightarrow> 'n option" where
  "lcm_lookup l pid = (case conn_set_of (highLevelConn l) pid of
      Some s \<Rightarrow> Some s | None \<Rightarrow> conn_set_of (lowLevelConn l) pid)"

definition lcm_conns :: "(handle, 'n) set_ops \<Rightarrow> ('s, 'n) lcm \<Rightarrow> peer_id \<Rightarrow> handle set" where
  "lcm_conns C l pid = (case lcm_lookup l pid of Some s \<Rightarrow> elems C s | None \<Rightarrow> {})"

lemma scan_eq_conn_set:
  "scan_connections cs pid = None \<longleftrightarrow> conn_set_of cs pid = None"
  "scan_connections cs pid = Some (s, i) \<Longrightarrow> conn_set_of cs pid = Some s"
  by (auto simp: conn_set_of_def)

lemma ExistPeerConnection_iff:
  assumes "set_laws C"
  shows "ExistPeerConnection C l pid conn \<longleftrightarrow> conn \<in> lcm_conns C l pid"
  using assms
  by (auto simp: ExistPeerConnection_def lcm_conns_def lcm_lookup_def getHighLevelConnections_def
      getLowLevelConnections_def set_simps scan_eq_conn_set split: option.splits)

lemma PeerAllConnection_eq:
  "PeerAllConnection C l pid = (case lcm_lookup l pid of Some s \<Rightarrow> set_range C s | None \<Rightarrow> [])"
  by (auto simp: PeerAllConnection_def lcm_lookup_def getHighLevelConnections_def
      getLowLevelConnections_def scan_eq_conn_set split: option.splits)

lemma set_PeerAllConnection: "set (PeerAllConnection C l pid) = lcm_conns C l pid"
  by (auto simp: PeerAllConnection_eq lcm_conns_def split: option.splits)

lemma lookup_nonempty:
  "lcm_wf P C l \<Longrightarrow> lcm_lookup l pid = Some s \<Longrightarrow> elems C s \<noteq> {}"
  by (auto simp: lcm_wf_def lcm_lookup_def split: option.splits dest!: conn_set_of_in)

lemma Connected_iff:
  assumes "set_laws C" and "lcm_wf P C l"
  shows "Connected C l pid \<longleftrightarrow> lcm_conns C l pid \<noteq> {}"
proof -
  have "scan_connections cs pid = Some (s, i) \<Longrightarrow>
      cs = highLevelConn l \<or> cs = lowLevelConn l \<Longrightarrow> elems C s \<noteq> {}" for cs s i
    using assms(2) by (auto simp: lcm_wf_def dest!: scan_connections_SomeD)
  then have high: "scan_connections (highLevelConn l) pid = Some (s, i) \<Longrightarrow> elems C s \<noteq> {}"
    and low: "scan_connections (lowLevelConn l) pid = Some (s, i) \<Longrightarrow> elems C s \<noteq> {}" for s i
    by blast+
  show ?thesis
    using assms(1)
    by (auto simp: Connected_def lcm_conns_def lcm_lookup_def getHighLevelConnections_def
        getLowLevelConnections_def set_size_pos_iff scan_eq_conn_set split: option.splits
        dest: high low)
qed

lemma lookup_None_iff: "lcm_lookup l pid = None \<longleftrightarrow> pid \<notin> set (AllPeers l)"
  by (auto simp: lcm_lookup_def AllPeers_def conn_set_of_None_iff split: option.splits
      dest: conn_set_of_in)

lemma AllPeers_iff_connected:
  assumes "set_laws C" and "lcm_wf P C l"
  shows "pid \<in> set (AllPeers l) \<longleftrightarrow> Connected C l pid"
  using lookup_None_iff [of l pid] lookup_nonempty [OF assms(2), of pid] Connected_iff [OF assms, of pid]
  by (cases "lcm_lookup l pid") (auto simp: lcm_conns_def)

lemma length_AllPeers: "int (length (AllPeers l)) = CountOfPeers l"
  by (simp add: AllPeers_def CountOfPeers_def)

lemma wf_New: "set_laws P \<Longrightarrow> lcm_wf P C (NewLevelConnectionManager P)"
  by (simp add: lcm_wf_def NewLevelConnectionManager_def DefaultEliminationStrategy_def
      DefaultMaxCountOfPeers_def DefaultMaxCountOfConnectionsEachPeer_def)

lemma wf_SetStrategy: "lcm_wf P C l \<Longrightarrow> lcm_wf P C (SetStrategy l st)"
  by (cases st) (simp_all add: lcm_wf_def SetStrategy_def DefaultEliminationStrategy_def)

lemma wf_SetMaxCountOfPeers: "lcm_wf P C l \<Longrightarrow> lcm_wf P C (SetMaxCountOfPeers l mx)"
  by (simp add: lcm_wf_def SetMaxCountOfPeers_def DefaultMaxCountOfPeers_def)

lemma wf_SetMaxConns: "lcm_wf P C l \<Longrightarrow> lcm_wf P C (SetMaxCountOfConnectionsEachPeer l mx)"
  by (simp add: lcm_wf_def SetMaxCountOfConnectionsEachPeer_def
      DefaultMaxCountOfConnectionsEachPeer_def)

lemma wf_AddHighLevelPeer:
  "set_laws P \<Longrightarrow> lcm_wf P C l \<Longrightarrow> lcm_wf P C (AddHighLevelPeer P l pid)"
  by (auto simp: lcm_wf_def AddHighLevelPeer_def set_simps)

lemmas wf_config = wf_SetStrategy wf_SetMaxCountOfPeers wf_SetMaxConns wf_AddHighLevelPeer

section \<open>Adding a connection\<close>

text \<open>The two steps of \<open>AddPeerConnection\<close>: a new entry, or a connection in an entry.\<close>

definition level_entry ::
  "(peer_id, 's) set_ops \<Rightarrow> ('s, 'n) lcm \<Rightarrow> peer_id \<Rightarrow> ('n \<times> nat) option" where
  "level_entry P l pid =
     (if set_exist P (highLevelPeers l) pid then getHighLevelConnections l pid
      else getLowLevelConnections l pid)"

definition with_entry ::
  "(peer_id, 's) set_ops \<Rightarrow> (handle, 'n) set_ops \<Rightarrow> ('s, 'n) lcm \<Rightarrow> peer_id \<Rightarrow> handle \<Rightarrow> ('s, 'n) lcm" where
  "with_entry P C l pid conn =
     (let pc = \<lparr>pc_pid = pid, pc_connSet = fst (set_put C (set_new C) conn)\<rparr>
      in if set_exist P (highLevelPeers l) pid then l\<lparr>highLevelConn := highLevelConn l @ [pc]\<rparr>
         else l\<lparr>lowLevelConn := lowLevelConn l @ [pc]\<rparr>)"

definition with_conn ::
  "(peer_id, 's) set_ops \<Rightarrow> (handle, 'n) set_ops \<Rightarrow> ('s, 'n) lcm \<Rightarrow> peer_id \<Rightarrow> nat \<Rightarrow> 'n \<Rightarrow> ('s, 'n) lcm" where
  "with_conn P C l pid idx s' =
     (if set_exist P (highLevelPeers l) pid
      then l\<lparr>highLevelConn := (highLevelConn l)[idx := (highLevelConn l ! idx)\<lparr>pc_connSet := s'\<rparr>]\<rparr>
      else l\<lparr>lowLevelConn := (lowLevelConn l)[idx := (lowLevelConn l ! idx)\<lparr>pc_connSet := s'\<rparr>]\<rparr>)"

definition remember :: "(peer_id, 's) set_ops \<Rightarrow> ('s, 'n) lcm \<Rightarrow> peer_id \<Rightarrow> ('s, 'n) lcm" where
  "remember P l ePID =
     (if ePID \<noteq> '''' then l\<lparr>eliminatePeers := fst (set_put P (eliminatePeers l) ePID)\<rparr> else l)"

lemma AddPeerConnection_eq:
  "AddPeerConnection P C rnd l pid conn =
     (case level_entry P l pid of
        Some (s, idx) \<Rightarrow>
          Returns (with_conn P C l pid idx (fst (set_put C s conn)), snd (set_put C s conn), [])
      | None \<Rightarrow>
          run_bind (eliminateConnections C rnd (with_entry P C l pid conn)
                      (set_exist P (highLevelPeers l) pid))
            (\<lambda>(l2, ePID, ok, closing). Returns (remember P l2 ePID, True, closing)))"
  by (simp add: AddPeerConnection_def level_entry_def with_entry_def with_conn_def remember_def
      Let_def split_def split: option.split)

lemma with_entry_fields [simp]:
  "maxCountOfPeers (with_entry P C l pid conn) = maxCountOfPeers l"
  "maxCountOfConnectionsEachPeer (with_entry P C l pid conn) = maxCountOfConnectionsEachPeer l"
  "strategy (with_entry P C l pid conn) = strategy l"
  "highLevelPeers (with_entry P C l pid conn) = highLevelPeers l"
  "eliminatePeers (with_entry P C l pid conn) = eliminatePeers l"
  "CountOfPeers (with_entry P C l pid conn) = CountOfPeers l + 1"
  by (simp_all add: with_entry_def CountOfPeers_def Let_def)

lemma with_conn_fields [simp]:
  "maxCountOfPeers (with_conn P C l pid idx s) = maxCountOfPeers l"
  "maxCountOfConnectionsEachPeer (with_conn P C l pid idx s) = maxCountOfConnectionsEachPeer l"
  "strategy (with_conn P C l pid idx s) = strategy l"
  "highLevelPeers (with_conn P C l pid idx s) = highLevelPeers l"
  "eliminatePeers (with_conn P C l pid idx s) = eliminatePeers l"
  "CountOfPeers (with_conn P C l pid idx s) = CountOfPeers l"
  by (simp_all add: with_conn_def CountOfPeers_def)

lemma remember_fields [simp]:
  "maxCountOfPeers (remember P l p) = maxCountOfPeers l"
  "maxCountOfConnectionsEachPeer (remember P l p) = maxCountOfConnectionsEachPeer l"
  "strategy (remember P l p) = strategy l"
  "highLevelPeers (remember P l p) = highLevelPeers l"
  "highLevelConn (remember P l p) = highLevelConn l"
  "lowLevelConn (remember P l p) = lowLevelConn l"
  "CountOfPeers (remember P l p) = CountOfPeers l"
  "lcm_wf P C (remember P l p) = lcm_wf P C l"
  "lcm_lookup (remember P l p) = lcm_lookup l"
  by (simp_all add: remember_def CountOfPeers_def lcm_wf_def lcm_lookup_def fun_eq_iff
      split: option.split)

lemma wf_with_entry:
  assumes "set_laws P" and "set_laws C" and "lcm_wf P C l" and "level_entry P l pid = None"
  shows "lcm_wf P C (with_entry P C l pid conn)"
  using assms
  by (auto simp: lcm_wf_def with_entry_def level_entry_def getHighLevelConnections_def
      getLowLevelConnections_def scan_connections_None_iff Let_def set_simps split: if_splits)

lemma wf_with_conn:
  assumes "set_laws C" and "lcm_wf P C l" and "level_entry P l pid = Some (s, i)"
  shows "lcm_wf P C (with_conn P C l pid i (fst (set_put C s conn)))"
proof -
  have "elems C (fst (set_put C s conn)) \<noteq> {}"
    using assms(1) by (simp add: set_simps)
  moreover have "set_exist P (highLevelPeers l) pid \<Longrightarrow> highLevelConn l ! i \<in> set (highLevelConn l)"
    using assms(3) by (auto simp: level_entry_def getHighLevelConnections_def dest: scan_connections_SomeD)
  ultimately show ?thesis
    using assms(2)
    by (auto simp: lcm_wf_def with_conn_def dest!: set_update_subset_insert [THEN subsetD])
qed

text \<open>What one elimination can do to a state whose own level is not empty.\<close>

lemma elimination_outcome:
  assumes "0 \<le> maxCountOfPeers l" and "strategy l \<noteq> EliminationStrategyUnknown"
    and "if h then highLevelConn l \<noteq> [] else lowLevelConn l \<noteq> []"
  obtains
    (none) "CountOfPeers l \<le> maxCountOfPeers l"
      "eliminateConnections C rnd l h = Returns (l, '''', True, [])"
  | (low) i where "i < length (lowLevelConn l)" "maxCountOfPeers l < CountOfPeers l"
      "i = victim_index (strategy l) rnd (length (lowLevelConn l))"
      "eliminateConnections C rnd l h =
         Returns (l\<lparr>lowLevelConn := slice_delete (lowLevelConn l) i\<rparr>, pc_pid (lowLevelConn l ! i),
                  True, set_range C (pc_connSet (lowLevelConn l ! i)))"
  | (high) i where "lowLevelConn l = []" "h" "i < length (highLevelConn l)"
      "maxCountOfPeers l < CountOfPeers l"
      "i = victim_index (strategy l) rnd (length (highLevelConn l))"
      "eliminateConnections C rnd l h =
         Returns (l\<lparr>highLevelConn := slice_delete (highLevelConn l) i\<rparr>, pc_pid (highLevelConn l ! i),
                  True, set_range C (pc_connSet (highLevelConn l ! i)))"
proof -
  have eff: "effective_strategy (strategy l) = strategy l" "l\<lparr>strategy := strategy l\<rparr> = l"
    using assms(2) by (simp_all add: effective_strategy_def)
  note spec = eliminateConnections_spec [OF assms(1)] elimination_spec_def Let_def eff
  show thesis
  proof (cases "CountOfPeers l \<le> maxCountOfPeers l")
    case True
    then show ?thesis by (intro none) (simp_all add: spec)
  next
    case over: False
    show ?thesis
    proof (cases "lowLevelConn l = []")
      case True
      with assms(3) over show ?thesis
        by (intro high [of "victim_index (strategy l) rnd (length (highLevelConn l))"])
           (simp_all add: spec victim_index_less split: if_splits)
    next
      case False
      with over show ?thesis
        by (intro low [of "victim_index (strategy l) rnd (length (lowLevelConn l))"])
           (simp_all add: spec victim_index_less)
    qed
  qed
qed

lemma scan_connections_nth:
  assumes "distinct (map pc_pid cs)" and "i < length cs"
  shows "scan_connections cs (pc_pid (cs ! i)) = Some (pc_connSet (cs ! i), i)"
  using assms
proof (induction cs arbitrary: i)
  case (Cons c cs)
  then show ?case
    by (cases i) (auto simp: image_iff, metis nth_mem)
qed simp

lemma lookup_with_entry:
  assumes "set_laws P" and "lcm_wf P C l" and "level_entry P l pid = None"
  shows "lcm_lookup (with_entry P C l pid conn) q =
           (if q = pid then Some (fst (set_put C (set_new C) conn)) else lcm_lookup l q)"
proof (cases "set_exist P (highLevelPeers l) pid")
  case True
  with assms(3) have "conn_set_of (highLevelConn l) pid = None"
    by (simp add: level_entry_def getHighLevelConnections_def scan_eq_conn_set)
  with True show ?thesis
    by (simp add: lcm_lookup_def with_entry_def conn_set_of_append Let_def split: option.split)
next
  case False
  with assms(3) have low: "conn_set_of (lowLevelConn l) pid = None"
    by (simp add: level_entry_def getLowLevelConnections_def scan_eq_conn_set)
  from False assms(1,2) have "conn_set_of (highLevelConn l) pid = None"
    by (auto simp: lcm_wf_def conn_set_of_None_iff set_simps)
  with False low show ?thesis
    by (simp add: lcm_lookup_def with_entry_def conn_set_of_append Let_def split: option.split)
qed

lemma lookup_with_conn:
  assumes "set_laws P" and "lcm_wf P C l" and "level_entry P l pid = Some (s, i)"
  shows "lcm_lookup (with_conn P C l pid i s') q =
           (if q = pid then Some s' else lcm_lookup l q)"
    and "lcm_lookup l pid = Some s"
proof -
  have "lcm_lookup (with_conn P C l pid i s') q =
           (if q = pid then Some s' else lcm_lookup l q) \<and> lcm_lookup l pid = Some s"
  proof (cases "set_exist P (highLevelPeers l) pid")
    case True
    with assms(3) have "scan_connections (highLevelConn l) pid = Some (s, i)"
      by (simp add: level_entry_def getHighLevelConnections_def)
    with True show ?thesis
      by (simp add: lcm_lookup_def with_conn_def conn_set_of_update scan_eq_conn_set
          split: option.split)
  next
    case False
    with assms(3) have "scan_connections (lowLevelConn l) pid = Some (s, i)"
      by (simp add: level_entry_def getLowLevelConnections_def)
    moreover from False assms(1,2) have "conn_set_of (highLevelConn l) pid = None"
      by (auto simp: lcm_wf_def conn_set_of_None_iff set_simps)
    ultimately show ?thesis using False
      by (simp add: lcm_lookup_def with_conn_def conn_set_of_update scan_eq_conn_set
          split: option.split)
  qed
  then show "lcm_lookup (with_conn P C l pid i s') q =
           (if q = pid then Some s' else lcm_lookup l q)"
    and "lcm_lookup l pid = Some s" by simp_all
qed

lemma lookup_delete_low:
  assumes "lcm_wf P C l" and "i < length (lowLevelConn l)"
  shows "lcm_lookup (l\<lparr>lowLevelConn := slice_delete (lowLevelConn l) i\<rparr>) q =
           (if q = pc_pid (lowLevelConn l ! i) then conn_set_of (highLevelConn l) q
            else lcm_lookup l q)"
  using conn_set_of_delete [OF _ scan_connections_nth [OF _ assms(2)]] assms(1)
  by (simp add: lcm_lookup_def lcm_wf_def split: option.split)

lemma lookup_delete_high:
  assumes "lcm_wf P C l" and "i < length (highLevelConn l)"
  shows "lcm_lookup (l\<lparr>highLevelConn := slice_delete (highLevelConn l) i\<rparr>) q =
           (if q = pc_pid (highLevelConn l ! i) then conn_set_of (lowLevelConn l) q
            else lcm_lookup l q)"
  using conn_set_of_delete [OF _ scan_connections_nth [OF _ assms(2)]] assms(1)
  by (simp add: lcm_lookup_def lcm_wf_def split: option.split)

lemma wf_delete_low:
  "lcm_wf P C l \<Longrightarrow> lcm_wf P C (l\<lparr>lowLevelConn := slice_delete (lowLevelConn l) i\<rparr>)"
  using set_slice_delete [of "lowLevelConn l" i]
  by (auto simp: lcm_wf_def slice_delete_map distinct_slice_delete image_subset_iff)

lemma wf_delete_high:
  "lcm_wf P C l \<Longrightarrow> lcm_wf P C (l\<lparr>highLevelConn := slice_delete (highLevelConn l) i\<rparr>)"
  using set_slice_delete [of "highLevelConn l" i]
  by (auto simp: lcm_wf_def slice_delete_map distinct_slice_delete image_subset_iff)

text \<open>The four outcomes of \<open>AddPeerConnection\<close>.\<close>

lemma AddPeerConnection_outcome:
  assumes "set_laws P" and "lcm_wf P C l"
  obtains
    (existing) s i where "level_entry P l pid = Some (s, i)"
      "AddPeerConnection P C rnd l pid conn =
         Returns (with_conn P C l pid i (fst (set_put C s conn)), snd (set_put C s conn), [])"
  | (new) "level_entry P l pid = None" "CountOfPeers l + 1 \<le> maxCountOfPeers l"
      "AddPeerConnection P C rnd l pid conn =
         Returns (with_entry P C l pid conn, True, [])"
  | (low) w i where "level_entry P l pid = None" "w = with_entry P C l pid conn"
      "maxCountOfPeers l < CountOfPeers l + 1"
      "i < length (lowLevelConn w)"
      "i = victim_index (strategy l) rnd (length (lowLevelConn w))"
      "AddPeerConnection P C rnd l pid conn =
         Returns (remember P (w\<lparr>lowLevelConn := slice_delete (lowLevelConn w) i\<rparr>)
                    (pc_pid (lowLevelConn w ! i)),
                  True, set_range C (pc_connSet (lowLevelConn w ! i)))"
  | (high) w i where "level_entry P l pid = None" "w = with_entry P C l pid conn"
      "maxCountOfPeers l < CountOfPeers l + 1" "pid \<in> elems P (highLevelPeers l)"
      "lowLevelConn l = []" "i < length (highLevelConn w)"
      "i = victim_index (strategy l) rnd (length (highLevelConn w))"
      "AddPeerConnection P C rnd l pid conn =
         Returns (remember P (w\<lparr>highLevelConn := slice_delete (highLevelConn w) i\<rparr>)
                    (pc_pid (highLevelConn w ! i)),
                  True, set_range C (pc_connSet (highLevelConn w ! i)))"
proof (cases "level_entry P l pid")
  case (Some r)
  then show thesis
    by (cases r) (auto intro!: existing simp: AddPeerConnection_eq)
next
  case None
  let ?h = "set_exist P (highLevelPeers l) pid"
  let ?w = "with_entry P C l pid conn"
  have own: "if ?h then highLevelConn ?w \<noteq> [] else lowLevelConn ?w \<noteq> []"
    by (simp add: with_entry_def Let_def)
  have lows: "?h \<Longrightarrow> lowLevelConn ?w = lowLevelConn l"
    by (simp add: with_entry_def Let_def)
  have pre: "0 \<le> maxCountOfPeers ?w" "strategy ?w \<noteq> EliminationStrategyUnknown"
    using assms(2) by (simp_all add: lcm_wf_def)
  show thesis
    using pre own
  proof (cases rule: elimination_outcome [where C = C and rnd = rnd])
    case none
    with None show ?thesis by (intro new) (simp_all add: AddPeerConnection_eq remember_def)
  next
    case (low i)
    with None show ?thesis by (intro that(3) [of ?w i]) (simp_all add: AddPeerConnection_eq)
  next
    case (high i)
    with None lows assms(1) show ?thesis
      by (intro that(4) [of ?w i]) (simp_all add: AddPeerConnection_eq set_simps)
  qed
qed

lemma wf_AddPeerConnection:
  assumes "set_laws P" and "set_laws C" and "lcm_wf P C l"
  obtains l' b cs where "AddPeerConnection P C rnd l pid conn = Returns (l', b, cs)"
    "lcm_wf P C l'" "CountOfPeers l' \<le> max (CountOfPeers l) (maxCountOfPeers l)"
    "maxCountOfPeers l' = maxCountOfPeers l" "strategy l' = strategy l"
    "maxCountOfConnectionsEachPeer l' = maxCountOfConnectionsEachPeer l"
  using assms(1,3)
proof (cases rule: AddPeerConnection_outcome [where rnd = rnd and pid = pid and conn = conn])
  case (existing s i)
  with assms show ?thesis
    by (intro that [of "with_conn P C l pid i (fst (set_put C s conn))"]) (auto intro: wf_with_conn)
next
  case new
  with assms show ?thesis
    by (intro that [of "with_entry P C l pid conn"]) (auto intro: wf_with_entry)
next
  case (low w i)
  have w: "lcm_wf P C w" using assms low(1,2) by (auto intro: wf_with_entry)
  have "CountOfPeers (w\<lparr>lowLevelConn := slice_delete (lowLevelConn w) i\<rparr>) = CountOfPeers w - 1"
    using low(4) by (auto simp: CountOfPeers_def)
  moreover have "CountOfPeers w = CountOfPeers l + 1" using low(2) by simp
  ultimately show ?thesis using low w
    by (intro that [OF low(6)]) (simp_all add: wf_delete_low)
next
  case (high w i)
  have w: "lcm_wf P C w" using assms high(1,2) by (auto intro: wf_with_entry)
  have "CountOfPeers (w\<lparr>highLevelConn := slice_delete (highLevelConn w) i\<rparr>) = CountOfPeers w - 1"
    using high(6) by (auto simp: CountOfPeers_def)
  moreover have "CountOfPeers w = CountOfPeers l + 1" using high(2) by simp
  ultimately show ?thesis using high w
    by (intro that [OF high(8)]) (simp_all add: wf_delete_high)
qed

section \<open>Removing a connection\<close>

definition recorded :: "(handle, 'n) set_ops \<Rightarrow> 'n peer_connections list \<Rightarrow> peer_id \<Rightarrow> handle \<Rightarrow> bool" where
  "recorded C cs pid conn = (case conn_set_of cs pid of Some s \<Rightarrow> conn \<in> elems C s | None \<Rightarrow> False)"

definition forget :: "'n peer_connections list \<Rightarrow> peer_id \<Rightarrow> 'n peer_connections list" where
  "forget cs pid = filter (\<lambda>c. pc_pid c \<noteq> pid) cs"

lemma slice_delete_forget:
  "distinct (map pc_pid cs) \<Longrightarrow> scan_connections cs pid = Some (s, i) \<Longrightarrow>
     slice_delete cs i = forget cs pid"
proof (induction cs arbitrary: i)
  case (Cons c cs)
  show ?case
  proof (cases "pid = pc_pid c")
    case True
    with Cons.prems show ?thesis
      by (auto simp: slice_delete_eq forget_def image_iff intro!: filter_True [symmetric])
  next
    case False
    with Cons.prems obtain j where "i = Suc j" "scan_connections cs pid = Some (s, j)" by auto
    with Cons False show ?thesis by (simp add: slice_delete_eq forget_def)
  qed
qed simp

lemma conn_set_of_forget:
  "conn_set_of (forget cs pid) q = (if q = pid then None else conn_set_of cs q)"
  by (induction cs) (auto simp: forget_def)

lemma length_forget_le: "length (forget cs pid) \<le> length cs"
  by (simp add: forget_def)

lemma distinct_forget: "distinct (map pc_pid cs) \<Longrightarrow> distinct (map pc_pid (forget cs pid))"
  by (induction cs) (auto simp: forget_def)

lemma RemovePeerConnection_spec:
  assumes "set_laws P" and "set_laws C" and "lcm_wf P C l"
  shows "RemovePeerConnection P C l pid conn =
    (l\<lparr>highLevelConn := (if recorded C (highLevelConn l) pid conn then forget (highLevelConn l) pid
                          else highLevelConn l),
       lowLevelConn := (if recorded C (lowLevelConn l) pid conn then forget (lowLevelConn l) pid
                         else lowLevelConn l),
       eliminatePeers := fst (set_remove P (eliminatePeers l) pid)\<rparr>,
     recorded C (highLevelConn l) pid conn \<or> recorded C (lowLevelConn l) pid conn \<or>
     pid \<in> elems P (eliminatePeers l))"
proof -
  have d: "distinct (map pc_pid (highLevelConn l))" "distinct (map pc_pid (lowLevelConn l))"
    using assms(3) by (simp_all add: lcm_wf_def)
  note defs = RemovePeerConnection_def getHighLevelConnections_def getLowLevelConnections_def
    recorded_def conn_set_of_def set_simps slice_delete_forget [OF d(1)] slice_delete_forget [OF d(2)]
    Let_def split_def
  show ?thesis
    using assms(1,2)
    by (cases "scan_connections (highLevelConn l) pid";
        cases "scan_connections (lowLevelConn l) pid")
       (auto simp: defs)
qed

lemma wf_RemovePeerConnection:
  assumes "set_laws P" and "set_laws C" and "lcm_wf P C l"
  shows "lcm_wf P C (fst (RemovePeerConnection P C l pid conn))"
    and "CountOfPeers (fst (RemovePeerConnection P C l pid conn)) \<le> CountOfPeers l"
    and "maxCountOfPeers (fst (RemovePeerConnection P C l pid conn)) = maxCountOfPeers l"
  using assms length_forget_le [of "highLevelConn l" pid] length_forget_le [of "lowLevelConn l" pid]
  by (auto simp: RemovePeerConnection_spec lcm_wf_def distinct_forget CountOfPeers_def)
     (auto simp: forget_def)

lemma lookup_RemovePeerConnection_other:
  assumes "set_laws P" and "set_laws C" and "lcm_wf P C l" and "q \<noteq> pid"
  shows "lcm_lookup (fst (RemovePeerConnection P C l pid conn)) q = lcm_lookup l q"
  using assms(4) by (simp add: RemovePeerConnection_spec [OF assms(1-3)] lcm_lookup_def conn_set_of_forget
      cong: option.case_cong)

lemma RemovePeerConnection_gone:
  assumes "set_laws P" and "set_laws C" and "lcm_wf P C l"
  shows "conn \<notin> lcm_conns C (fst (RemovePeerConnection P C l pid conn)) pid"
  by (auto simp: RemovePeerConnection_spec [OF assms] lcm_conns_def lcm_lookup_def
      conn_set_of_forget recorded_def split: option.splits if_splits)

section \<open>Runs\<close>

datatype lcm_op =
    OpAdd nat peer_id handle
  | OpRemove peer_id handle
  | OpHighLevel peer_id
  | OpStrategy elimination_strategy
  | OpMaxConns int

fun lcm_exec ::
  "(peer_id, 's) set_ops \<Rightarrow> (handle, 'n) set_ops \<Rightarrow> ('s, 'n) lcm \<Rightarrow> lcm_op \<Rightarrow> ('s, 'n) lcm run" where
  "lcm_exec P C l (OpAdd rnd pid conn) =
     run_bind (AddPeerConnection P C rnd l pid conn) (\<lambda>(l', _, _). Returns l')"
| "lcm_exec P C l (OpRemove pid conn) = Returns (fst (RemovePeerConnection P C l pid conn))"
| "lcm_exec P C l (OpHighLevel pid) = Returns (AddHighLevelPeer P l pid)"
| "lcm_exec P C l (OpStrategy st) = Returns (SetStrategy l st)"
| "lcm_exec P C l (OpMaxConns mx) = Returns (SetMaxCountOfConnectionsEachPeer l mx)"

fun lcm_run ::
  "(peer_id, 's) set_ops \<Rightarrow> (handle, 'n) set_ops \<Rightarrow> ('s, 'n) lcm \<Rightarrow> lcm_op list \<Rightarrow> ('s, 'n) lcm run" where
  "lcm_run P C l [] = Returns l"
| "lcm_run P C l (x # xs) = run_bind (lcm_exec P C l x) (\<lambda>l'. lcm_run P C l' xs)"

definition within_limit :: "('s, 'n) lcm \<Rightarrow> bool" where
  "within_limit l \<longleftrightarrow> CountOfPeers l \<le> maxCountOfPeers l"

lemma within_limit_config:
  "within_limit l \<Longrightarrow> within_limit (SetStrategy l st)"
  "within_limit l \<Longrightarrow> within_limit (SetMaxCountOfConnectionsEachPeer l mx)"
  "within_limit l \<Longrightarrow> within_limit (AddHighLevelPeer P l pid)"
  by (cases st)
     (simp_all add: within_limit_def CountOfPeers_def SetStrategy_def
        SetMaxCountOfConnectionsEachPeer_def AddHighLevelPeer_def)

lemma lcm_exec_step:
  assumes "set_laws P" and "set_laws C" and "lcm_wf P C l" and "within_limit l"
  shows "\<exists>l'. lcm_exec P C l x = Returns l' \<and> lcm_wf P C l' \<and> within_limit l'"
proof (cases x)
  case (OpAdd rnd pid conn)
  from assms obtain l' b cs where "AddPeerConnection P C rnd l pid conn = Returns (l', b, cs)"
    "lcm_wf P C l'" "CountOfPeers l' \<le> max (CountOfPeers l) (maxCountOfPeers l)"
    "maxCountOfPeers l' = maxCountOfPeers l"
    using wf_AddPeerConnection by metis
  with OpAdd assms(4) show ?thesis by (simp add: within_limit_def)
next
  case (OpRemove pid conn)
  with assms wf_RemovePeerConnection [OF assms(1-3), of pid conn] show ?thesis
    by (simp add: within_limit_def)
qed (use assms in \<open>simp_all add: wf_config within_limit_config\<close>)

lemma lcm_run_steps:
  assumes "set_laws P" and "set_laws C" and "lcm_wf P C l" and "within_limit l"
  shows "\<exists>l'. lcm_run P C l xs = Returns l' \<and> lcm_wf P C l' \<and> within_limit l'"
  using assms(3,4)
proof (induction xs arbitrary: l)
  case (Cons x xs)
  from lcm_exec_step [OF assms(1,2) Cons.prems, of x] obtain l1
    where "lcm_exec P C l x = Returns l1" "lcm_wf P C l1" "within_limit l1" by blast
  with Cons.IH [of l1] show ?case by simp
qed simp

lemma within_limit_New: "within_limit (SetMaxCountOfPeers (NewLevelConnectionManager P) mx)"
  by (simp add: within_limit_def CountOfPeers_def SetMaxCountOfPeers_def
      NewLevelConnectionManager_def DefaultMaxCountOfPeers_def)

lemma with_conn_pids [simp]:
  "AllPeers (with_conn P C l pid i s) = AllPeers l"
  "pc_pid ` set (highLevelConn (with_conn P C l pid i s)) = pc_pid ` set (highLevelConn l)"
proof -
  have m: "map pc_pid (highLevelConn (with_conn P C l pid i s)) = map pc_pid (highLevelConn l)"
    "map pc_pid (lowLevelConn (with_conn P C l pid i s)) = map pc_pid (lowLevelConn l)"
    by (simp_all add: with_conn_def)
  then show "AllPeers (with_conn P C l pid i s) = AllPeers l" by (simp add: AllPeers_def)
  from m(1) have "set (map pc_pid (highLevelConn (with_conn P C l pid i s))) =
      set (map pc_pid (highLevelConn l))" by (rule arg_cong)
  then show "pc_pid ` set (highLevelConn (with_conn P C l pid i s)) = pc_pid ` set (highLevelConn l)"
    by simp
qed

lemma Allowed_fresh:
  assumes "lcm_lookup l pid = None"
  shows "Allowed P C l pid \<longleftrightarrow>
     (if strategy l = EliminationStrategyLIFO then
        (if set_exist P (highLevelPeers l) pid then int (length (highLevelConn l)) < maxCountOfPeers l
         else CountOfPeers l < maxCountOfPeers l)
      else set_exist P (highLevelPeers l) pid \<or> int (length (highLevelConn l)) < maxCountOfPeers l)"
proof -
  have "scan_connections (highLevelConn l) pid = None" "scan_connections (lowLevelConn l) pid = None"
    using assms by (auto simp: lcm_lookup_def scan_eq_conn_set split: option.splits)
  then show ?thesis
    by (auto simp: Allowed_def getHighLevelConnections_def getLowLevelConnections_def
        CountOfPeers_def Let_def)
qed

lemma Allowed_entry:
  assumes "set_laws C" and "lcm_wf P C l" and "level_entry P l pid = Some (s, i)"
    and "Allowed P C l pid"
  shows "int (card (elems C s)) < maxCountOfConnectionsEachPeer l"
proof -
  let ?size = "\<lambda>r. case r of Some (s, i) \<Rightarrow> set_size C s | None \<Rightarrow> 0"
  have nonneg: "0 \<le> set_size C t" for t using assms(1) by (simp add: set_size_card)
  have "elems C s \<noteq> {}"
    using lookup_nonempty [OF assms(2)] assms(2,3) scan_connections_SomeD
    by (fastforce simp: level_entry_def getHighLevelConnections_def getLowLevelConnections_def
        lcm_wf_def split: if_splits)
  then have pos: "0 < set_size C s" using assms(1) by (simp add: set_size_pos_iff)
  have le: "set_size C s \<le> ?size (getHighLevelConnections l pid) + ?size (getLowLevelConnections l pid)"
    using assms(3) nonneg
    by (auto simp: level_entry_def split: if_splits option.splits)
  have "set_size C s < maxCountOfConnectionsEachPeer l"
    using assms(4) pos le by (auto simp: Allowed_def Let_def split: if_splits)
  then show ?thesis using assms(1) by (simp add: set_size_card)
qed

text \<open>A new entry that the elimination does not hit is found afterwards.\<close>

lemma fresh_entry_conns:
  assumes "set_laws C" and "lcm_lookup l' pid = Some (fst (set_put C (set_new C) conn))"
  shows "lcm_conns C l' pid = {conn}"
  using assms by (simp add: lcm_conns_def set_simps)

lemma level_None_lookup:
  assumes "set_laws P" and "lcm_wf P C l" and "level_entry P l pid = None"
    and "\<not> set_exist P (highLevelPeers l) pid \<or> lowLevelConn l = []"
  shows "lcm_lookup l pid = None"
  using assms
  by (auto simp: level_entry_def lcm_lookup_def getHighLevelConnections_def
      getLowLevelConnections_def lcm_wf_def set_simps scan_eq_conn_set conn_set_of_None_iff
      split: option.splits if_splits dest!: conn_set_of_in)

text \<open>Under FIFO and LIFO the eliminated entry is not the one just admitted.\<close>

lemma admitted_not_low_victim:
  assumes "set_laws P" and "lcm_wf P C l" and "CountOfPeers l \<le> maxCountOfPeers l"
    and "strategy l \<noteq> EliminationStrategyRandom" and "Allowed P C l pid"
    and "level_entry P l pid = None" and "w = with_entry P C l pid conn"
    and "maxCountOfPeers l < CountOfPeers l + 1"
    and "i = victim_index (strategy l) rnd (length (lowLevelConn w))"
    and "\<not> set_exist P (highLevelPeers l) pid"
  shows "pc_pid (lowLevelConn w ! i) \<noteq> pid"
proof -
  have none: "lcm_lookup l pid = None"
    using level_None_lookup assms(1,2,6,10) by blast
  have wl: "lowLevelConn w =
      lowLevelConn l @ [\<lparr>pc_pid = pid, pc_connSet = fst (set_put C (set_new C) conn)\<rparr>]"
    using assms(7,10) by (simp add: with_entry_def Let_def)
  have fifo: "strategy l = EliminationStrategyFIFO" "int (length (highLevelConn l)) < maxCountOfPeers l"
    using assms(2,4,5,8,10) Allowed_fresh [OF none, of P C]
    by (cases "strategy l"; auto simp: lcm_wf_def)+
  then have "lowLevelConn l \<noteq> []" using assms(8) by (auto simp: CountOfPeers_def)
  then show ?thesis
    using fifo(1) assms(9) wl none
    by (auto simp: victim_index_def nth_append lcm_lookup_def conn_set_of_None_iff
        split: option.splits)
qed

lemma admitted_not_high_victim:
  assumes "set_laws P" and "lcm_wf P C l" and "CountOfPeers l \<le> maxCountOfPeers l"
    and "strategy l \<noteq> EliminationStrategyRandom" and "Allowed P C l pid"
    and "level_entry P l pid = None" and "w = with_entry P C l pid conn"
    and "maxCountOfPeers l < CountOfPeers l + 1"
    and "i = victim_index (strategy l) rnd (length (highLevelConn w))"
    and "pid \<in> elems P (highLevelPeers l)" and "lowLevelConn l = []"
  shows "pc_pid (highLevelConn w ! i) \<noteq> pid"
proof -
  have none: "lcm_lookup l pid = None"
    using level_None_lookup assms(1,2,6,11) by blast
  have wl: "highLevelConn w =
      highLevelConn l @ [\<lparr>pc_pid = pid, pc_connSet = fst (set_put C (set_new C) conn)\<rparr>]"
    using assms(1,7,10) by (simp add: with_entry_def Let_def set_simps)
  have fifo: "strategy l = EliminationStrategyFIFO"
    using assms(1,2,4,5,8,10,11) Allowed_fresh [OF none, of P C]
    by (cases "strategy l"; auto simp: lcm_wf_def CountOfPeers_def set_simps)
  have "highLevelConn l \<noteq> []"
    using assms(2,8,11) by (auto simp: CountOfPeers_def lcm_wf_def)
  then show ?thesis
    using fifo assms(9) wl none
    by (auto simp: victim_index_def nth_append lcm_lookup_def conn_set_of_None_iff
        split: option.splits)
qed

lemma lookup_hidden_low:
  assumes "lcm_wf P C w" and "i < length (lowLevelConn w)"
    and "pid \<in> pc_pid ` set (highLevelConn w) \<or> pc_pid (lowLevelConn w ! i) \<noteq> pid"
  shows "lcm_lookup (w\<lparr>lowLevelConn := slice_delete (lowLevelConn w) i\<rparr>) pid = lcm_lookup w pid"
proof (cases "pc_pid (lowLevelConn w ! i) = pid")
  case True
  with assms(3) have "conn_set_of (highLevelConn w) pid \<noteq> None"
    by (auto simp: conn_set_of_None_iff)
  with True show ?thesis
    by (auto simp: lookup_delete_low [OF assms(1,2)] lcm_lookup_def)
next
  case False
  then show ?thesis by (simp add: lookup_delete_low [OF assms(1,2)])
qed

text \<open>So after the admission the peer's set is the new one, or its old one with the connection.\<close>

lemma admitted_conns:
  assumes "set_laws P" and "set_laws C" and "lcm_wf P C l"
    and "CountOfPeers l \<le> maxCountOfPeers l"
    and "strategy l \<noteq> EliminationStrategyRandom" and "Allowed P C l pid"
    and "AddPeerConnection P C rnd l pid conn = Returns (l', added, closed)"
  shows "lcm_conns C l' pid = {conn} \<or>
        (\<exists>s i. level_entry P l pid = Some (s, i) \<and> lcm_conns C l' pid = insert conn (elems C s))"
  using assms(1,3)
proof (cases rule: AddPeerConnection_outcome [where rnd = rnd and pid = pid and conn = conn])
  case (existing s i)
  with assms have "lcm_lookup l' pid = Some (fst (set_put C s conn))"
    using lookup_with_conn(1) [OF assms(1,3) existing(1)] by auto
  with existing assms(2) show ?thesis by (auto simp: lcm_conns_def set_simps)
next
  case new
  with assms lookup_with_entry [OF assms(1,3) new(1)] show ?thesis
    by (auto intro!: fresh_entry_conns)
next
  case (low w i)
  have w: "lcm_wf P C w" "lcm_lookup w pid = Some (fst (set_put C (set_new C) conn))"
    using low(1,2) assms(1-3) by (simp_all add: wf_with_entry lookup_with_entry [OF assms(1,3)])
  have "pid \<in> pc_pid ` set (highLevelConn w) \<or> pc_pid (lowLevelConn w ! i) \<noteq> pid"
    using admitted_not_low_victim [OF assms(1,3-6) low(1-3,5)] low(2)
    by (auto simp: with_entry_def Let_def)
  with lookup_hidden_low [OF w(1) low(4)] low(6) assms(7) w(2) show ?thesis
    by (auto intro!: fresh_entry_conns [OF assms(2)])
next
  case (high w i)
  have w: "lcm_wf P C w" "lcm_lookup w pid = Some (fst (set_put C (set_new C) conn))"
    using high(1,2) assms(1-3) by (simp_all add: wf_with_entry lookup_with_entry [OF assms(1,3)])
  show ?thesis
    using lookup_delete_high [OF w(1) high(6)] high(8) assms(7) w(2)
      admitted_not_high_victim [OF assms(1,3-6) high(1-3,7,4,5)]
    by (auto intro!: fresh_entry_conns [OF assms(2)])
qed

section \<open>The contract\<close>

text \<open>
  What the rest of the host relies on of a \<open>manager.ConnectionManager\<close>, and what follows from it
  for a client. \<open>conns l p\<close> is the set of connections recorded for the peer \<open>p\<close>.
\<close>

locale connection_manager =
  fixes invar :: "'l \<Rightarrow> bool"
    and conns :: "'l \<Rightarrow> peer_id \<Rightarrow> handle set"
    and add :: "nat \<Rightarrow> 'l \<Rightarrow> peer_id \<Rightarrow> handle \<Rightarrow> ('l \<times> bool \<times> handle list) run"
    and remove :: "'l \<Rightarrow> peer_id \<Rightarrow> handle \<Rightarrow> 'l \<times> bool"
    and exist :: "'l \<Rightarrow> peer_id \<Rightarrow> handle \<Rightarrow> bool"
    and connected :: "'l \<Rightarrow> peer_id \<Rightarrow> bool"
    and all_peers :: "'l \<Rightarrow> peer_id list"
  assumes exist_law: "invar l \<Longrightarrow> exist l p c \<longleftrightarrow> c \<in> conns l p"
    and connected_law: "invar l \<Longrightarrow> connected l p \<longleftrightarrow> conns l p \<noteq> {}"
    and all_peers_law: "invar l \<Longrightarrow> set (all_peers l) = {p. conns l p \<noteq> {}}"
    and add_law: "invar l \<Longrightarrow> \<exists>l' ok closed. add rnd l p c = Returns (l', ok, closed) \<and> invar l'"
    and remove_law: "invar l \<Longrightarrow> remove l p c = (l', ok) \<Longrightarrow>
      invar l' \<and> c \<notin> conns l' p \<and> (c \<in> conns l p \<longrightarrow> ok) \<and> (\<forall>q. q \<noteq> p \<longrightarrow> conns l' q = conns l q)"
begin

lemma all_peers_connected: "invar l \<Longrightarrow> p \<in> set (all_peers l) \<longleftrightarrow> connected l p"
  by (simp add: all_peers_law connected_law)

lemma removed_not_exist: "invar l \<Longrightarrow> remove l p c = (l', ok) \<Longrightarrow> \<not> exist l' p c"
  using remove_law [of l p c l' ok] exist_law [of l' p c] by blast

lemma remove_other_connected:
  "invar l \<Longrightarrow> remove l p c = (l', ok) \<Longrightarrow> q \<noteq> p \<Longrightarrow> connected l' q = connected l q"
  using remove_law [of l p c l' ok] connected_law [of l' q] connected_law [of l q] by simp

lemma add_never_panics: "invar l \<Longrightarrow> add rnd l p c \<noteq> Panics x"
  using add_law [of l rnd p c] by auto

end

interpretation lcm: connection_manager "\<lambda>l. set_laws P \<and> set_laws C \<and> lcm_wf P C l" "lcm_conns C"
    "AddPeerConnection P C" "RemovePeerConnection P C" "ExistPeerConnection C" "Connected C" AllPeers
    for P C
proof (unfold_locales, goal_cases)
  case (1 l p c)
  then show ?case by (simp add: ExistPeerConnection_iff)
next
  case (2 l p)
  then show ?case using Connected_iff [of C P l p] by simp
next
  case (3 l)
  then show ?case using AllPeers_iff_connected [of C P l] Connected_iff [of C P l] by auto
next
  case (4 l rnd p c)
  then show ?case by (metis wf_AddPeerConnection)
next
  case (5 l p c l' ok)
  then have l': "l' = fst (RemovePeerConnection P C l p c)" "ok = snd (RemovePeerConnection P C l p c)"
    by simp_all
  have "c \<in> lcm_conns C l p \<Longrightarrow> ok"
    using RemovePeerConnection_spec [of P C l p c] 5(1) unfolding l'(2)
    by (auto simp: lcm_conns_def lcm_lookup_def recorded_def split: option.splits)
  then show ?case
    using 5(1) wf_RemovePeerConnection(1) [of P C l p c] RemovePeerConnection_gone [of P C l c p]
      lookup_RemovePeerConnection_other [of P C l _ p c]
    by (simp add: l' lcm_conns_def)
qed

section \<open>Properties\<close>

text \<open>
  C1. A manager created and configured with any maximum, and then driven by any sequence of
  added and removed connections, new high-level peers and changes of strategy or of the
  per-peer limit, never panics, never holds more peers than its maximum, keeps its tables
  well formed, and reports exactly the connected peers.
\<close>

theorem connection_manager_respects_limit:
  assumes "set_laws P" and "set_laws C"
  shows "\<exists>l. lcm_run P C (SetMaxCountOfPeers (NewLevelConnectionManager P) mx) ops = Returns l \<and>
             lcm_wf P C l \<and> CountOfPeers l \<le> MaxCountOfPeersAllowed l \<and>
             int (length (AllPeers l)) = CountOfPeers l \<and>
             (\<forall>pid. pid \<in> set (AllPeers l) \<longleftrightarrow> Connected C l pid)"
proof -
  have "lcm_wf P C (SetMaxCountOfPeers (NewLevelConnectionManager P) mx)"
    using assms by (intro wf_config wf_New)
  from lcm_run_steps [OF assms this within_limit_New, of ops] show ?thesis
    by (auto simp: within_limit_def MaxCountOfPeersAllowed_def length_AllPeers
        AllPeers_iff_connected [OF assms(2)])
qed

theorem connection_manager_respects_limit_witness:
  "\<exists>l. lcm_run list_set list_set (SetMaxCountOfPeers (NewLevelConnectionManager list_set) 2)
         [OpAdd 0 ''a'' 1, OpAdd 0 ''b'' 2, OpHighLevel ''c'', OpAdd 0 ''c'' 3] = Returns l \<and>
       lcm_wf list_set list_set l \<and> CountOfPeers l \<le> MaxCountOfPeersAllowed l \<and>
       int (length (AllPeers l)) = CountOfPeers l \<and>
       (\<forall>pid. pid \<in> set (AllPeers l) \<longleftrightarrow> Connected list_set l pid)"
  by (rule connection_manager_respects_limit [OF list_set_laws list_set_laws])

text \<open>
  C19. With a limit that is not negative, the three elimination routines and their dispatch compute
  the elimination specification: nothing up to the limit; above it, one low-level peer chosen by the
  strategy while there is one; a high-level peer only when no low-level peer is left and the caller
  allows it; failure otherwise. An unknown strategy is replaced by the default first. This is what the
  code does and not what the comments of the four functions say: by them, \<open>eliminateHigh\<close>
  gives the elimination of high-level connections priority, while the code takes a low-level peer
  first even then and \<open>eliminateHigh\<close> only permits a high-level one when there is no other.
\<close>

theorem elimination_meets_specification:
  assumes "0 \<le> maxCountOfPeers l"
  shows "eliminateConnections C rnd l eliminateHigh = elimination_spec C rnd l eliminateHigh"
  using assms by (rule eliminateConnections_spec)

theorem elimination_meets_specification_witness:
  "eliminateConnections list_set 0
     (\<lparr>maxCountOfPeers = 1, maxCountOfConnectionsEachPeer = 1, strategy = EliminationStrategyFIFO,
       highLevelPeers = [], highLevelConn = [],
       lowLevelConn = [\<lparr>pc_pid = ''a'', pc_connSet = [7]\<rparr>, \<lparr>pc_pid = ''b'', pc_connSet = [8]\<rparr>],
       eliminatePeers = []\<rparr> :: (peer_id list, handle list) lcm) False =
   Returns
     (\<lparr>maxCountOfPeers = 1, maxCountOfConnectionsEachPeer = 1, strategy = EliminationStrategyFIFO,
       highLevelPeers = [], highLevelConn = [],
       lowLevelConn = [\<lparr>pc_pid = ''b'', pc_connSet = [8]\<rparr>], eliminatePeers = []\<rparr>,
      ''a'', True, [7])"
  by (subst elimination_meets_specification)
     (simp_all add: elimination_spec_def CountOfPeers_def effective_strategy_def victim_index_def
        slice_delete_def)

text \<open>
  Under FIFO or LIFO, a connection of a peer that \<open>Allowed\<close> admitted is held by the
  manager after \<open>AddPeerConnection\<close> (its own admission never eliminates it), and the
  per-peer limit is kept.
\<close>

theorem admitted_connection_is_kept:
  assumes "set_laws P" and "set_laws C" and "lcm_wf P C l"
    and "CountOfPeers l \<le> maxCountOfPeers l"
    and "strategy l \<noteq> EliminationStrategyRandom" and "Allowed P C l pid"
    and "AddPeerConnection P C rnd l pid conn = Returns (l', added, closed)"
  shows "ExistPeerConnection C l' pid conn \<and>
         int (card (lcm_conns C l' pid)) \<le> maxCountOfConnectionsEachPeer l'"
proof -
  note admitted_conns [OF assms]
  moreover have "maxCountOfConnectionsEachPeer l' = maxCountOfConnectionsEachPeer l"
    using wf_AddPeerConnection [OF assms(1-3), of rnd pid conn] assms(7) by fastforce
  moreover have "1 \<le> maxCountOfConnectionsEachPeer l" using assms(3) by (simp add: lcm_wf_def)
  ultimately show ?thesis
    using Allowed_entry [OF assms(2,3) _ assms(6)] card_insert_le_m1
    by (auto simp: ExistPeerConnection_iff [OF assms(2)] card_insert_if)
qed

lemma lcm_wf_list_example:
  "lcm_wf list_set list_set
     (\<lparr>maxCountOfPeers = 1, maxCountOfConnectionsEachPeer = 2, strategy = EliminationStrategyFIFO,
       highLevelPeers = [''h''], highLevelConn = [],
       lowLevelConn = [\<lparr>pc_pid = ''a'', pc_connSet = [7, 8]\<rparr>],
       eliminatePeers = []\<rparr> :: (peer_id list, handle list) lcm)"
  by (simp add: lcm_wf_def)

lemma AddPeerConnection_list_example:
  "AddPeerConnection list_set list_set 0
     (\<lparr>maxCountOfPeers = 1, maxCountOfConnectionsEachPeer = 2, strategy = EliminationStrategyFIFO,
       highLevelPeers = [''h''], highLevelConn = [],
       lowLevelConn = [\<lparr>pc_pid = ''a'', pc_connSet = [7, 8]\<rparr>],
       eliminatePeers = []\<rparr> :: (peer_id list, handle list) lcm) ''h'' 9 =
   Returns
     (\<lparr>maxCountOfPeers = 1, maxCountOfConnectionsEachPeer = 2, strategy = EliminationStrategyFIFO,
       highLevelPeers = [''h''], highLevelConn = [\<lparr>pc_pid = ''h'', pc_connSet = [9]\<rparr>],
       lowLevelConn = [], eliminatePeers = [''a'']\<rparr>, True, [7, 8])"
  by (simp add: AddPeerConnection_def getHighLevelConnections_def eliminateConnections.simps
      elimination_defs)

theorem admitted_connection_is_kept_witness:
  "ExistPeerConnection list_set
     (\<lparr>maxCountOfPeers = 1, maxCountOfConnectionsEachPeer = 2, strategy = EliminationStrategyFIFO,
       highLevelPeers = [''h''], highLevelConn = [\<lparr>pc_pid = ''h'', pc_connSet = [9]\<rparr>],
       lowLevelConn = [], eliminatePeers = [''a'']\<rparr> :: (peer_id list, handle list) lcm) ''h'' 9"
  using admitted_connection_is_kept [OF list_set_laws list_set_laws lcm_wf_list_example _ _ _
      AddPeerConnection_list_example]
  by (simp add: CountOfPeers_def Allowed_def getHighLevelConnections_def getLowLevelConnections_def)

text \<open>
  C26. High-level peers are protected: while a low-level peer is present, adding a connection
  eliminates no high-level peer, whatever the strategy. A peer that disappears is a low-level
  one, exactly its connections are closed, and it is remembered as eliminated. This holds also when
  the connection is a high-level peer's, for which \<open>AddPeerConnection\<close> passes
  \<open>eliminateHigh = true\<close>: the comments of the elimination functions say that high-level
  connections are then eliminated with priority, and the code contradicts them.
\<close>

theorem high_level_peers_are_protected:
  assumes "set_laws P" and "set_laws C" and "lcm_wf P C l" and "lowLevelConn l \<noteq> []"
    and "AddPeerConnection P C rnd l pid conn = Returns (l', added, closed)"
  shows "pc_pid ` set (highLevelConn l) \<subseteq> pc_pid ` set (highLevelConn l') \<and>
         (\<forall>q. q \<in> set (AllPeers l) \<and> q \<notin> set (AllPeers l') \<longrightarrow>
              q \<notin> pc_pid ` set (highLevelConn l) \<and> set closed = lcm_conns C l q \<and>
              (q \<noteq> '''' \<longrightarrow> q \<in> elems P (eliminatePeers l')))"
  using assms(1,3)
proof (cases rule: AddPeerConnection_outcome [where rnd = rnd and pid = pid and conn = conn])
  case (existing s i)
  have "pc_pid ` set (highLevelConn l') = pc_pid ` set (highLevelConn l)" "AllPeers l' = AllPeers l"
    using existing(2) assms(5) by auto
  then show ?thesis by simp
next
  case new
  then show ?thesis using assms(5) by (auto simp: with_entry_def AllPeers_def Let_def)
next
  case (low w i)
  have w: "lcm_wf P C w" using low(1,2) assms(1-3) by (simp add: wf_with_entry)
  have l': "highLevelConn l' = highLevelConn w"
    "lcm_lookup l' q = lcm_lookup (w\<lparr>lowLevelConn := slice_delete (lowLevelConn w) i\<rparr>) q" for q
    using low(6) assms(5) by auto
  have high: "set (highLevelConn l) \<subseteq> set (highLevelConn w)"
    using low(2) by (auto simp: with_entry_def Let_def)
  have "q \<notin> pc_pid ` set (highLevelConn l) \<and> set closed = lcm_conns C l q \<and>
        (q \<noteq> '''' \<longrightarrow> q \<in> elems P (eliminatePeers l'))"
    if "q \<in> set (AllPeers l)" "q \<notin> set (AllPeers l')" for q
  proof -
    have some: "lcm_lookup l q \<noteq> None" and none: "lcm_lookup l' q = None"
      using that by (simp_all add: lookup_None_iff)
    have lw: "lcm_lookup w q \<noteq> None"
      using some low(2) lookup_with_entry [OF assms(1,3) low(1), of conn q] by (auto split: if_splits)
    then have q: "q = pc_pid (lowLevelConn w ! i)" "conn_set_of (highLevelConn w) q = None"
      using none by (auto simp: l' lookup_delete_low [OF w low(4)] split: if_splits)
    have "conn_set_of (lowLevelConn w) q = Some (pc_connSet (lowLevelConn w ! i))"
      using scan_connections_nth [OF _ low(4)] w q(1) by (simp add: lcm_wf_def scan_eq_conn_set)
    then have set: "set closed = lcm_conns C w q"
      using q(2) low(6) assms(5) by (simp add: lcm_conns_def lcm_lookup_def)
    have "q \<noteq> pid"
      using some q(2) low(1,2) level_None_lookup [OF assms(1,3) low(1)]
      by (auto simp: with_entry_def Let_def conn_set_of_None_iff split: if_splits)
    then have "lcm_conns C w q = lcm_conns C l q"
      using low(2) lookup_with_entry [OF assms(1,3) low(1), of conn q] by (simp add: lcm_conns_def)
    with set q high low(6) assms(1,5) show ?thesis
      by (auto simp: conn_set_of_None_iff remember_def set_simps)
  qed
  with high l'(1) show ?thesis by auto
next
  case (high w i)
  with assms(4) show ?thesis by simp
qed

theorem high_level_peers_are_protected_witness:
  "set [7, 8] = lcm_conns list_set
     (\<lparr>maxCountOfPeers = 1, maxCountOfConnectionsEachPeer = 2, strategy = EliminationStrategyFIFO,
       highLevelPeers = [''h''], highLevelConn = [],
       lowLevelConn = [\<lparr>pc_pid = ''a'', pc_connSet = [7, 8]\<rparr>],
       eliminatePeers = []\<rparr> :: (peer_id list, handle list) lcm) ''a''"
  using high_level_peers_are_protected [OF list_set_laws list_set_laws lcm_wf_list_example _
      AddPeerConnection_list_example]
  by (simp add: AllPeers_def)

text \<open>
  \<open>RemovePeerConnection\<close> answers true exactly for a recorded connection or a peer
  remembered as eliminated, forgets the eliminated mark, leaves every other peer as it was,
  and the connection is not recorded any more. When the connection was recorded for a peer of
  one level, the whole entry goes: the peer counts as disconnected even when it had other
  connections.
\<close>

theorem remove_connection_effect:
  assumes "set_laws P" and "set_laws C" and "lcm_wf P C l"
    and "RemovePeerConnection P C l pid conn = (l', removed)"
    and "pid \<notin> pc_pid ` set (highLevelConn l) \<or> pid \<notin> pc_pid ` set (lowLevelConn l)"
  shows "(removed \<longleftrightarrow> ExistPeerConnection C l pid conn \<or> pid \<in> elems P (eliminatePeers l)) \<and>
         pid \<notin> elems P (eliminatePeers l') \<and>
         (\<forall>q. q \<noteq> pid \<longrightarrow> lcm_conns C l' q = lcm_conns C l q) \<and>
         (ExistPeerConnection C l pid conn \<longrightarrow> lcm_conns C l' pid = {} \<and> \<not> Connected C l' pid) \<and>
         (\<not> ExistPeerConnection C l pid conn \<longrightarrow> lcm_conns C l' pid = lcm_conns C l pid)"
proof -
  note spec = RemovePeerConnection_spec [OF assms(1-3), of pid conn]
  have one: "conn_set_of (highLevelConn l) pid = None \<or> conn_set_of (lowLevelConn l) pid = None"
    using assms(5) by (simp add: conn_set_of_None_iff)
  have rec: "recorded C (highLevelConn l) pid conn \<or> recorded C (lowLevelConn l) pid conn \<longleftrightarrow>
      ExistPeerConnection C l pid conn"
    using one by (auto simp: ExistPeerConnection_iff [OF assms(2)] recorded_def lcm_conns_def
        lcm_lookup_def split: option.splits)
  have other: "q \<noteq> pid \<Longrightarrow> lcm_conns C l' q = lcm_conns C l q" for q
    using lookup_RemovePeerConnection_other [OF assms(1-3)] assms(4)
    by (metis fst_conv lcm_conns_def)
  have wf': "lcm_wf P C l'"
    using wf_RemovePeerConnection(1) [OF assms(1-3)] assms(4) by (metis fst_conv)
  have own: "lcm_conns C l' pid = (if ExistPeerConnection C l pid conn then {} else lcm_conns C l pid)"
    using one spec assms(4) unfolding rec [symmetric]
    by (auto simp: lcm_conns_def lcm_lookup_def conn_set_of_forget recorded_def split: option.splits)
  show ?thesis
    using spec rec other own assms(1,4) Connected_iff [OF assms(2) wf'] by (auto simp: set_simps)
qed

theorem remove_connection_effect_witness:
  "\<not> Connected list_set
     (\<lparr>maxCountOfPeers = 1, maxCountOfConnectionsEachPeer = 2, strategy = EliminationStrategyFIFO,
       highLevelPeers = [''h''], highLevelConn = [], lowLevelConn = [],
       eliminatePeers = []\<rparr> :: (peer_id list, handle list) lcm) ''a''"
proof -
  have "RemovePeerConnection list_set list_set
     (\<lparr>maxCountOfPeers = 1, maxCountOfConnectionsEachPeer = 2, strategy = EliminationStrategyFIFO,
       highLevelPeers = [''h''], highLevelConn = [],
       lowLevelConn = [\<lparr>pc_pid = ''a'', pc_connSet = [7, 8]\<rparr>],
       eliminatePeers = []\<rparr> :: (peer_id list, handle list) lcm) ''a'' 7 =
     (\<lparr>maxCountOfPeers = 1, maxCountOfConnectionsEachPeer = 2, strategy = EliminationStrategyFIFO,
       highLevelPeers = [''h''], highLevelConn = [], lowLevelConn = [], eliminatePeers = []\<rparr>, True)"
    by (simp add: RemovePeerConnection_def getHighLevelConnections_def getLowLevelConnections_def
        slice_delete_def)
  from remove_connection_effect [OF list_set_laws list_set_laws lcm_wf_list_example this]
  show ?thesis
    by (simp add: ExistPeerConnection_def getHighLevelConnections_def getLowLevelConnections_def)
qed

text \<open>
  An eliminated peer is cleaned up exactly once: the first \<open>RemovePeerConnection\<close> for it
  answers true although no connection is recorded, the second answers false.
\<close>

theorem eliminated_peer_removed_once:
  assumes "set_laws P" and "set_laws C" and "lcm_wf P C l"
    and "pid \<in> elems P (eliminatePeers l)" and "pid \<notin> set (AllPeers l)"
    and "RemovePeerConnection P C l pid conn1 = (l1, r1)"
    and "RemovePeerConnection P C l1 pid conn2 = (l2, r2)"
  shows "r1 \<and> \<not> r2 \<and> AllPeers l2 = AllPeers l"
proof -
  have none: "recorded C (highLevelConn l) pid c = False" "recorded C (lowLevelConn l) pid c = False"
    for c using assms(5) by (auto simp: recorded_def AllPeers_def dest: conn_set_of_in split: option.splits)
  have l1: "l1 = l\<lparr>eliminatePeers := fst (set_remove P (eliminatePeers l) pid)\<rparr>" and r1: "r1"
    using RemovePeerConnection_spec [OF assms(1-3), of pid conn1] none assms(4,6) by auto
  have wf1: "lcm_wf P C l1" using assms(3) l1 by (simp add: lcm_wf_def)
  have l2: "l2 = l1\<lparr>eliminatePeers := fst (set_remove P (eliminatePeers l1) pid)\<rparr>" and r2: "\<not> r2"
    using RemovePeerConnection_spec [OF assms(1,2) wf1, of pid conn2] none assms(1,7) l1
    by (auto simp: set_simps)
  from r1 r2 l1 l2 show ?thesis by (simp add: AllPeers_def)
qed

theorem eliminated_peer_removed_once_witness:
  "\<exists>l1 l2. RemovePeerConnection list_set list_set
      (\<lparr>maxCountOfPeers = 1, maxCountOfConnectionsEachPeer = 2, strategy = EliminationStrategyFIFO,
       highLevelPeers = [], highLevelConn = [], lowLevelConn = [],
       eliminatePeers = [''a'']\<rparr> :: (peer_id list, handle list) lcm) ''a'' 7 = (l1, True) \<and>
    RemovePeerConnection list_set list_set l1 ''a'' 8 = (l2, False)"
proof -
  let ?l = "\<lparr>maxCountOfPeers = 1, maxCountOfConnectionsEachPeer = 2, strategy = EliminationStrategyFIFO,
       highLevelPeers = [], highLevelConn = [], lowLevelConn = [],
       eliminatePeers = [''a'']\<rparr> :: (peer_id list, handle list) lcm"
  obtain l1 r1 where 1: "RemovePeerConnection list_set list_set ?l ''a'' 7 = (l1, r1)"
    by (cases "RemovePeerConnection list_set list_set ?l ''a'' 7")
  obtain l2 r2 where 2: "RemovePeerConnection list_set list_set l1 ''a'' 8 = (l2, r2)"
    by (cases "RemovePeerConnection list_set list_set l1 ''a'' 8")
  from eliminated_peer_removed_once [OF list_set_laws list_set_laws _ _ _ 1 2] 1 2 show ?thesis
    by (simp add: lcm_wf_def AllPeers_def)
qed

end
