(* ===== verification/Go_Std.thy ===== *)
theory Go_Std
  imports RB_Prelude
begin

text \<open>
  The parts of Go's standard library that the components rely on, modelled as the library
  behaves: \<open>strings.IndexByte\<close> and \<open>strings.LastIndexByte\<close>, \<open>net.SplitHostPort\<close>.
\<close>

section \<open>Positions of a byte\<close>

fun index_byte :: "char \<Rightarrow> string \<Rightarrow> nat option" where
  "index_byte c [] = None"
| "index_byte c (x # xs) = (if x = c then Some 0 else map_option Suc (index_byte c xs))"

definition last_index_byte :: "char \<Rightarrow> string \<Rightarrow> nat option" where
  "last_index_byte c xs = map_option (\<lambda>i. length xs - 1 - i) (index_byte c (rev xs))"

lemma index_byte_None_iff [simp]: "index_byte c xs = None \<longleftrightarrow> c \<notin> set xs"
  by (induction xs) auto

lemma index_byte_append: "c \<notin> set xs \<Longrightarrow> index_byte c (xs @ c # ys) = Some (length xs)"
  by (induction xs) auto



lemma last_index_byte_None_iff [simp]: "last_index_byte c xs = None \<longleftrightarrow> c \<notin> set xs"
  by (simp add: last_index_byte_def)

lemma last_index_byte_append: "c \<notin> set ys \<Longrightarrow> last_index_byte c (xs @ c # ys) = Some (length xs)"
  by (simp add: last_index_byte_def index_byte_append)

section \<open>\<open>net.SplitHostPort\<close>\<close>

datatype addr_error =
  MissingPort | TooManyColons | MissingBracket | UnexpectedOpen | UnexpectedClose

definition SplitHostPort :: "string \<Rightarrow> addr_error + string \<times> string" where
  "SplitHostPort hostport =
     (case last_index_byte CHR '':'' hostport of
        None \<Rightarrow> Inl MissingPort
      | Some i \<Rightarrow>
          (let finish = (\<lambda>host j k.
                 if CHR ''['' \<in> set (drop j hostport) then Inl UnexpectedOpen
                 else if CHR '']'' \<in> set (drop k hostport) then Inl UnexpectedClose
                 else Inr (host, drop (i + 1) hostport))
           in if hostport ! 0 = CHR ''['' then
                (case index_byte CHR '']'' hostport of
                   None \<Rightarrow> Inl MissingBracket
                 | Some e \<Rightarrow>
                     if e + 1 = length hostport then Inl MissingPort
                     else if e + 1 = i then finish (drop 1 (take e hostport)) 1 (e + 1)
                     else if hostport ! (e + 1) = CHR '':'' then Inl TooManyColons
                     else Inl MissingPort)
              else
                (let host = take i hostport
                 in if CHR '':'' \<in> set host then Inl TooManyColons else finish host 0 0)))"

definition plain :: "string \<Rightarrow> bool" where
  "plain s \<longleftrightarrow> CHR '':'' \<notin> set s \<and> CHR ''['' \<notin> set s \<and> CHR '']'' \<notin> set s"

definition no_brackets :: "string \<Rightarrow> bool" where
  "no_brackets s \<longleftrightarrow> CHR ''['' \<notin> set s \<and> CHR '']'' \<notin> set s"

lemma SplitHostPort_plain:
  assumes "plain h" and "plain p"
  shows "SplitHostPort (h @ '':'' @ p) = Inr (h, p)"
proof -
  have nz: "(h @ CHR '':'' # p) ! 0 \<noteq> CHR ''[''"
    using assms(1) by (cases h) (auto simp: plain_def)
  with assms show ?thesis
    by (auto simp: SplitHostPort_def plain_def last_index_byte_append Let_def)
qed

lemma SplitHostPort_bracketed:
  assumes "no_brackets h" and "plain p"
  shows "SplitHostPort (''['' @ h @ '']:'' @ p) = Inr (h, p)"
proof -
  have 1: "last_index_byte CHR '':'' ((CHR ''['' # h @ '']'') @ CHR '':'' # p) = Some (length h + 2)"
    using assms(2) by (subst last_index_byte_append) (simp_all add: plain_def)
  have 2: "index_byte CHR '']'' ((CHR ''['' # h) @ CHR '']'' # CHR '':'' # p) = Some (length h + 1)"
    using assms(1) by (subst index_byte_append) (simp_all add: no_brackets_def)
  from 1 2 assms show ?thesis
    by (simp add: SplitHostPort_def no_brackets_def plain_def Let_def)
qed

lemma SplitHostPort_no_colon: "CHR '':'' \<notin> set s \<Longrightarrow> SplitHostPort s = Inl MissingPort"
  using last_index_byte_None_iff [of "CHR '':''" s]
  by (simp add: SplitHostPort_def del: last_index_byte_None_iff)

lemma SplitHostPort_ends_bracketed:
  assumes "no_brackets h"
  shows "SplitHostPort (''['' @ h @ '']'') = Inl MissingPort"
proof -
  have "index_byte CHR '']'' ((CHR ''['' # h) @ CHR '']'' # []) = Some (length h + 1)"
    using assms by (subst index_byte_append) (simp_all add: no_brackets_def)
  then show ?thesis by (simp add: SplitHostPort_def Let_def split: option.split)
qed

lemma SplitHostPort_colons:
  assumes "no_brackets h" and "CHR '':'' \<in> set h" and "plain p"
  shows "SplitHostPort (h @ '':'' @ p) = Inl TooManyColons"
proof -
  have "(h @ CHR '':'' # p) ! 0 \<noteq> CHR ''[''"
    using assms(1,2) by (cases h) (auto simp: no_brackets_def)
  with assms show ?thesis
    by (auto simp: SplitHostPort_def plain_def last_index_byte_append Let_def)
qed

end
