(* ===== verification/Network_Core.thy ===== *)
theory Network_Core
  imports RB_Prelude
begin

text \<open>
  \<open>core/network\<close>: the direction and the status of a connection, and what the rest of the code
  reads of a connection through the interface \<open>network.Connection\<close>. The multiaddress type of
  go-multiaddr is the type variable \<open>'m\<close>.
\<close>

datatype direction = Unknown | Inbound | Outbound

definition direction_String :: "direction \<Rightarrow> string" where
  "direction_String d = (case d of
      Unknown \<Rightarrow> ''Unknown'' | Inbound \<Rightarrow> ''Inbound'' | Outbound \<Rightarrow> ''Outbound'')"

text \<open>
  \<open>BasicStatus\<close> without the time stamp and the unused extra map; the flag is the atomic
  \<open>uint32\<close> of the code, 0 for open and 1 for closed.
\<close>

record basic_status =
  st_direction :: direction
  st_closed :: nat

definition NewStatus :: "direction \<Rightarrow> basic_status" where
  "NewStatus d = \<lparr>st_direction = d, st_closed = 0\<rparr>"

definition SetClosed :: "basic_status \<Rightarrow> basic_status" where
  "SetClosed s = s\<lparr>st_closed := 1\<rparr>"

definition Closed :: "basic_status \<Rightarrow> bool" where
  "Closed s \<longleftrightarrow> st_closed s = 1"

lemma status_simps [simp]:
  "\<not> Closed (NewStatus d)" "Closed (SetClosed s)"
  "st_direction (NewStatus d) = d" "st_direction (SetClosed s) = st_direction s"
  "SetClosed (SetClosed s) = SetClosed s"
  by (simp_all add: NewStatus_def SetClosed_def Closed_def)

text \<open>The identity of a connection never changes; only its status does.\<close>

record 'm connection =
  conn_status :: basic_status
  conn_localPID :: peer_id
  conn_remotePID :: peer_id
  conn_remoteAddr :: 'm
  conn_remoteNetAddr :: string

end
