(* ===== verification/Blacklist.thy ===== *)
theory Blacklist
  imports Go_Std Network_Core
begin

text \<open>
  \<open>components/blacklist.go\<close>: the sets of blocked network addresses and peers. Both sets hold
  strings, so one set parameter \<open>S\<close> serves both.
\<close>

record 's black_list =
  bl_ipAndPort :: 's
  bl_pidSet :: 's

definition NewBlacklist :: "(string, 's) set_ops \<Rightarrow> 's black_list" where
  "NewBlacklist S = \<lparr>bl_ipAndPort = set_new S, bl_pidSet = set_new S\<rparr>"

definition AddPeerID :: "(string, 's) set_ops \<Rightarrow> 's black_list \<Rightarrow> peer_id \<Rightarrow> 's black_list" where
  "AddPeerID S b pid = b\<lparr>bl_pidSet := fst (set_put S (bl_pidSet b) pid)\<rparr>"

definition RemovePeerID :: "(string, 's) set_ops \<Rightarrow> 's black_list \<Rightarrow> peer_id \<Rightarrow> 's black_list" where
  "RemovePeerID S b pid = b\<lparr>bl_pidSet := fst (set_remove S (bl_pidSet b) pid)\<rparr>"

definition checkIPAndPort :: "string \<Rightarrow> bool \<times> string" where
  "checkIPAndPort ipAndPort =
     (case SplitHostPort ipAndPort of
        Inr _ \<Rightarrow> (True, ipAndPort)
      | Inl _ \<Rightarrow>
          (case SplitHostPort (ipAndPort @ '':80'') of
             Inr _ \<Rightarrow> (True, ipAndPort)
           | Inl _ \<Rightarrow>
               (let newIp = ''['' @ ipAndPort @ '']'' in
                case SplitHostPort (newIp @ '':80'') of
                  Inr _ \<Rightarrow> (True, newIp)
                | Inl _ \<Rightarrow> (False, ''''))))"

definition AddIPAndPort :: "(string, 's) set_ops \<Rightarrow> 's black_list \<Rightarrow> string \<Rightarrow> 's black_list" where
  "AddIPAndPort S b ipAndPort =
     (let (ok, n) = checkIPAndPort ipAndPort
      in if ok then b\<lparr>bl_ipAndPort := fst (set_put S (bl_ipAndPort b) n)\<rparr> else b)"

definition RemoveIPAndPort :: "(string, 's) set_ops \<Rightarrow> 's black_list \<Rightarrow> string \<Rightarrow> 's black_list" where
  "RemoveIPAndPort S b ipAndPort =
     (let (ok, n) = checkIPAndPort ipAndPort
      in if ok then b\<lparr>bl_ipAndPort := fst (set_remove S (bl_ipAndPort b) n)\<rparr> else b)"

text \<open>The argument is \<open>None\<close> for a nil connection.\<close>

definition BlackConn :: "(string, 's) set_ops \<Rightarrow> 's black_list \<Rightarrow> 'm connection option \<Rightarrow> bool" where
  "BlackConn S b conn =
     (case conn of
        None \<Rightarrow> False
      | Some c \<Rightarrow>
          if set_exist S (bl_pidSet b) (conn_remotePID c) then True
          else let netAddrStr = conn_remoteNetAddr c in
            if set_exist S (bl_ipAndPort b) netAddrStr then True
            else let ip6 = (CHR ''['' \<in> set netAddrStr) in
              (case SplitHostPort netAddrStr of
                 Inl _ \<Rightarrow> False
               | Inr (ip, _) \<Rightarrow>
                   let ip' = (if ip6 then ''['' @ ip @ '']'' else ip)
                   in set_exist S (bl_ipAndPort b) ip'))"

definition BlackPID :: "(string, 's) set_ops \<Rightarrow> 's black_list \<Rightarrow> peer_id \<Rightarrow> bool" where
  "BlackPID S b pid = set_exist S (bl_pidSet b) pid"

section \<open>Normal forms of an entry\<close>

text \<open>The four shapes the interface documents, and the form in which each is stored.\<close>

lemma check_host_port: "plain h \<Longrightarrow> plain p \<Longrightarrow> checkIPAndPort (h @ '':'' @ p) = (True, h @ '':'' @ p)"
  using SplitHostPort_plain [of h p] by (simp add: checkIPAndPort_def)

lemma check_host: "plain h \<Longrightarrow> checkIPAndPort h = (True, h)"
  using SplitHostPort_plain [of h "''80''"] SplitHostPort_no_colon [of h]
  by (simp add: checkIPAndPort_def plain_def)

lemma check_v6_port:
  "no_brackets h \<Longrightarrow> plain p \<Longrightarrow>
     checkIPAndPort (''['' @ h @ '']:'' @ p) = (True, ''['' @ h @ '']:'' @ p)"
  using SplitHostPort_bracketed [of h p] by (simp add: checkIPAndPort_def)

lemma check_v6:
  assumes "no_brackets h" and "CHR '':'' \<in> set h" and "\<forall>e. SplitHostPort h \<noteq> Inr e"
  shows "checkIPAndPort h = (True, ''['' @ h @ '']'')"
proof -
  have "SplitHostPort (h @ '':80'') = Inl TooManyColons"
    using SplitHostPort_colons [OF assms(1,2), of "''80''"] by (simp add: plain_def)
  moreover have "SplitHostPort (''['' @ h @ '']'' @ '':80'') = Inr (h, ''80'')"
    using SplitHostPort_bracketed [OF assms(1), of "''80''"] by (simp add: plain_def)
  moreover obtain e where "SplitHostPort h = Inl e" using assms(3) by (cases "SplitHostPort h") auto
  ultimately show ?thesis by (simp add: checkIPAndPort_def Let_def)
qed

lemma check_v6_bracketed:
  assumes "no_brackets h"
  shows "checkIPAndPort (''['' @ h @ '']'') = (True, ''['' @ h @ '']'')"
  using SplitHostPort_ends_bracketed [OF assms] SplitHostPort_bracketed [OF assms, of "''80''"]
  by (simp add: checkIPAndPort_def plain_def)

lemma BlackConn_iff:
  assumes "set_laws S"
  shows "BlackConn S b (Some c) \<longleftrightarrow>
     conn_remotePID c \<in> elems S (bl_pidSet b) \<or>
     conn_remoteNetAddr c \<in> elems S (bl_ipAndPort b) \<or>
     (\<exists>ip p. SplitHostPort (conn_remoteNetAddr c) = Inr (ip, p) \<and>
        (if CHR ''['' \<in> set (conn_remoteNetAddr c) then ''['' @ ip @ '']'' else ip)
          \<in> elems S (bl_ipAndPort b))"
  using assms by (auto simp: BlackConn_def Let_def set_simps split: sum.splits)

section \<open>Properties\<close>

text \<open>
  What an entry is meant to block: an address with its port, every port of a host, and the
  IPv6 forms with and without brackets.
\<close>

inductive covers :: "string \<Rightarrow> string \<Rightarrow> bool" where
  host_port: "plain h \<Longrightarrow> plain p \<Longrightarrow> covers (h @ '':'' @ p) (h @ '':'' @ p)"
| host: "plain h \<Longrightarrow> plain p \<Longrightarrow> covers h (h @ '':'' @ p)"
| v6_port: "no_brackets h \<Longrightarrow> plain p \<Longrightarrow> covers (''['' @ h @ '']:'' @ p) (''['' @ h @ '']:'' @ p)"
| v6_bracketed: "no_brackets h \<Longrightarrow> plain p \<Longrightarrow> covers (''['' @ h @ '']'') (''['' @ h @ '']:'' @ p)"
| v6: "no_brackets (h @ '':'' @ g) \<Longrightarrow> CHR '':'' \<in> set h \<Longrightarrow> plain g \<Longrightarrow> plain p \<Longrightarrow>
       covers (h @ '':'' @ g) (''['' @ (h @ '':'' @ g) @ '']:'' @ p)"



text \<open>
  Every documented form of an entry blocks what it is meant to block: after
  \<open>AddIPAndPort\<close>, a connection whose remote address the entry covers is refused by
  \<open>BlackConn\<close>, whatever else the lists hold.
\<close>

theorem blacklisted_address_is_blocked:
  assumes "set_laws S" and "covers entry (conn_remoteNetAddr c)"
  shows "BlackConn S (AddIPAndPort S b entry) (Some c)"
  using assms(2)
proof (cases rule: covers.cases)
  case (host_port h p)
  with check_host_port [of h p] show ?thesis
    by (simp add: BlackConn_iff [OF assms(1)] AddIPAndPort_def set_simps assms(1))
next
  case (host p)
  then have "CHR ''['' \<notin> set (entry @ '':'' @ p)" by (auto simp: plain_def)
  with host check_host [of entry] SplitHostPort_plain [of entry p] show ?thesis
    by (simp add: BlackConn_iff [OF assms(1)] AddIPAndPort_def set_simps assms(1))
next
  case (v6_port h p)
  with check_v6_port [of h p] show ?thesis
    by (simp add: BlackConn_iff [OF assms(1)] AddIPAndPort_def set_simps assms(1))
next
  case (v6_bracketed h p)
  with check_v6_bracketed [of h] SplitHostPort_bracketed [of h p] show ?thesis
    by (simp add: BlackConn_iff [OF assms(1)] AddIPAndPort_def set_simps assms(1))
next
  case (v6 h g p)
  have "no_brackets h" using v6(3) by (simp add: no_brackets_def)
  from SplitHostPort_colons [OF this v6(4,5)]
  have "checkIPAndPort (h @ '':'' @ g) = (True, ''['' @ (h @ '':'' @ g) @ '']'')"
    using v6(3) by (intro check_v6) simp_all
  with v6 SplitHostPort_bracketed [of "h @ '':'' @ g" p] show ?thesis
    by (simp add: BlackConn_iff [OF assms(1)] AddIPAndPort_def set_simps assms(1))
qed

theorem blacklisted_address_is_blocked_witness:
  "BlackConn list_set (AddIPAndPort list_set (NewBlacklist list_set) ''::1'')
     (Some \<lparr>conn_status = NewStatus Inbound, conn_localPID = ''me'', conn_remotePID = ''you'',
            conn_remoteAddr = (), conn_remoteNetAddr = ''[::1]:9000''\<rparr>)"
proof -
  have "covers ''::1'' ''[::1]:9000''"
    using covers.v6 [of "'':''" "''1''" "''9000''"] by (simp add: no_brackets_def plain_def)
  then show ?thesis by (intro blacklisted_address_is_blocked list_set_laws) simp
qed

text \<open>
  Adding an entry never unblocks a connection, and removing it again restores the verdict
  on every connection when the entry was not in the list before.
\<close>

theorem blacklist_entry_add_remove:
  assumes "set_laws S"
  shows "(BlackConn S b conn \<longrightarrow> BlackConn S (AddIPAndPort S b entry) conn) \<and>
         (snd (checkIPAndPort entry) \<notin> elems S (bl_ipAndPort b) \<longrightarrow>
            BlackConn S (RemoveIPAndPort S (AddIPAndPort S b entry) entry) conn = BlackConn S b conn)"
proof (cases conn)
  case None
  then show ?thesis by (simp add: BlackConn_def)
next
  case (Some c)
  then show ?thesis using assms
    by (auto simp: BlackConn_iff AddIPAndPort_def RemoveIPAndPort_def set_simps Let_def
        split: prod.splits if_splits)
qed

theorem blacklist_entry_add_remove_witness:
  "BlackConn list_set (RemoveIPAndPort list_set
       (AddIPAndPort list_set (NewBlacklist list_set) ''10.0.0.1'') ''10.0.0.1'')
     (Some \<lparr>conn_status = NewStatus Inbound, conn_localPID = ''me'', conn_remotePID = ''you'',
            conn_remoteAddr = (), conn_remoteNetAddr = ''10.0.0.1:80''\<rparr>) =
   BlackConn list_set (NewBlacklist list_set)
     (Some \<lparr>conn_status = NewStatus Inbound, conn_localPID = ''me'', conn_remotePID = ''you'',
            conn_remoteAddr = (), conn_remoteNetAddr = ''10.0.0.1:80''\<rparr>)"
  by (rule blacklist_entry_add_remove [OF list_set_laws, THEN conjunct2, THEN mp])
     (simp add: NewBlacklist_def)

text \<open>
  A blacklisted peer is refused under every address until it is removed, and removing it
  leaves the address list in force.
\<close>

theorem blacklisted_peer_is_blocked:
  assumes "set_laws S"
  shows "BlackPID S (AddPeerID S b pid) pid \<and>
         (conn_remotePID c = pid \<longrightarrow> BlackConn S (AddPeerID S b pid) (Some c)) \<and>
         \<not> BlackPID S (RemovePeerID S b pid) pid \<and>
         (BlackConn S (RemovePeerID S b pid) (Some c) \<longleftrightarrow>
            (conn_remotePID c \<noteq> pid \<and> BlackConn S b (Some c)) \<or>
            (conn_remotePID c = pid \<and> BlackConn S (b\<lparr>bl_pidSet := set_new S\<rparr>) (Some c)))"
  using assms
  by (auto simp: BlackConn_iff BlackPID_def AddPeerID_def RemovePeerID_def set_simps)

theorem blacklisted_peer_is_blocked_witness:
  "BlackConn list_set (AddPeerID list_set (NewBlacklist list_set) ''you'')
     (Some \<lparr>conn_status = NewStatus Inbound, conn_localPID = ''me'', conn_remotePID = ''you'',
            conn_remoteAddr = (), conn_remoteNetAddr = ''10.0.0.1:80''\<rparr>)"
  by (rule blacklisted_peer_is_blocked [OF list_set_laws, THEN conjunct2, THEN conjunct1, THEN mp])
     simp

end
