(* ===== verification/Peer_Store.thy ===== *)
theory Peer_Store
  imports RB_Prelude
begin

text \<open>
  \<open>peerstore\<close>: the protocol book and the address book of the \<open>BasicPeerStore\<close>, and the
  interface \<open>store.ProtocolBook\<close> (\<open>core/store/store.go\<close>) as a record of operations with a
  locale for its contract. Every operation runs under the book's lock, or on one entry of a
  \<open>sync.Map\<close>, and is one step here. The order in which Go visits a map is unspecified: an
  operation that ranges over one takes the visiting order as an argument.
\<close>

section \<open>The interface of a protocol book\<close>

type_synonym go_error = string

record 'b protocol_book_ops =
  op_AddProtocol :: "'b \<Rightarrow> peer_id \<Rightarrow> protocol_id list \<Rightarrow> 'b \<times> go_error option"
  op_SetProtocols :: "'b \<Rightarrow> peer_id \<Rightarrow> protocol_id list \<Rightarrow> 'b \<times> go_error option"
  op_DeleteProtocol :: "'b \<Rightarrow> peer_id \<Rightarrow> protocol_id list \<Rightarrow> 'b \<times> go_error option"
  op_ClearProtocol :: "'b \<Rightarrow> peer_id \<Rightarrow> 'b \<times> go_error option"
  op_GetProtocols :: "'b \<Rightarrow> peer_id \<Rightarrow> protocol_id list"
  op_ContainsProtocol :: "'b \<Rightarrow> peer_id \<Rightarrow> protocol_id \<Rightarrow> bool"

text \<open>
  The contract: \<open>protos\<close> is the set of protocols recorded for a peer, each operation changes
  it as documented and succeeds, and the queries read it.
\<close>

locale protocol_book =
  fixes ops :: "'b protocol_book_ops"
    and invar :: "'b \<Rightarrow> bool"
    and protos :: "'b \<Rightarrow> peer_id \<Rightarrow> protocol_id set"
  assumes add_law: "invar b \<Longrightarrow>
      snd (op_AddProtocol ops b pid ids) = None \<and> invar (fst (op_AddProtocol ops b pid ids)) \<and>
      protos (fst (op_AddProtocol ops b pid ids)) = (protos b)(pid := protos b pid \<union> set ids)"
    and set_law: "invar b \<Longrightarrow>
      snd (op_SetProtocols ops b pid ids) = None \<and> invar (fst (op_SetProtocols ops b pid ids)) \<and>
      protos (fst (op_SetProtocols ops b pid ids)) = (protos b)(pid := set ids)"
    and delete_law: "invar b \<Longrightarrow>
      snd (op_DeleteProtocol ops b pid ids) = None \<and> invar (fst (op_DeleteProtocol ops b pid ids)) \<and>
      protos (fst (op_DeleteProtocol ops b pid ids)) = (protos b)(pid := protos b pid - set ids)"
    and clear_law: "invar b \<Longrightarrow>
      snd (op_ClearProtocol ops b pid) = None \<and> invar (fst (op_ClearProtocol ops b pid)) \<and>
      protos (fst (op_ClearProtocol ops b pid)) = (protos b)(pid := {})"
    and get_law: "invar b \<Longrightarrow> set (op_GetProtocols ops b pid) = protos b pid"
    and get_distinct: "invar b \<Longrightarrow> distinct (op_GetProtocols ops b pid)"
    and contains_law: "invar b \<Longrightarrow> op_ContainsProtocol ops b pid x \<longleftrightarrow> x \<in> protos b pid"
begin

lemmas book_laws = add_law set_law delete_law clear_law get_law get_distinct contains_law

lemma get_after_set:
  "invar b \<Longrightarrow> set (op_GetProtocols ops (fst (op_SetProtocols ops b pid ids)) pid) = set ids"
  by (simp add: book_laws)

lemma contains_after_add:
  "invar b \<Longrightarrow> op_ContainsProtocol ops (fst (op_AddProtocol ops b pid [x])) q y \<longleftrightarrow>
     (q = pid \<and> y = x) \<or> op_ContainsProtocol ops b q y"
  by (auto simp: book_laws)

lemma add_delete_fresh:
  "invar b \<Longrightarrow> x \<notin> protos b pid \<Longrightarrow>
     protos (fst (op_DeleteProtocol ops (fst (op_AddProtocol ops b pid [x])) pid [x])) = protos b"
  by (simp add: book_laws fun_eq_iff)

end

section \<open>The protocol book of the code\<close>

record 's basic_protocol_book =
  pb_book :: "peer_id \<rightharpoonup> 's"
  pb_localPID :: peer_id

definition NewProtocolBook :: "peer_id \<Rightarrow> 's basic_protocol_book" where
  "NewProtocolBook localPID = \<lparr>pb_book = Map.empty, pb_localPID = localPID\<rparr>"

definition initialOrGetProtocolSet ::
  "(protocol_id, 's) set_ops \<Rightarrow> 's basic_protocol_book \<Rightarrow> peer_id \<Rightarrow> 's basic_protocol_book \<times> 's" where
  "initialOrGetProtocolSet Q p peerID =
     (case pb_book p peerID of
        Some s \<Rightarrow> (p, s)
      | None \<Rightarrow> (p\<lparr>pb_book := (pb_book p)(peerID \<mapsto> set_new Q)\<rparr>, set_new Q))"

definition AddProtocol ::
  "(protocol_id, 's) set_ops \<Rightarrow> 's basic_protocol_book \<Rightarrow> peer_id \<Rightarrow> protocol_id list
   \<Rightarrow> 's basic_protocol_book \<times> go_error option" where
  "AddProtocol Q p peerID protocols =
     (let (p', s) = initialOrGetProtocolSet Q p peerID
      in (p'\<lparr>pb_book := (pb_book p')(peerID \<mapsto> put_all Q s protocols)\<rparr>, None))"

definition SetProtocols ::
  "(protocol_id, 's) set_ops \<Rightarrow> 's basic_protocol_book \<Rightarrow> peer_id \<Rightarrow> protocol_id list
   \<Rightarrow> 's basic_protocol_book \<times> go_error option" where
  "SetProtocols Q p peerID protocols =
     (p\<lparr>pb_book := (pb_book p)(peerID \<mapsto> put_all Q (set_new Q) protocols)\<rparr>, None)"

definition DeleteProtocol ::
  "(protocol_id, 's) set_ops \<Rightarrow> 's basic_protocol_book \<Rightarrow> peer_id \<Rightarrow> protocol_id list
   \<Rightarrow> 's basic_protocol_book \<times> go_error option" where
  "DeleteProtocol Q p peerID protocols =
     (case pb_book p peerID of
        None \<Rightarrow> (p, None)
      | Some s \<Rightarrow> (p\<lparr>pb_book := (pb_book p)(peerID \<mapsto> remove_all Q s protocols)\<rparr>, None))"

definition ClearProtocol ::
  "'s basic_protocol_book \<Rightarrow> peer_id \<Rightarrow> 's basic_protocol_book \<times> go_error option" where
  "ClearProtocol p peerID = (p\<lparr>pb_book := (pb_book p)(peerID := None)\<rparr>, None)"

definition GetProtocols ::
  "(protocol_id, 's) set_ops \<Rightarrow> 's basic_protocol_book \<Rightarrow> peer_id \<Rightarrow> protocol_id list" where
  "GetProtocols Q p peerID =
     (case pb_book p peerID of None \<Rightarrow> [] | Some s \<Rightarrow> set_range Q s)"

definition ContainsProtocol ::
  "(protocol_id, 's) set_ops \<Rightarrow> 's basic_protocol_book \<Rightarrow> peer_id \<Rightarrow> protocol_id \<Rightarrow> bool" where
  "ContainsProtocol Q p peerID x =
     (case pb_book p peerID of None \<Rightarrow> False | Some s \<Rightarrow> set_exist Q s x)"

definition ProtocolsContained ::
  "(protocol_id, 's) set_ops \<Rightarrow> 's basic_protocol_book \<Rightarrow> peer_id \<Rightarrow> protocol_id list
   \<Rightarrow> protocol_id list" where
  "ProtocolsContained Q p peerID protocols =
     (case pb_book p peerID of
        None \<Rightarrow> []
      | Some s \<Rightarrow> foldl (\<lambda>contained x. if set_exist Q s x then contained @ [x] else contained) [] protocols)"

fun exists_all :: "(protocol_id, 's) set_ops \<Rightarrow> 's \<Rightarrow> protocol_id list \<Rightarrow> bool" where
  "exists_all Q s [] = True"
| "exists_all Q s (x # xs) = (if \<not> set_exist Q s x then False else exists_all Q s xs)"

text \<open>\<open>order\<close> lists the keys of the book in the order the range visits them.\<close>

definition PeersSupportingAllProtocols ::
  "(protocol_id, 's) set_ops \<Rightarrow> peer_id list \<Rightarrow> 's basic_protocol_book \<Rightarrow> protocol_id list
   \<Rightarrow> peer_id list" where
  "PeersSupportingAllProtocols Q order p protocols =
     foldl (\<lambda>peers pid.
        (case pb_book p pid of
           None \<Rightarrow> peers
         | Some s \<Rightarrow>
             if pid = pb_localPID p then peers
             else if exists_all Q s protocols then peers @ [pid] else peers)) [] order"

definition basic_book_ops :: "(protocol_id, 's) set_ops \<Rightarrow> 's basic_protocol_book protocol_book_ops" where
  "basic_book_ops Q =
     \<lparr>op_AddProtocol = AddProtocol Q, op_SetProtocols = SetProtocols Q,
      op_DeleteProtocol = DeleteProtocol Q, op_ClearProtocol = ClearProtocol,
      op_GetProtocols = GetProtocols Q, op_ContainsProtocol = ContainsProtocol Q\<rparr>"

definition book_protos ::
  "(protocol_id, 's) set_ops \<Rightarrow> 's basic_protocol_book \<Rightarrow> peer_id \<Rightarrow> protocol_id set" where
  "book_protos Q p pid = (case pb_book p pid of None \<Rightarrow> {} | Some s \<Rightarrow> elems Q s)"

lemmas protocol_book_defs =
  basic_book_ops_def AddProtocol_def SetProtocols_def DeleteProtocol_def ClearProtocol_def
  GetProtocols_def ContainsProtocol_def initialOrGetProtocolSet_def book_protos_def

interpretation basic_book: protocol_book "basic_book_ops Q" "\<lambda>_. set_laws Q" "book_protos Q" for Q
  by unfold_locales
     (auto simp: protocol_book_defs set_simps Let_def fun_eq_iff split: option.splits)

lemma exists_all_iff: "set_laws Q \<Longrightarrow> exists_all Q s xs \<longleftrightarrow> set xs \<subseteq> elems Q s"
  by (induction xs) (auto simp: set_simps)

lemma foldl_filter:
  "foldl (\<lambda>acc x. if P x then acc @ [x] else acc) ys xs = ys @ filter P xs"
  by (induction xs arbitrary: ys) auto

lemma PeersSupportingAllProtocols_eq:
  "PeersSupportingAllProtocols Q order p protocols =
     filter (\<lambda>pid. pid \<noteq> pb_localPID p \<and>
        (case pb_book p pid of None \<Rightarrow> False | Some s \<Rightarrow> exists_all Q s protocols)) order"
proof -
  have "(\<lambda>peers pid.
        (case pb_book p pid of
           None \<Rightarrow> peers
         | Some s \<Rightarrow>
             if pid = pb_localPID p then peers
             else if exists_all Q s protocols then peers @ [pid] else peers)) =
     (\<lambda>peers pid. if pid \<noteq> pb_localPID p \<and>
        (case pb_book p pid of None \<Rightarrow> False | Some s \<Rightarrow> exists_all Q s protocols)
        then peers @ [pid] else peers)"
    by (auto simp: fun_eq_iff split: option.split)
  then show ?thesis
    by (simp only: PeersSupportingAllProtocols_def foldl_filter append_Nil)
qed

section \<open>The address book\<close>

text \<open>
  A multiaddress is a value of the type \<open>'m\<close>; \<open>str\<close> is its \<open>String()\<close> method, by which the
  code compares addresses. An \<open>addrList\<close> is its slice.
\<close>

type_synonym 'm addr_list = "'m list"

definition newAddrList :: "'m addr_list" where
  "newAddrList = []"

definition addr_Append :: "'m addr_list \<Rightarrow> 'm list \<Rightarrow> 'm addr_list" where
  "addr_Append l addr = foldl (\<lambda>acc m. acc @ [m]) l addr"

definition addr_Save :: "('m \<Rightarrow> string) \<Rightarrow> 'm addr_list \<Rightarrow> 'm list \<Rightarrow> 'm addr_list" where
  "addr_Save str l addr =
     (let tempM = str ` set l
      in foldl (\<lambda>acc m. if str m \<notin> tempM then acc @ [m] else acc) l addr)"

definition addr_Remove :: "('m \<Rightarrow> string) \<Rightarrow> 'm addr_list \<Rightarrow> 'm list \<Rightarrow> 'm addr_list" where
  "addr_Remove str l addr =
     (if l = [] then l
      else let m = str ` set addr
        in foldl (\<lambda>res x. if str x \<notin> m then res @ [x] else res) [] l)"

definition addr_List :: "'m addr_list \<Rightarrow> 'm list" where
  "addr_List l = l"

definition addr_Size :: "'m addr_list \<Rightarrow> nat" where
  "addr_Size l = length l"

type_synonym 'm address_book = "peer_id \<rightharpoonup> 'm addr_list"

definition AddAddress ::
  "('m \<Rightarrow> string) \<Rightarrow> 'm address_book \<Rightarrow> peer_id \<Rightarrow> 'm list \<Rightarrow> 'm address_book \<times> go_error option" where
  "AddAddress str a pid addr =
     (let l = (case a pid of Some l \<Rightarrow> l | None \<Rightarrow> newAddrList)
      in (a(pid \<mapsto> foldl (\<lambda>acc m. addr_Save str acc [m]) l addr), None))"

definition SetAddresses :: "'m address_book \<Rightarrow> peer_id \<Rightarrow> 'm list \<Rightarrow> 'm address_book" where
  "SetAddresses a pid addresses = a(pid \<mapsto> addr_Append newAddrList addresses)"

definition RemoveAddress :: "('m \<Rightarrow> string) \<Rightarrow> 'm address_book \<Rightarrow> peer_id \<Rightarrow> 'm list \<Rightarrow> 'm address_book" where
  "RemoveAddress str a pid addr =
     (case a pid of Some l \<Rightarrow> a(pid \<mapsto> addr_Remove str l addr) | None \<Rightarrow> a)"

definition GetFirstAddress :: "'m address_book \<Rightarrow> peer_id \<Rightarrow> 'm option" where
  "GetFirstAddress a pid =
     (case a pid of
        Some l \<Rightarrow> (let arr = addr_List l in if 0 < length arr then Some (arr ! 0) else None)
      | None \<Rightarrow> None)"

definition GetAddresses :: "'m address_book \<Rightarrow> peer_id \<Rightarrow> 'm list" where
  "GetAddresses a pid = (case a pid of Some l \<Rightarrow> addr_List l | None \<Rightarrow> [])"

record ('s, 'm) peer_store =
  ps_protocols :: "'s basic_protocol_book"
  ps_addresses :: "'m address_book"

definition NewBasicPeerStore :: "peer_id \<Rightarrow> ('s, 'm) peer_store" where
  "NewBasicPeerStore localPID =
     \<lparr>ps_protocols = NewProtocolBook localPID, ps_addresses = Map.empty\<rparr>"

text \<open>The reference for \<open>AddAddress\<close>: keep what is there, append the unseen in order.\<close>

fun append_unseen :: "('m \<Rightarrow> string) \<Rightarrow> 'm list \<Rightarrow> 'm list \<Rightarrow> 'm list" where
  "append_unseen str l [] = l"
| "append_unseen str l (m # ms) =
     append_unseen str (if str m \<in> str ` set l then l else l @ [m]) ms"

lemma foldl_Save_eq: "foldl (\<lambda>acc m. addr_Save str acc [m]) l ms = append_unseen str l ms"
  by (induction ms arbitrary: l) (simp_all add: addr_Save_def Let_def)

lemma addr_Append_eq: "addr_Append l ms = l @ ms"
  by (induction ms arbitrary: l) (simp_all add: addr_Append_def)

lemma addr_Remove_eq: "addr_Remove str l ms = filter (\<lambda>x. str x \<notin> str ` set ms) l"
  by (simp add: addr_Remove_def Let_def foldl_filter)

lemma append_unseen_distinct:
  "distinct (map str l) \<Longrightarrow> distinct (map str (append_unseen str l ms))"
  by (induction ms arbitrary: l) auto

lemma append_unseen_set: "str ` set (append_unseen str l ms) = str ` set l \<union> str ` set ms"
  by (induction ms arbitrary: l) auto

lemma append_unseen_prefix: "\<exists>ys. append_unseen str l ms = l @ ys \<and> set ys \<subseteq> set ms"
proof (induction ms arbitrary: l)
  case (Cons m ms)
  from Cons [of "if str m \<in> str ` set l then l else l @ [m]"] show ?case
    by (auto split: if_splits)
qed simp

text \<open>\<open>AddAddress\<close> never fails; \<open>added_addresses\<close> is the book it leaves.\<close>

definition added_addresses :: "('m \<Rightarrow> string) \<Rightarrow> 'm address_book \<Rightarrow> peer_id \<Rightarrow> 'm list \<Rightarrow> 'm address_book" where
  "added_addresses str a pid ms = fst (AddAddress str a pid ms)"

lemma AddAddress_eq [simp]: "AddAddress str a pid ms = (added_addresses str a pid ms, None)"
  by (simp add: added_addresses_def AddAddress_def Let_def)

lemma GetAddresses_added:
  "GetAddresses (added_addresses str a pid ms) q =
     (if q = pid then append_unseen str (GetAddresses a pid) ms else GetAddresses a q)"
  by (simp add: GetAddresses_def added_addresses_def AddAddress_def foldl_Save_eq addr_List_def newAddrList_def
      del: AddAddress_eq split: option.split)

lemma GetAddresses_RemoveAddress:
  "GetAddresses (RemoveAddress str a pid ms) q =
     (if q = pid then filter (\<lambda>x. str x \<notin> str ` set ms) (GetAddresses a pid) else GetAddresses a q)"
  by (simp add: GetAddresses_def RemoveAddress_def addr_List_def addr_Remove_eq split: option.split)

lemma GetAddresses_SetAddresses:
  "GetAddresses (SetAddresses a pid ms) q = (if q = pid then ms else GetAddresses a q)"
  by (simp add: GetAddresses_def SetAddresses_def addr_Append_eq newAddrList_def addr_List_def)

section \<open>Properties\<close>

lemma basic_book_ops_simps [simp]:
  "op_AddProtocol (basic_book_ops Q) = AddProtocol Q"
  "op_SetProtocols (basic_book_ops Q) = SetProtocols Q"
  "op_DeleteProtocol (basic_book_ops Q) = DeleteProtocol Q"
  "op_ClearProtocol (basic_book_ops Q) = ClearProtocol"
  "op_GetProtocols (basic_book_ops Q) = GetProtocols Q"
  "op_ContainsProtocol (basic_book_ops Q) = ContainsProtocol Q"
  by (simp_all add: basic_book_ops_def)

lemma ProtocolsContained_eq:
  "set_laws Q \<Longrightarrow> ProtocolsContained Q p pid ids = filter (\<lambda>x. x \<in> book_protos Q p pid) ids"
  by (simp add: ProtocolsContained_def book_protos_def foldl_filter set_simps split: option.split)

text \<open>
  C29. The protocol book refines a map from peers to sets of protocols: adding, setting,
  deleting and clearing are union, replacement, difference and removal at that peer and
  nothing else, none of them returns an error, and the four queries answer from the abstract sets: the protocols of a
  peer, whether one is among them, those of a list that are, and the peers with an entry, other than the host
  itself, that support all of a list, in the order in which the map is visited.
\<close>

theorem protocol_book_refines_sets:
  assumes "set_laws Q"
  shows "book_protos Q (fst (AddProtocol Q p pid ids)) =
           (book_protos Q p)(pid := book_protos Q p pid \<union> set ids) \<and>
         book_protos Q (fst (SetProtocols Q p pid ids)) = (book_protos Q p)(pid := set ids) \<and>
         book_protos Q (fst (DeleteProtocol Q p pid ids)) =
           (book_protos Q p)(pid := book_protos Q p pid - set ids) \<and>
         book_protos Q (fst (ClearProtocol p pid)) = (book_protos Q p)(pid := {}) \<and>
         snd (AddProtocol Q p pid ids) = None \<and> snd (SetProtocols Q p pid ids) = None \<and>
         snd (DeleteProtocol Q p pid ids) = None \<and> snd (ClearProtocol p pid) = None \<and>
         set (GetProtocols Q p pid) = book_protos Q p pid \<and> distinct (GetProtocols Q p pid) \<and>
         (ContainsProtocol Q p pid x \<longleftrightarrow> x \<in> book_protos Q p pid) \<and>
         ProtocolsContained Q p pid ids = filter (\<lambda>y. y \<in> book_protos Q p pid) ids \<and>
         PeersSupportingAllProtocols Q order p ids =
           filter (\<lambda>q. q \<in> dom (pb_book p) \<and> q \<noteq> pb_localPID p \<and> set ids \<subseteq> book_protos Q p q) order"
proof -
  have "PeersSupportingAllProtocols Q order p ids =
      filter (\<lambda>q. q \<in> dom (pb_book p) \<and> q \<noteq> pb_localPID p \<and> set ids \<subseteq> book_protos Q p q) order"
    unfolding PeersSupportingAllProtocols_eq
    by (rule filter_cong) (auto simp: exists_all_iff [OF assms] book_protos_def split: option.splits)
  then show ?thesis using basic_book.book_laws [OF assms] ProtocolsContained_eq [OF assms] by simp
qed

theorem protocol_book_refines_sets_witness:
  "book_protos list_set (fst (SetProtocols list_set (NewProtocolBook ''me'') ''you'' [''/chat''])) =
     (book_protos list_set (NewProtocolBook ''me''))(''you'' := {''/chat''})"
  using protocol_book_refines_sets [OF list_set_laws, of "NewProtocolBook ''me''" "''you''" "[''/chat'']"]
  by simp

text \<open>
  \<open>PeersSupportingAllProtocols\<close> returns, without repetition, exactly the peers other than
  the local one that have an entry and support every requested protocol, in whatever order
  the map is visited.
\<close>

theorem peers_supporting_all_protocols_exact:
  assumes "set_laws Q" and "distinct order" and "set order = dom (pb_book p)"
  shows "distinct (PeersSupportingAllProtocols Q order p ids) \<and>
         set (PeersSupportingAllProtocols Q order p ids) =
           {pid. pid \<noteq> pb_localPID p \<and> pid \<in> dom (pb_book p) \<and> set ids \<subseteq> book_protos Q p pid}"
  using assms
  by (auto simp: PeersSupportingAllProtocols_eq exists_all_iff book_protos_def split: option.splits)

theorem peers_supporting_all_protocols_exact_witness:
  "set (PeersSupportingAllProtocols list_set [''you'', ''me'']
       \<lparr>pb_book = [''me'' \<mapsto> [''/chat''], ''you'' \<mapsto> [''/chat'', ''/x'']], pb_localPID = ''me''\<rparr>
       [''/chat'']) = {''you''}"
proof -
  have "set [''you'', ''me''] = dom [''me'' \<mapsto> [''/chat''], ''you'' \<mapsto> [''/chat'', ''/x'']]" by auto
  with peers_supporting_all_protocols_exact [OF list_set_laws, of "[''you'', ''me'']"
      "\<lparr>pb_book = [''me'' \<mapsto> [''/chat''], ''you'' \<mapsto> [''/chat'', ''/x'']], pb_localPID = ''me''\<rparr>"
      "[''/chat'']"]
  show ?thesis by (auto simp: book_protos_def)
qed

text \<open>
  The address book keeps addresses in order of first appearance: \<open>AddAddress\<close> keeps the
  known ones as a prefix, appends only unseen ones and creates no duplicate;
  \<open>RemoveAddress\<close> deletes exactly the given ones; \<open>SetAddresses\<close> replaces the list;
  \<open>GetFirstAddress\<close> is the first of \<open>GetAddresses\<close>; other peers are untouched.
\<close>

theorem address_book_operations:
  "(\<exists>new. GetAddresses (fst (AddAddress str a pid ms)) pid = GetAddresses a pid @ new \<and> set new \<subseteq> set ms) \<and>
   str ` set (GetAddresses (fst (AddAddress str a pid ms)) pid) = str ` (set (GetAddresses a pid) \<union> set ms) \<and>
   (\<not> distinct (map str (GetAddresses a pid)) \<or>
      distinct (map str (GetAddresses (fst (AddAddress str a pid ms)) pid))) \<and>
   GetAddresses (RemoveAddress str a pid ms) pid =
     filter (\<lambda>x. str x \<notin> str ` set ms) (GetAddresses a pid) \<and>
   GetAddresses (SetAddresses a pid ms) pid = ms \<and>
   GetFirstAddress a pid = (case GetAddresses a pid of [] \<Rightarrow> None | m # _ \<Rightarrow> Some m) \<and>
   (q = pid \<or> (GetAddresses (fst (AddAddress str a pid ms)) q = GetAddresses a q \<and>
               GetAddresses (RemoveAddress str a pid ms) q = GetAddresses a q \<and>
               GetAddresses (SetAddresses a pid ms) q = GetAddresses a q))"
proof (intro conjI)
  show "\<exists>new. GetAddresses (fst (AddAddress str a pid ms)) pid = GetAddresses a pid @ new \<and> set new \<subseteq> set ms"
    by (simp add: GetAddresses_added append_unseen_prefix)
  show "str ` set (GetAddresses (fst (AddAddress str a pid ms)) pid) =
      str ` (set (GetAddresses a pid) \<union> set ms)"
    by (simp add: GetAddresses_added append_unseen_set image_Un)
  show "\<not> distinct (map str (GetAddresses a pid)) \<or>
      distinct (map str (GetAddresses (fst (AddAddress str a pid ms)) pid))"
    using append_unseen_distinct [of str "GetAddresses a pid" ms]
    by (auto simp: GetAddresses_added)
  show "GetFirstAddress a pid = (case GetAddresses a pid of [] \<Rightarrow> None | m # _ \<Rightarrow> Some m)"
    by (simp add: GetFirstAddress_def GetAddresses_def addr_List_def Let_def split: option.split list.split)
qed (simp_all add: GetAddresses_added GetAddresses_RemoveAddress GetAddresses_SetAddresses)

theorem address_book_operations_witness:
  "GetAddresses (fst (AddAddress id (SetAddresses Map.empty ''you'' [''/ip4/1'']) ''you''
      [''/ip4/2'', ''/ip4/1'', ''/ip4/2''])) ''you'' = [''/ip4/1'', ''/ip4/2''] \<and>
   distinct (map id (GetAddresses (fst (AddAddress id (SetAddresses Map.empty ''you'' [''/ip4/1'']) ''you''
      [''/ip4/2'', ''/ip4/1'', ''/ip4/2''])) ''you''))"
  using address_book_operations [of id "SetAddresses Map.empty ''you'' [''/ip4/1'']" "''you''"
      "[''/ip4/2'', ''/ip4/1'', ''/ip4/2'']" "''you''"]
  by (simp add: GetAddresses_added GetAddresses_SetAddresses)

end
