(* ===== verification/Protocol_Manager.thy ===== *)
theory Protocol_Manager
  imports Peer_Store
begin

text \<open>
  \<open>components/protocol_manager.go\<close>: the registered message handlers and the protocols of the
  peers, over any protocol book (the locale \<open>protocol_book\<close>). A callback is a function value
  \<open>'f\<close>, \<open>None\<close> when nil; the calls an operation makes are part of its result, in order.
  A registered handler is \<open>'h option\<close> because the code accepts a nil one. \<open>util.MapKeys\<close> and
  \<open>util.SliceExcludeAll\<close> of rainbowcat are parameters; \<open>exclude_law\<close> states what the second
  is documented to return.
\<close>

section \<open>State and operations\<close>

datatype pm_error = ErrProtocolIDRegistered | ErrProtocolIDNotRegistered | BookError go_error

type_synonym 'f call = "'f \<times> protocol_id \<times> peer_id"

record ('b, 'h, 'f) protocol_manager =
  pm_lPID :: peer_id
  pm_handlers :: "protocol_id \<rightharpoonup> 'h option"
  pm_protocolBook :: 'b
  pm_supportedCallback :: "'f option"
  pm_unsupportedCallback :: "'f option"

definition NewProtocolManager :: "'b \<Rightarrow> ('b, 'h, 'f) protocol_manager" where
  "NewProtocolManager b =
     \<lparr>pm_lPID = '''', pm_handlers = Map.empty, pm_protocolBook = b,
      pm_supportedCallback = None, pm_unsupportedCallback = None\<rparr>"

definition pm_AttachHost :: "('b, 'h, 'f) protocol_manager \<Rightarrow> peer_id \<Rightarrow> ('b, 'h, 'f) protocol_manager" where
  "pm_AttachHost p hostID = p\<lparr>pm_lPID := hostID\<rparr>"

definition RegisterMsgPayloadHandler ::
  "'b protocol_book_ops \<Rightarrow> ('b, 'h, 'f) protocol_manager \<Rightarrow> protocol_id \<Rightarrow> 'h option
   \<Rightarrow> ('b, 'h, 'f) protocol_manager \<times> pm_error option" where
  "RegisterMsgPayloadHandler B p protocolID h =
     (case pm_handlers p protocolID of
        Some _ \<Rightarrow> (p, Some ErrProtocolIDRegistered)
      | None \<Rightarrow>
          (let p' = p\<lparr>pm_handlers := (pm_handlers p)(protocolID \<mapsto> h)\<rparr>
           in if pm_lPID p' \<noteq> ''''
              then (let (b, err) = op_AddProtocol B (pm_protocolBook p') (pm_lPID p') [protocolID]
                    in (p'\<lparr>pm_protocolBook := b\<rparr>, map_option BookError err))
              else (p', None)))"

definition UnregisterMsgPayloadHandler ::
  "'b protocol_book_ops \<Rightarrow> ('b, 'h, 'f) protocol_manager \<Rightarrow> protocol_id
   \<Rightarrow> ('b, 'h, 'f) protocol_manager \<times> pm_error option" where
  "UnregisterMsgPayloadHandler B p protocolID =
     (case pm_handlers p protocolID of
        None \<Rightarrow> (p, Some ErrProtocolIDNotRegistered)
      | Some _ \<Rightarrow>
          (let p' = p\<lparr>pm_handlers := (pm_handlers p)(protocolID := None)\<rparr>
           in if pm_lPID p' \<noteq> ''''
              then (let (b, err) = op_DeleteProtocol B (pm_protocolBook p') (pm_lPID p') [protocolID]
                    in (p'\<lparr>pm_protocolBook := b\<rparr>, map_option BookError err))
              else (p', None)))"

definition Registered :: "('b, 'h, 'f) protocol_manager \<Rightarrow> protocol_id \<Rightarrow> bool" where
  "Registered p protocolID \<longleftrightarrow> pm_handlers p protocolID \<noteq> None"

definition RegisteredAll ::
  "((protocol_id \<rightharpoonup> 'h option) \<Rightarrow> protocol_id list) \<Rightarrow> ('b, 'h, 'f) protocol_manager
   \<Rightarrow> protocol_id list" where
  "RegisteredAll mapKeys p = mapKeys (pm_handlers p)"

definition Handler :: "('b, 'h, 'f) protocol_manager \<Rightarrow> protocol_id \<Rightarrow> 'h option" where
  "Handler p protocolID = (case pm_handlers p protocolID of Some h \<Rightarrow> h | None \<Rightarrow> None)"

definition SupportedByPeer ::
  "'b protocol_book_ops \<Rightarrow> ('b, 'h, 'f) protocol_manager \<Rightarrow> peer_id \<Rightarrow> protocol_id \<Rightarrow> bool" where
  "SupportedByPeer B p pid protocolID = op_ContainsProtocol B (pm_protocolBook p) pid protocolID"

definition SupportedProtocolsOfPeer ::
  "'b protocol_book_ops \<Rightarrow> ('b, 'h, 'f) protocol_manager \<Rightarrow> peer_id \<Rightarrow> protocol_id list" where
  "SupportedProtocolsOfPeer B p pid = op_GetProtocols B (pm_protocolBook p) pid"

definition notifyIfChanged ::
  "'b protocol_book_ops \<Rightarrow> (protocol_id list \<Rightarrow> protocol_id list \<Rightarrow> protocol_id list)
   \<Rightarrow> ('b, 'h, 'f) protocol_manager \<Rightarrow> peer_id \<Rightarrow> protocol_id list \<Rightarrow> 'f call list" where
  "notifyIfChanged B sliceExcludeAll p pid protocols =
     (if length protocols = 0 then []
      else
        (case pm_supportedCallback p of
           None \<Rightarrow> []
         | Some f \<Rightarrow> foldl (\<lambda>calls x.
             if \<not> op_ContainsProtocol B (pm_protocolBook p) pid x then calls @ [(f, x, pid)] else calls)
             [] protocols)
        @ (case pm_unsupportedCallback p of
             None \<Rightarrow> []
           | Some f \<Rightarrow>
               (let supported = op_GetProtocols B (pm_protocolBook p) pid;
                    unsupported = sliceExcludeAll supported protocols
                in map (\<lambda>x. (f, x, pid)) unsupported)))"

definition SetSupportedProtocolsOfPeer ::
  "'b protocol_book_ops \<Rightarrow> (protocol_id list \<Rightarrow> protocol_id list \<Rightarrow> protocol_id list)
   \<Rightarrow> ('b, 'h, 'f) protocol_manager \<Rightarrow> peer_id \<Rightarrow> protocol_id list
   \<Rightarrow> ('b, 'h, 'f) protocol_manager \<times> go_error option \<times> 'f call list" where
  "SetSupportedProtocolsOfPeer B sliceExcludeAll p pid protocolIDs =
     (let calls = notifyIfChanged B sliceExcludeAll p pid protocolIDs;
          (b, err) = op_SetProtocols B (pm_protocolBook p) pid protocolIDs
      in (p\<lparr>pm_protocolBook := b\<rparr>, err, calls))"

text \<open>\<open>CleanPeer\<close> calls the callback without asking whether it is nil.\<close>

definition CleanPeer ::
  "'b protocol_book_ops \<Rightarrow> ('b, 'h, 'f) protocol_manager \<Rightarrow> peer_id
   \<Rightarrow> (('b, 'h, 'f) protocol_manager \<times> go_error option \<times> 'f call list) run" where
  "CleanPeer B p pid =
     (let supported = op_GetProtocols B (pm_protocolBook p) pid
      in case pm_unsupportedCallback p of
           None \<Rightarrow>
             if supported = []
             then (let (b, err) = op_ClearProtocol B (pm_protocolBook p) pid
                   in Returns (p\<lparr>pm_protocolBook := b\<rparr>, err, []))
             else Panics NilFunctionCall
         | Some f \<Rightarrow>
             (let calls = map (\<lambda>x. (f, x, pid)) supported;
                  (b, err) = op_ClearProtocol B (pm_protocolBook p) pid
              in Returns (p\<lparr>pm_protocolBook := b\<rparr>, err, calls)))"

definition SetProtocolSupportedNotifyFunc ::
  "('b, 'h, 'f) protocol_manager \<Rightarrow> 'f option \<Rightarrow> ('b, 'h, 'f) protocol_manager \<times> go_error option" where
  "SetProtocolSupportedNotifyFunc p f = (p\<lparr>pm_supportedCallback := f\<rparr>, None)"

definition SetProtocolUnsupportedNotifyFunc ::
  "('b, 'h, 'f) protocol_manager \<Rightarrow> 'f option \<Rightarrow> ('b, 'h, 'f) protocol_manager \<times> go_error option" where
  "SetProtocolUnsupportedNotifyFunc p f = (p\<lparr>pm_unsupportedCallback := f\<rparr>, None)"

definition exclude_law :: "(protocol_id list \<Rightarrow> protocol_id list \<Rightarrow> protocol_id list) \<Rightarrow> bool" where
  "exclude_law ex \<longleftrightarrow> (\<forall>xs ys. ex xs ys = filter (\<lambda>x. x \<notin> set ys) xs)"

section \<open>Behaviour over any protocol book\<close>

lemma foldl_filter_map:
  "foldl (\<lambda>acc x. if P x then acc @ [f x] else acc) ys xs = ys @ map f (filter P xs)"
  by (induction xs arbitrary: ys) auto

text \<open>
  The view an observer builds from the notifications: a call of the supported callback adds
  a protocol, a call of the unsupported one removes it.
\<close>

fun replay :: "'f \<Rightarrow> 'f \<Rightarrow> protocol_id set \<Rightarrow> 'f call list \<Rightarrow> protocol_id set" where
  "replay sf uf s [] = s"
| "replay sf uf s ((f, x, _) # calls) =
     replay sf uf
       (if f = sf then insert x s else if f = uf then s - {x} else s) calls"

lemma replay_append: "replay f g s (xs @ ys) = replay f g (replay f g s xs) ys"
  by (induction f g s xs rule: replay.induct) auto

lemma replay_supported: "replay f g s (map (\<lambda>x. (f, x, pid)) xs) = s \<union> set xs"
  by (induction xs arbitrary: s) auto

lemma replay_unsupported: "f \<noteq> g \<Longrightarrow> replay f g s (map (\<lambda>x. (g, x, pid)) xs) = s - set xs"
  by (induction xs arbitrary: s) auto

text \<open>The local peer's entry of the book is the set of the registered protocols.\<close>

definition pm_consistent ::
  "('b \<Rightarrow> peer_id \<Rightarrow> protocol_id set) \<Rightarrow> ('b, 'h, 'f) protocol_manager \<Rightarrow> bool" where
  "pm_consistent protos p \<longleftrightarrow>
     pm_lPID p \<noteq> '''' \<and> protos (pm_protocolBook p) (pm_lPID p) = dom (pm_handlers p)"

datatype ('h, 'f) pm_op =
    OpRegister protocol_id "'h option"
  | OpUnregister protocol_id
  | OpSetSupported peer_id "protocol_id list"
  | OpClean peer_id
  | OpNotifyFuncs "'f option" "'f option"

text \<open>One call; a panic leaves the state in which it happened and ends the run.\<close>

fun pm_exec ::
  "'b protocol_book_ops \<Rightarrow> (protocol_id list \<Rightarrow> protocol_id list \<Rightarrow> protocol_id list)
   \<Rightarrow> ('h, 'f) pm_op \<Rightarrow> ('b, 'h, 'f) protocol_manager \<Rightarrow> ('b, 'h, 'f) protocol_manager run" where
  "pm_exec B ex (OpRegister x h) p = Returns (fst (RegisterMsgPayloadHandler B p x h))"
| "pm_exec B ex (OpUnregister x) p = Returns (fst (UnregisterMsgPayloadHandler B p x))"
| "pm_exec B ex (OpSetSupported q ids) p = Returns (fst (SetSupportedProtocolsOfPeer B ex p q ids))"
| "pm_exec B ex (OpClean q) p = run_bind (CleanPeer B p q) (\<lambda>(p', _, _). Returns p')"
| "pm_exec B ex (OpNotifyFuncs f g) p =
     Returns (fst (SetProtocolUnsupportedNotifyFunc (fst (SetProtocolSupportedNotifyFunc p f)) g))"

fun pm_run ::
  "'b protocol_book_ops \<Rightarrow> (protocol_id list \<Rightarrow> protocol_id list \<Rightarrow> protocol_id list)
   \<Rightarrow> ('h, 'f) pm_op list \<Rightarrow> ('b, 'h, 'f) protocol_manager \<Rightarrow> ('b, 'h, 'f) protocol_manager run" where
  "pm_run B ex [] p = Returns p"
| "pm_run B ex (x # xs) p = run_bind (pm_exec B ex x p) (pm_run B ex xs)"

fun concerns_remote :: "peer_id \<Rightarrow> ('h, 'f) pm_op \<Rightarrow> bool" where
  "concerns_remote me (OpSetSupported q _) = (q \<noteq> me)"
| "concerns_remote me (OpClean q) = (q \<noteq> me)"
| "concerns_remote me _ = True"

context protocol_book
begin

lemma SetSupported_state:
  assumes "invar (pm_protocolBook p)"
  shows "SetSupportedProtocolsOfPeer ops ex p pid ids =
    (p\<lparr>pm_protocolBook := fst (op_SetProtocols ops (pm_protocolBook p) pid ids)\<rparr>, None,
     notifyIfChanged ops ex p pid ids)"
  using set_law [OF assms, of pid ids]
  by (simp add: SetSupportedProtocolsOfPeer_def Let_def case_prod_unfold)

lemma notify_calls:
  assumes "invar (pm_protocolBook p)" and "exclude_law ex" and "ids \<noteq> []"
    and "pm_supportedCallback p = Some f" and "pm_unsupportedCallback p = Some g"
  shows "notifyIfChanged ops ex p pid ids =
     map (\<lambda>x. (f, x, pid)) (filter (\<lambda>x. x \<notin> protos (pm_protocolBook p) pid) ids) @
     map (\<lambda>x. (g, x, pid))
       (filter (\<lambda>x. x \<notin> set ids) (op_GetProtocols ops (pm_protocolBook p) pid))"
  using assms
  by (simp add: notifyIfChanged_def foldl_filter_map exclude_law_def Let_def contains_law)

lemma replay_notifications:
  assumes "invar (pm_protocolBook p)" and "exclude_law ex" and "ids \<noteq> []" and "f \<noteq> g"
    and "pm_supportedCallback p = Some f" and "pm_unsupportedCallback p = Some g"
  shows "replay f g (protos (pm_protocolBook p) pid) (notifyIfChanged ops ex p pid ids) = set ids"
  using assms get_law [OF assms(1), of pid]
  by (auto simp: notify_calls [OF assms(1-3,5,6)] replay_append replay_supported replay_unsupported)

lemma CleanPeer_Returns:
  assumes "invar (pm_protocolBook p)" and "CleanPeer ops p pid = Returns (p', err, calls)"
  shows "err = None \<and> pm_handlers p' = pm_handlers p \<and> pm_lPID p' = pm_lPID p \<and>
    invar (pm_protocolBook p') \<and>
    protos (pm_protocolBook p') = (protos (pm_protocolBook p))(pid := {})"
  using assms clear_law [OF assms(1), of pid]
  by (auto simp: CleanPeer_def Let_def case_prod_unfold split: option.splits if_splits)

lemma CleanPeer_panics:
  assumes "invar (pm_protocolBook p)"
  shows "CleanPeer ops p pid = Panics x \<longleftrightarrow>
     x = NilFunctionCall \<and> pm_unsupportedCallback p = None \<and> protos (pm_protocolBook p) pid \<noteq> {}"
  using get_law [OF assms, of pid]
  by (auto simp: CleanPeer_def Let_def case_prod_unfold split: option.splits if_splits)

lemma pm_exec_consistent:
  assumes "invar (pm_protocolBook p)" and "pm_consistent protos p"
    and "concerns_remote (pm_lPID p) a" and "pm_exec ops ex a p = Returns p'"
  shows "invar (pm_protocolBook p') \<and> pm_consistent protos p' \<and> pm_lPID p' = pm_lPID p"
proof (cases a)
  case (OpRegister x h)
  then show ?thesis using assms add_law [OF assms(1), of "pm_lPID p" "[x]"]
    by (auto simp: RegisterMsgPayloadHandler_def pm_consistent_def Let_def case_prod_unfold
        split: option.splits)
next
  case (OpUnregister x)
  then show ?thesis using assms delete_law [OF assms(1), of "pm_lPID p" "[x]"]
    by (auto simp: UnregisterMsgPayloadHandler_def pm_consistent_def Let_def case_prod_unfold
        split: option.splits if_splits)
next
  case (OpSetSupported q ids)
  then show ?thesis using assms set_law [OF assms(1), of q ids]
    by (auto simp: SetSupported_state pm_consistent_def)
next
  case (OpClean q)
  with assms(4) obtain err calls where r: "CleanPeer ops p q = Returns (p', err, calls)"
    by (auto simp: run_bind_Returns_iff)
  show ?thesis using CleanPeer_Returns [OF assms(1) r] assms(2,3) OpClean
    by (simp add: pm_consistent_def)
next
  case (OpNotifyFuncs f g)
  then show ?thesis using assms
    by (auto simp: SetProtocolSupportedNotifyFunc_def SetProtocolUnsupportedNotifyFunc_def
        pm_consistent_def)
qed

lemma pm_run_consistent:
  assumes "invar (pm_protocolBook p)" and "pm_consistent protos p"
    and "\<forall>a\<in>set as. concerns_remote (pm_lPID p) a" and "pm_run ops ex as p = Returns p'"
  shows "invar (pm_protocolBook p') \<and> pm_consistent protos p' \<and> pm_lPID p' = pm_lPID p"
  using assms
proof (induction as arbitrary: p)
  case (Cons a as)
  from Cons.prems(4) obtain q where q: "pm_exec ops ex a p = Returns q" "pm_run ops ex as q = Returns p'"
    by (auto simp: run_bind_Returns_iff)
  have "invar (pm_protocolBook q) \<and> pm_consistent protos q \<and> pm_lPID q = pm_lPID p"
    using pm_exec_consistent [OF Cons.prems(1,2) _ q(1)] Cons.prems(3) by simp
  with Cons.IH [of q] Cons.prems(3) q(2) show ?case by simp
qed simp

end

section \<open>Properties\<close>

text \<open>\<open>util.SliceExcludeAll\<close> and a book of one peer for the concrete instances.\<close>

definition slice_exclude_all :: "protocol_id list \<Rightarrow> protocol_id list \<Rightarrow> protocol_id list" where
  "slice_exclude_all xs ys = filter (\<lambda>x. x \<notin> set ys) xs"

lemma slice_exclude_all_law: "exclude_law slice_exclude_all"
  by (simp add: exclude_law_def slice_exclude_all_def)

definition sample_manager ::
  "protocol_id list \<Rightarrow> (protocol_id list basic_protocol_book, nat, bool) protocol_manager" where
  "sample_manager ids =
     \<lparr>pm_lPID = ''me'', pm_handlers = Map.empty,
      pm_protocolBook = \<lparr>pb_book = [''you'' \<mapsto> ids], pb_localPID = ''me''\<rparr>,
      pm_supportedCallback = Some True, pm_unsupportedCallback = Some False\<rparr>"

text \<open>
  C30. Whatever a peer announces becomes the set of protocols it supports: after
  \<open>SetSupportedProtocolsOfPeer\<close> both queries answer exactly with the announced list, no other
  peer's entry changes and no error is returned, whichever callbacks are set. If two different callbacks
  are set, an observer that replays their notifications on its previous view ends with the new set when the
  announcement is not empty; an empty announcement empties the entry without any notification. The
  queries look only into the book: a peer that is not connected is answered for like any other, although
  their comments say that nothing is reported for it.
\<close>

theorem announced_protocols_are_stored_and_notified:
  assumes Q: "set_laws Q" and ex: "exclude_law ex"
    and r: "SetSupportedProtocolsOfPeer (basic_book_ops Q) ex p pid ids = (p', err, calls)"
  shows "err = None \<and>
    set (SupportedProtocolsOfPeer (basic_book_ops Q) p' pid) = set ids \<and>
    (SupportedByPeer (basic_book_ops Q) p' pid x \<longleftrightarrow> x \<in> set ids) \<and>
    (q = pid \<or> SupportedByPeer (basic_book_ops Q) p' q x = SupportedByPeer (basic_book_ops Q) p q x) \<and>
    (\<forall>f g. pm_supportedCallback p = Some f \<and> pm_unsupportedCallback p = Some g \<and> f \<noteq> g \<longrightarrow>
      replay f g (set (SupportedProtocolsOfPeer (basic_book_ops Q) p pid)) calls =
        (if ids = [] then set (SupportedProtocolsOfPeer (basic_book_ops Q) p pid) else set ids))"
proof -
  let ?b = "pm_protocolBook p"
  have p': "p' = p\<lparr>pm_protocolBook := fst (SetProtocols Q ?b pid ids)\<rparr>" "err = None"
    "calls = notifyIfChanged (basic_book_ops Q) ex p pid ids"
    using r by (simp_all add: basic_book.SetSupported_state [OF Q])
  have b: "book_protos Q (fst (SetProtocols Q ?b pid ids)) = (book_protos Q ?b)(pid := set ids)"
    using basic_book.set_law [OF Q, of ?b pid ids] by simp
  have rep: "replay f g (book_protos Q ?b pid) calls = set ids"
    if "ids \<noteq> []" "pm_supportedCallback p = Some f" "pm_unsupportedCallback p = Some g" "f \<noteq> g" for f g
    using basic_book.replay_notifications [OF Q ex _ that(4,2,3)] p'(3) that(1) by simp
  have none: "ids = [] \<Longrightarrow> calls = []"
    using p'(3) by (simp add: notifyIfChanged_def)
  show ?thesis
    using rep none basic_book.get_law [OF Q] basic_book.contains_law [OF Q]
    by (auto simp: p'(1,2) SupportedProtocolsOfPeer_def SupportedByPeer_def b)
qed

theorem announced_protocols_are_stored_and_notified_witness:
  "let (p', err, calls) = SetSupportedProtocolsOfPeer (basic_book_ops list_set) slice_exclude_all
         (sample_manager [''/a'', ''/b'']) ''you'' [''/b'', ''/c'']
   in set (SupportedProtocolsOfPeer (basic_book_ops list_set) p' ''you'') = {''/b'', ''/c''} \<and>
      replay True False {''/a'', ''/b''} calls = {''/b'', ''/c''} \<and>
      calls = [(True, ''/c'', ''you''), (False, ''/a'', ''you'')]"
proof -
  obtain p' err calls where r: "SetSupportedProtocolsOfPeer (basic_book_ops list_set) slice_exclude_all
      (sample_manager [''/a'', ''/b'']) ''you'' [''/b'', ''/c''] = (p', err, calls)"
    by (cases "SetSupportedProtocolsOfPeer (basic_book_ops list_set) slice_exclude_all
      (sample_manager [''/a'', ''/b'']) ''you'' [''/b'', ''/c'']") auto
  have "set (SupportedProtocolsOfPeer (basic_book_ops list_set) p' ''you'') = {''/b'', ''/c''} \<and>
      replay True False {''/a'', ''/b''} calls = {''/b'', ''/c''}"
  proof -
    note f = announced_protocols_are_stored_and_notified [OF list_set_laws slice_exclude_all_law r,
        of "''/a''" "''q''"]
    have "pm_supportedCallback (sample_manager [''/a'', ''/b'']) = Some True \<and>
      pm_unsupportedCallback (sample_manager [''/a'', ''/b'']) = Some False \<and> True \<noteq> False"
      by (simp add: sample_manager_def)
    with f have "replay True False (set (SupportedProtocolsOfPeer (basic_book_ops list_set)
        (sample_manager [''/a'', ''/b'']) ''you'')) calls = {''/b'', ''/c''}" by force
    then show ?thesis using f by (simp add: sample_manager_def SupportedProtocolsOfPeer_def GetProtocols_def)
  qed
  moreover have "calls = [(True, ''/c'', ''you''), (False, ''/a'', ''you'')]"
    using r by (auto simp: sample_manager_def SetSupportedProtocolsOfPeer_def notifyIfChanged_def
        slice_exclude_all_def ContainsProtocol_def GetProtocols_def SetProtocols_def)
  ultimately show ?thesis by (simp add: r)
qed

text \<open>
  C22. Once the host is attached, the protocols recorded in the book for the local peer are
  exactly the registered ones, after any sequence of registrations, unregistrations, changes
  of callback and updates or removals of remote peers; so what is announced to other peers
  and what is handled agree.
\<close>

theorem local_protocols_equal_registered:
  assumes Q: "set_laws Q" and me: "me \<noteq> ''''" and fresh: "book_protos Q b me = {}"
    and remote: "\<forall>a\<in>set as. concerns_remote me a"
    and r: "pm_run (basic_book_ops Q) ex as (pm_AttachHost (NewProtocolManager b) me) = Returns p"
  shows "Registered p x \<longleftrightarrow> SupportedByPeer (basic_book_ops Q) p me x"
proof -
  let ?p0 = "pm_AttachHost (NewProtocolManager b) me :: ('a basic_protocol_book, 'b, 'c) protocol_manager"
  have l: "pm_lPID ?p0 = me" by (simp add: pm_AttachHost_def)
  have "pm_consistent (book_protos Q) ?p0"
    using me fresh by (simp add: pm_consistent_def pm_AttachHost_def NewProtocolManager_def)
  with r remote Q have "pm_consistent (book_protos Q) p \<and> pm_lPID p = me"
    using basic_book.pm_run_consistent [OF _ _ _ r] by (simp add: l)
  then show ?thesis
    using basic_book.contains_law [OF Q, of "pm_protocolBook p" me x]
    by (auto simp: pm_consistent_def Registered_def SupportedByPeer_def)
qed

theorem local_protocols_equal_registered_witness:
  "case pm_run (basic_book_ops list_set) slice_exclude_all
      [OpRegister ''/a'' (Some 1), OpRegister ''/b'' (Some (2 :: nat)), OpUnregister ''/a'',
       OpSetSupported ''you'' [''/c'']]
      (pm_AttachHost (NewProtocolManager (NewProtocolBook ''me'')) ''me''
        :: (protocol_id list basic_protocol_book, nat, bool) protocol_manager)
   of Returns p \<Rightarrow> Registered p ''/b'' \<and> SupportedByPeer (basic_book_ops list_set) p ''me'' ''/b'' | _ \<Rightarrow> False"
proof -
  let ?as = "[OpRegister ''/a'' (Some 1), OpRegister ''/b'' (Some (2 :: nat)), OpUnregister ''/a'',
       OpSetSupported ''you'' [''/c'']] :: (nat, bool) pm_op list"
  obtain p where r: "pm_run (basic_book_ops list_set) slice_exclude_all ?as
      (pm_AttachHost (NewProtocolManager (NewProtocolBook ''me'')) ''me'') = Returns p"
    by simp
  have "Registered p ''/b'' \<longleftrightarrow> SupportedByPeer (basic_book_ops list_set) p ''me'' ''/b''"
    by (rule local_protocols_equal_registered [OF list_set_laws _ _ _ r])
       (simp_all add: book_protos_def NewProtocolBook_def)
  moreover have "Registered p ''/b''"
    using r by (auto simp: Registered_def RegisterMsgPayloadHandler_def UnregisterMsgPayloadHandler_def
        SetSupportedProtocolsOfPeer_def NewProtocolManager_def pm_AttachHost_def Let_def
        case_prod_unfold)
  ultimately show ?thesis unfolding r by simp
qed

text \<open>
  \<open>CleanPeer\<close> panics exactly when no callback for unsupported protocols was set and the
  peer supports something; otherwise it empties the peer's entry and reports each of its
  protocols once.
\<close>

theorem clean_peer_outcomes:
  assumes "set_laws Q"
  shows "(CleanPeer (basic_book_ops Q) p pid = Panics NilFunctionCall \<longleftrightarrow>
      pm_unsupportedCallback p = None \<and> book_protos Q (pm_protocolBook p) pid \<noteq> {}) \<and>
    (case CleanPeer (basic_book_ops Q) p pid of
       Panics x \<Rightarrow> x = NilFunctionCall
     | Returns (p', err, calls) \<Rightarrow>
         err = None \<and>
         book_protos Q (pm_protocolBook p') = (book_protos Q (pm_protocolBook p))(pid := {}) \<and>
         distinct calls \<and>
         set calls = (case pm_unsupportedCallback p of None \<Rightarrow> {}
           | Some f \<Rightarrow> (\<lambda>x. (f, x, pid)) ` book_protos Q (pm_protocolBook p) pid))"
proof -
  note g = basic_book.get_law [OF assms, of "pm_protocolBook p" pid]
  note d = basic_book.get_distinct [OF assms, of "pm_protocolBook p" pid]
  note c = basic_book.clear_law [OF assms, of "pm_protocolBook p" pid]
  show ?thesis
    using basic_book.CleanPeer_panics [OF assms, of p pid NilFunctionCall] g d c
    by (auto simp: CleanPeer_def Let_def case_prod_unfold distinct_map inj_on_def
        split: option.splits if_splits)
qed

theorem clean_peer_outcomes_witness:
  "CleanPeer (basic_book_ops list_set) ((sample_manager [''/a''])\<lparr>pm_unsupportedCallback := None\<rparr>) ''you''
     = Panics NilFunctionCall"
  using clean_peer_outcomes [OF list_set_laws,
      of "(sample_manager [''/a''])\<lparr>pm_unsupportedCallback := None\<rparr>" "''you''"]
  by (simp add: sample_manager_def book_protos_def)

end
