(* ===== verification/Receive_Stream_Manager.thy ===== *)
theory Receive_Stream_Manager
  imports RB_Prelude
begin

text \<open>
  \<open>components/receive_stream_manager.go\<close>: the receive streams of each connection of each
  peer and their number per peer. A connection and a stream are handles; \<open>rpid\<close> gives the
  \<open>RemotePeerID()\<close> of a connection. Every method holds the mutex, so each is one step. The
  contract of the interface \<open>manager.ReceiveStreamManager\<close> is the locale
  \<open>receive_stream_manager\<close>, which the manager of the code instantiates.
\<close>

section \<open>The contract\<close>

datatype rsm_error = ErrMaxReceiveStreamsCountReached

text \<open>
  \<open>view\<close> is the set of streams recorded for a connection; \<open>limit\<close> is \<open>None\<close> when there is
  no limit.
\<close>

locale receive_stream_manager =
  fixes rpid :: "handle \<Rightarrow> peer_id"
    and invar :: "'r \<Rightarrow> bool"
    and view :: "'r \<Rightarrow> handle \<Rightarrow> handle set"
    and limit :: "'r \<Rightarrow> int option"
    and add :: "'r \<Rightarrow> handle \<Rightarrow> handle \<Rightarrow> 'r \<times> rsm_error option"
    and remove :: "'r \<Rightarrow> handle \<Rightarrow> handle \<Rightarrow> 'r"
    and close_all :: "'r \<Rightarrow> peer_id \<Rightarrow> handle \<Rightarrow> 'r \<times> handle list"
    and count :: "'r \<Rightarrow> peer_id \<Rightarrow> int"
  assumes add_law: "invar r \<Longrightarrow> add r c s = (r', e) \<Longrightarrow>
      invar r' \<and> limit r' = limit r \<and>
      (case limit r of
         Some m \<Rightarrow> if m \<le> count r (rpid c) then e = Some ErrMaxReceiveStreamsCountReached \<and> r' = r
                   else e = None \<and> view r' = (view r)(c := insert s (view r c))
       | None \<Rightarrow> e = None \<and> view r' = (view r)(c := insert s (view r c)))"
    and remove_law: "invar r \<Longrightarrow>
      invar (remove r c s) \<and> limit (remove r c s) = limit r \<and>
      view (remove r c s) = (view r)(c := view r c - {s})"
    and close_law: "invar r \<Longrightarrow> rpid c = pid \<Longrightarrow> close_all r pid c = (r', closed) \<Longrightarrow>
      invar r' \<and> limit r' = limit r \<and> view r' = (view r)(c := {}) \<and>
      distinct closed \<and> set closed = view r c"
    and count_law: "invar r \<Longrightarrow> finite {c. view r c \<noteq> {}} \<and> (\<forall>c. finite (view r c)) \<and>
      count r pid = int (\<Sum>c\<in>{c. view r c \<noteq> {} \<and> rpid c = pid}. card (view r c))"
begin

text \<open>The number of streams of a peer only depends on the view.\<close>

lemma count_view_cong: "invar r \<Longrightarrow> invar r' \<Longrightarrow> view r = view r' \<Longrightarrow> count r pid = count r' pid"
  by (simp add: count_law)

lemma add_then_remove_fresh:
  assumes "invar r" and "add r c s = (r', None)" and "s \<notin> view r c"
  shows "view (remove r' c s) = view r"
  using add_law [OF assms(1,2)] assms(3) remove_law [of r' c s]
  by (auto split: option.splits if_splits)

lemma no_stream_after_close:
  "invar r \<Longrightarrow> close_all r (rpid c) c = (r', closed) \<Longrightarrow> close_all r' (rpid c) c = (r'', again) \<Longrightarrow>
     again = []"
  using close_law [of r c "rpid c" r' closed] close_law [of r' c "rpid c" r'' again] by simp

lemma zero_count_iff: "invar r \<Longrightarrow> count r pid = 0 \<longleftrightarrow> (\<forall>c. rpid c = pid \<longrightarrow> view r c = {})"
proof -
  assume "invar r"
  then have l: "finite {c. view r c \<noteq> {}}" "\<forall>c. finite (view r c)"
    "count r pid = int (\<Sum>c\<in>{c. view r c \<noteq> {} \<and> rpid c = pid}. card (view r c))"
    using count_law by auto
  have "finite {c. view r c \<noteq> {} \<and> rpid c = pid}"
    using l(1) by (rule rev_finite_subset) auto
  then show ?thesis
    unfolding l(3) of_nat_eq_0_iff using l(2) by (auto simp: card_eq_0_iff)
qed

end

section \<open>The manager of the code\<close>

record 'n rsm =
  rsm_maxCount :: int
  rsm_countMap :: "peer_id \<rightharpoonup> int"
  rsm_streamMap :: "peer_id \<rightharpoonup> (handle \<rightharpoonup> 'n)"

definition NewReceiveStreamManager :: "'n rsm" where
  "NewReceiveStreamManager =
     \<lparr>rsm_maxCount = -1, rsm_countMap = Map.empty, rsm_streamMap = Map.empty\<rparr>"

definition rsm_Reset :: "'n rsm \<Rightarrow> 'n rsm" where
  "rsm_Reset r = r\<lparr>rsm_countMap := Map.empty, rsm_streamMap := Map.empty\<rparr>"

definition SetPeerReceiveStreamMaxCount :: "'n rsm \<Rightarrow> int \<Rightarrow> 'n rsm" where
  "SetPeerReceiveStreamMaxCount r m = r\<lparr>rsm_maxCount := m\<rparr>"

text \<open>\<open>count, _ := m[pid]\<close>: the zero value where there is no entry.\<close>

definition count_of :: "'n rsm \<Rightarrow> peer_id \<Rightarrow> int" where
  "count_of r pid = (case rsm_countMap r pid of Some n \<Rightarrow> n | None \<Rightarrow> 0)"

definition AddPeerReceiveStream ::
  "(handle, 'n) set_ops \<Rightarrow> (handle \<Rightarrow> peer_id) \<Rightarrow> 'n rsm \<Rightarrow> handle \<Rightarrow> handle
   \<Rightarrow> 'n rsm \<times> rsm_error option" where
  "AddPeerReceiveStream S rpid r conn stream =
     (let pid = rpid conn; count = count_of r pid
      in if 0 < rsm_maxCount r \<and> rsm_maxCount r \<le> count
         then (r, Some ErrMaxReceiveStreamsCountReached)
         else
           (let connM = (case rsm_streamMap r pid of Some m \<Rightarrow> m | None \<Rightarrow> Map.empty);
                streamSet = (case connM conn of Some s \<Rightarrow> s | None \<Rightarrow> set_new S);
                (streamSet', ok) = set_put S streamSet stream;
                r' = r\<lparr>rsm_streamMap := (rsm_streamMap r)(pid \<mapsto> connM(conn \<mapsto> streamSet'))\<rparr>
            in (if ok then r'\<lparr>rsm_countMap := (rsm_countMap r')(pid \<mapsto> count + 1)\<rparr> else r', None)))"

text \<open>
  The inner map is a reference shared with the outer one; deleting a connection from it after
  the peer's entry was dropped has no further effect.
\<close>

definition RemovePeerReceiveStream ::
  "(handle, 'n) set_ops \<Rightarrow> (handle \<Rightarrow> peer_id) \<Rightarrow> 'n rsm \<Rightarrow> handle \<Rightarrow> handle \<Rightarrow> 'n rsm" where
  "RemovePeerReceiveStream S rpid r conn stream =
     (let pid = rpid conn; count = count_of r pid
      in if count = 0 then r
         else case rsm_streamMap r pid of
             None \<Rightarrow> r
           | Some connM \<Rightarrow> (case connM conn of
                 None \<Rightarrow> r
               | Some streamSet \<Rightarrow>
                   (let (streamSet', ok) = set_remove S streamSet stream;
                        connM' = (if ok \<and> set_size S streamSet' = 0 then connM(conn := None)
                                  else connM(conn \<mapsto> streamSet'))
                    in if ok
                       then (if count - 1 = 0
                             then r\<lparr>rsm_countMap := (rsm_countMap r)(pid := None),
                                    rsm_streamMap := (rsm_streamMap r)(pid := None)\<rparr>
                             else r\<lparr>rsm_countMap := (rsm_countMap r)(pid \<mapsto> count - 1),
                                    rsm_streamMap := (rsm_streamMap r)(pid \<mapsto> connM')\<rparr>)
                       else r\<lparr>rsm_streamMap := (rsm_streamMap r)(pid \<mapsto> connM')\<rparr>)))"

definition GetConnReceiveStreamCount ::
  "(handle, 'n) set_ops \<Rightarrow> (handle \<Rightarrow> peer_id) \<Rightarrow> 'n rsm \<Rightarrow> handle \<Rightarrow> int" where
  "GetConnReceiveStreamCount S rpid r conn =
     (case rsm_streamMap r (rpid conn) of
        None \<Rightarrow> 0
      | Some connM \<Rightarrow> (case connM conn of None \<Rightarrow> 0 | Some streamSet \<Rightarrow> set_size S streamSet))"

definition GetCurrentPeerReceiveStreamCount :: "'n rsm \<Rightarrow> peer_id \<Rightarrow> int" where
  "GetCurrentPeerReceiveStreamCount r pid = count_of r pid"

text \<open>The second component lists the streams on which \<open>Close\<close> is called.\<close>

definition ClosePeerReceiveStreams ::
  "(handle, 'n) set_ops \<Rightarrow> 'n rsm \<Rightarrow> peer_id \<Rightarrow> handle \<Rightarrow> 'n rsm \<times> handle list" where
  "ClosePeerReceiveStreams S r pid conn =
     (let count = count_of r pid
      in if count = 0 then (r, [])
         else case rsm_streamMap r pid of
             None \<Rightarrow> (r, [])
           | Some connM \<Rightarrow> (case connM conn of
                 None \<Rightarrow> (r, [])
               | Some streamSet \<Rightarrow>
                   (let (count', closed) =
                          foldl (\<lambda>(n, cl) s. (n - 1, cl @ [s])) (count, []) (set_range S streamSet)
                    in (if count' = 0
                        then r\<lparr>rsm_countMap := (rsm_countMap r)(pid := None),
                               rsm_streamMap := (rsm_streamMap r)(pid := None)\<rparr>
                        else r\<lparr>rsm_countMap := (rsm_countMap r)(pid \<mapsto> count'),
                               rsm_streamMap := (rsm_streamMap r)(pid \<mapsto> connM(conn := None))\<rparr>,
                        closed))))"

section \<open>Invariant and view\<close>

definition rsm_view ::
  "(handle, 'n) set_ops \<Rightarrow> (handle \<Rightarrow> peer_id) \<Rightarrow> 'n rsm \<Rightarrow> handle \<Rightarrow> handle set" where
  "rsm_view S rpid r c = (case rsm_streamMap r (rpid c) of
      None \<Rightarrow> {}
    | Some cm \<Rightarrow> (case cm c of None \<Rightarrow> {} | Some s \<Rightarrow> elems S s))"

definition map_count :: "(handle, 'n) set_ops \<Rightarrow> (handle \<rightharpoonup> 'n) \<Rightarrow> int" where
  "map_count S cm = (\<Sum>c\<in>dom cm. int (card (elems S (the (cm c)))))"

text \<open>
  A peer has an entry in both maps or in neither; its entry is not empty, holds only its own
  connections, each with at least one stream, and the count is the number of streams.
\<close>

definition peer_ok ::
  "(handle, 'n) set_ops \<Rightarrow> (handle \<Rightarrow> peer_id) \<Rightarrow> peer_id \<Rightarrow> int option \<Rightarrow> (handle \<rightharpoonup> 'n) option \<Rightarrow> bool"
where
  "peer_ok S rpid pid n cmo = (case cmo of
      None \<Rightarrow> n = None
    | Some cm \<Rightarrow> finite (dom cm) \<and> cm \<noteq> Map.empty \<and>
        (\<forall>c s. cm c = Some s \<longrightarrow> rpid c = pid \<and> elems S s \<noteq> {}) \<and> n = Some (map_count S cm))"

definition rsm_wf :: "(handle, 'n) set_ops \<Rightarrow> (handle \<Rightarrow> peer_id) \<Rightarrow> 'n rsm \<Rightarrow> bool" where
  "rsm_wf S rpid r \<longleftrightarrow> finite (dom (rsm_streamMap r)) \<and>
     (\<forall>pid. peer_ok S rpid pid (rsm_countMap r pid) (rsm_streamMap r pid))"

lemma rsm_wf_peer: "rsm_wf S rpid r \<Longrightarrow> peer_ok S rpid pid (rsm_countMap r pid) (rsm_streamMap r pid)"
  by (simp add: rsm_wf_def)

lemma peer_ok_count: "peer_ok S rpid pid n (Some cm) \<Longrightarrow> n = Some (map_count S cm)"
  by (simp add: peer_ok_def)

lemma rsm_wf_update:
  assumes "rsm_wf S rpid r" and "peer_ok S rpid pid n cmo"
  shows "rsm_wf S rpid (r\<lparr>rsm_countMap := (rsm_countMap r)(pid := n),
                          rsm_streamMap := (rsm_streamMap r)(pid := cmo)\<rparr>)"
  using assms by (cases cmo) (auto simp: rsm_wf_def dom_fun_upd)

lemma map_count_empty [simp]: "map_count S Map.empty = 0"
  by (simp add: map_count_def)

lemma map_count_nonneg: "0 \<le> map_count S cm"
  by (simp add: map_count_def sum_nonneg)

lemma map_count_upd:
  assumes "finite (dom cm)"
  shows "map_count S (cm(c \<mapsto> s)) = map_count S (cm(c := None)) + int (card (elems S s))"
proof -
  have "map_count S (cm(c \<mapsto> s)) =
      (\<Sum>d\<in>insert c (dom cm - {c}). int (card (elems S (the ((cm(c \<mapsto> s)) d)))))"
    by (simp add: map_count_def insert_Diff_if)
  also have "\<dots> = int (card (elems S s)) +
      (\<Sum>d\<in>dom cm - {c}. int (card (elems S (the ((cm(c \<mapsto> s)) d)))))"
    using assms by (subst sum.insert) auto
  also have "(\<Sum>d\<in>dom cm - {c}. int (card (elems S (the ((cm(c \<mapsto> s)) d))))) = map_count S (cm(c := None))"
    unfolding map_count_def by (rule sum.cong) auto
  finally show ?thesis by (simp only: add.commute)
qed

lemma map_count_split:
  assumes "finite (dom cm)" and "cm c = Some s"
  shows "map_count S cm = map_count S (cm(c := None)) + int (card (elems S s))"
  using map_count_upd [OF assms(1), of S c s] assms(2) by (simp add: map_upd_triv)

lemma map_count_zero:
  assumes "finite (dom cm)" and "\<forall>c s. cm c = Some s \<longrightarrow> elems S s \<noteq> {}"
  shows "map_count S cm = 0 \<longleftrightarrow> cm = Map.empty"
proof
  assume "map_count S cm = 0"
  then have "\<forall>c\<in>dom cm. card (elems S (the (cm c))) = 0"
    using assms(1) by (simp add: map_count_def sum_nonneg_eq_0_iff)
  with assms(2) show "cm = Map.empty"
    by (auto simp: fun_eq_iff) (metis List.finite_set card_0_eq domI option.sel set_empty not_Some_eq)
qed simp

lemma count_of_eq:
  assumes "rsm_wf S rpid r"
  shows "count_of r pid = (case rsm_streamMap r pid of None \<Rightarrow> 0 | Some cm \<Rightarrow> map_count S cm)"
  using rsm_wf_peer [OF assms, of pid] by (auto simp: count_of_def peer_ok_def split: option.splits)

lemma count_of_zero:
  assumes "rsm_wf S rpid r"
  shows "count_of r pid = 0 \<longleftrightarrow> rsm_streamMap r pid = None"
  using rsm_wf_peer [OF assms, of pid] map_count_zero
  by (auto simp: count_of_eq [OF assms] peer_ok_def split: option.splits)

lemma fold_close:
  "foldl (\<lambda>(n, cl) s. (n - 1, cl @ [s])) (n :: int, cl) xs = (n - int (length xs), cl @ xs)"
  by (induction xs arbitrary: n cl) auto

section \<open>The operations keep the invariant and act on the view\<close>

lemma rsm_view_upd:
  "rsm_view S rpid (r\<lparr>rsm_countMap := n, rsm_streamMap := (rsm_streamMap r)(pid := cmo)\<rparr>) c =
     (if rpid c = pid then (case cmo of None \<Rightarrow> {} | Some cm \<Rightarrow>
        (case cm c of None \<Rightarrow> {} | Some s \<Rightarrow> elems S s)) else rsm_view S rpid r c)"
  by (simp add: rsm_view_def)

lemma rsm_unchanged [simp]: "r\<lparr>rsm_countMap := rsm_countMap r, rsm_streamMap := m\<rparr> = r\<lparr>rsm_streamMap := m\<rparr>"
  by simp

lemma Add_ok:
  assumes S: "set_laws S" and wf: "rsm_wf S rpid r"
    and ok: "\<not> (0 < rsm_maxCount r \<and> rsm_maxCount r \<le> count_of r (rpid c))"
    and r': "AddPeerReceiveStream S rpid r c x = (r', e)"
  shows "e = None \<and> rsm_maxCount r' = rsm_maxCount r \<and> rsm_wf S rpid r' \<and>
         rsm_view S rpid r' = (rsm_view S rpid r)(c := insert x (rsm_view S rpid r c))"
proof -
  define cm where "cm = (case rsm_streamMap r (rpid c) of Some m \<Rightarrow> m | None \<Rightarrow> Map.empty)"
  define s where "s = (case cm c of Some s \<Rightarrow> s | None \<Rightarrow> set_new S)"
  define s' where "s' = fst (set_put S s x)"
  define n where "n = (if x \<notin> elems S s then Some (count_of r (rpid c) + 1) else rsm_countMap r (rpid c))"
  have view: "rsm_view S rpid r c = elems S s"
    using S by (auto simp: rsm_view_def s_def cm_def set_simps split: option.split)
  have s': "elems S s' = insert x (elems S s)" using S by (simp add: s'_def set_simps)
  have eq: "r' = r\<lparr>rsm_countMap := (rsm_countMap r)(rpid c := n),
                   rsm_streamMap := (rsm_streamMap r)(rpid c \<mapsto> cm(c \<mapsto> s'))\<rparr>" "e = None"
    using r' ok put_result [OF S, of s x]
    by (auto simp: AddPeerReceiveStream_def Let_def case_prod_unfold cm_def [symmetric]
        s_def [symmetric] s'_def [symmetric] n_def fun_upd_idem)
  have fin: "finite (dom cm)" and mem: "\<And>d t. cm d = Some t \<Longrightarrow> rpid d = rpid c \<and> elems S t \<noteq> {}"
    using rsm_wf_peer [OF wf, of "rpid c"] by (auto simp: cm_def peer_ok_def split: option.splits)
  have cnt: "count_of r (rpid c) = map_count S cm"
    by (auto simp: count_of_eq [OF wf] cm_def split: option.split)
  have old: "map_count S cm = map_count S (cm(c := None)) + int (card (elems S s))"
    using map_count_split [OF fin, of c] S
    by (cases "cm c") (auto simp: s_def set_simps fun_upd_idem)
  have "n = Some (map_count S (cm(c \<mapsto> s')))"
  proof (cases "x \<in> elems S s")
    case True
    then obtain t where "cm c = Some t" using S by (auto simp: s_def set_simps split: option.splits)
    then obtain m where "rsm_streamMap r (rpid c) = Some m" "cm = m"
      by (cases "rsm_streamMap r (rpid c)") (simp_all add: cm_def)
    then have "rsm_countMap r (rpid c) = Some (map_count S cm)"
      using peer_ok_count rsm_wf_peer [OF wf, of "rpid c"] by metis
    moreover have "elems S s' = elems S s" using s' True by auto
    ultimately show ?thesis using True by (simp only: n_def map_count_upd [OF fin] old) simp
  next
    case False
    then show ?thesis using old by (simp add: n_def cnt map_count_upd [OF fin] s')
  qed
  then have "peer_ok S rpid (rpid c) n (Some (cm(c \<mapsto> s')))"
    using fin mem s' by (auto simp: peer_ok_def)
  from rsm_wf_update [OF wf this] show ?thesis
    using view s' by (auto simp: eq fun_eq_iff rsm_view_upd) 
       (auto simp: rsm_view_def cm_def split: option.splits)
qed

text \<open>Without an entry, an operation that only takes away does nothing, as it should.\<close>

lemma no_entry_view:
  "rsm_streamMap r (rpid c) = None \<or> (\<exists>cm. rsm_streamMap r (rpid c) = Some cm \<and> cm c = None)
   \<Longrightarrow> rsm_view S rpid r c = {}"
  by (auto simp: rsm_view_def)

lemma peer_ok_drop:
  assumes "peer_ok S rpid pid n (Some cm)" and "cm c = Some s" and "elems S s' \<subseteq> elems S s"
    and "cm' = (if elems S s' = {} then cm(c := None) else cm(c \<mapsto> s'))"
    and "k = map_count S cm - int (card (elems S s) - card (elems S s'))"
  shows "k = map_count S cm'"
    and "k = 0 \<longleftrightarrow> cm' = Map.empty"
    and "k \<noteq> 0 \<Longrightarrow> peer_ok S rpid pid (Some k) (Some cm')"
proof -
  have fin: "finite (dom cm)" and ne: "\<forall>d t. cm d = Some t \<longrightarrow> elems S t \<noteq> {}"
    and rp: "\<forall>d t. cm d = Some t \<longrightarrow> rpid d = pid"
    using assms(1) by (auto simp: peer_ok_def)
  have le: "card (elems S s') \<le> card (elems S s)" by (rule card_mono [OF finite_set assms(3)])
  have "map_count S cm = map_count S (cm(c := None)) + int (card (elems S s))"
    by (rule map_count_split [where S = S, OF fin assms(2)])
  moreover have "map_count S cm' = map_count S (cm(c := None)) + int (card (elems S s'))"
    by (simp add: assms(4) map_count_upd [OF fin])
  ultimately show k: "k = map_count S cm'" using le by (simp add: assms(5))
  have fin': "finite (dom cm')" using fin by (simp add: assms(4))
  have ne': "\<forall>d t. cm' d = Some t \<longrightarrow> elems S t \<noteq> {}" using ne by (simp add: assms(4))
  from map_count_zero [OF fin' ne'] show z: "k = 0 \<longleftrightarrow> cm' = Map.empty" by (simp only: k)
  have rp': "\<forall>d t. cm' d = Some t \<longrightarrow> rpid d = pid"
    using rp assms(2) by (auto simp: assms(4))
  show "k \<noteq> 0 \<Longrightarrow> peer_ok S rpid pid (Some k) (Some cm')"
    using z fin' ne' rp' k unfolding peer_ok_def by auto
qed

lemma drop_ok:
  assumes wf: "rsm_wf S rpid r" and m: "rsm_streamMap r (rpid c) = Some cm" "cm c = Some s"
    and sub: "elems S s' \<subseteq> elems S s"
    and cm': "cm' = (if elems S s' = {} then cm(c := None) else cm(c \<mapsto> s'))"
    and k: "k = count_of r (rpid c) - int (card (elems S s) - card (elems S s'))"
    and r': "r' = (if k = 0
        then r\<lparr>rsm_countMap := (rsm_countMap r)(rpid c := None),
               rsm_streamMap := (rsm_streamMap r)(rpid c := None)\<rparr>
        else r\<lparr>rsm_countMap := (rsm_countMap r)(rpid c \<mapsto> k),
               rsm_streamMap := (rsm_streamMap r)(rpid c \<mapsto> cm')\<rparr>)"
  shows "rsm_wf S rpid r' \<and> rsm_maxCount r' = rsm_maxCount r \<and>
         rsm_view S rpid r' = (rsm_view S rpid r)(c := elems S s')"
proof -
  have p: "peer_ok S rpid (rpid c) (rsm_countMap r (rpid c)) (Some cm)"
    using rsm_wf_peer [OF wf, of "rpid c"] m(1) by simp
  have k': "k = map_count S cm - int (card (elems S s) - card (elems S s'))"
    using k by (simp add: count_of_eq [OF wf] m(1))
  note d = peer_ok_drop [OF p m(2) sub cm' k']
  have w: "rsm_wf S rpid r'"
  proof (cases "k = 0")
    case True
    have "peer_ok S rpid (rpid c) None None" by (simp add: peer_ok_def)
    from rsm_wf_update [OF wf this] True show ?thesis by (simp add: r')
  next
    case False
    from rsm_wf_update [OF wf d(3) [OF False]] False show ?thesis by (simp add: r')
  qed
  have "rsm_view S rpid r' d = (if d = c then elems S s' else rsm_view S rpid r d)" for d
  proof (cases "rpid d = rpid c")
    case True
    have "rsm_view S rpid r' d = (case cm' d of None \<Rightarrow> {} | Some t \<Rightarrow> elems S t)"
      using True d(2) by (cases "k = 0") (simp_all add: r' rsm_view_upd)
    then show ?thesis using True m by (simp add: cm' rsm_view_def)
  next
    case False
    then show ?thesis by (auto simp: r' rsm_view_upd)
  qed
  with w show ?thesis by (auto simp: r' fun_eq_iff)
qed

lemma elems_unchanged_wf:
  assumes wf: "rsm_wf S rpid r" and m: "rsm_streamMap r (rpid c) = Some cm" "cm c = Some s"
    and e: "elems S s' = elems S s"
  shows "rsm_wf S rpid (r\<lparr>rsm_streamMap := (rsm_streamMap r)(rpid c \<mapsto> cm(c \<mapsto> s'))\<rparr>) \<and>
         rsm_view S rpid (r\<lparr>rsm_streamMap := (rsm_streamMap r)(rpid c \<mapsto> cm(c \<mapsto> s'))\<rparr>) = rsm_view S rpid r"
proof -
  have p: "peer_ok S rpid (rpid c) (rsm_countMap r (rpid c)) (Some cm)"
    using rsm_wf_peer [OF wf, of "rpid c"] m(1) by simp
  then have c: "rsm_countMap r (rpid c) = Some (count_of r (rpid c))"
    by (simp add: count_of_eq [OF wf] m(1) peer_ok_def)
  have ne: "elems S s' \<noteq> {}" using p m(2) unfolding e peer_ok_def option.case by blast
  have nz: "count_of r (rpid c) \<noteq> 0" by (simp add: count_of_zero [OF wf] m(1))
  have h: "r\<lparr>rsm_countMap := (rsm_countMap r)(rpid c \<mapsto> count_of r (rpid c))\<rparr> = r"
    using c by (simp add: map_upd_triv)
  define r' where "r' = r\<lparr>rsm_streamMap := (rsm_streamMap r)(rpid c \<mapsto> cm(c \<mapsto> s'))\<rparr>"
  have r': "r' = r\<lparr>rsm_countMap := (rsm_countMap r)(rpid c \<mapsto> count_of r (rpid c)),
        rsm_streamMap := (rsm_streamMap r)(rpid c \<mapsto> cm(c \<mapsto> s'))\<rparr>"
    by (simp only: h r'_def)
  have v: "elems S s' = rsm_view S rpid r c" unfolding e by (simp add: rsm_view_def m)
  have "rsm_wf S rpid r' \<and> rsm_maxCount r' = rsm_maxCount r \<and>
      rsm_view S rpid r' = (rsm_view S rpid r)(c := elems S s')"
  proof (rule drop_ok [OF wf m, where k = "count_of r (rpid c)" and cm' = "cm(c \<mapsto> s')"])
    show "elems S s' \<subseteq> elems S s" unfolding e by simp
    show "cm(c \<mapsto> s') = (if elems S s' = {} then cm(c := None) else cm(c \<mapsto> s'))"
      by (simp only: ne if_False)
    show "count_of r (rpid c) = count_of r (rpid c) - int (card (elems S s) - card (elems S s'))"
      unfolding e by simp
  qed (simp only: r' nz if_False)
  then show ?thesis by (simp only: v fun_upd_triv r'_def simp_thms)
qed

lemma Remove_ok:
  assumes S: "set_laws S" and wf: "rsm_wf S rpid r"
  shows "rsm_wf S rpid (RemovePeerReceiveStream S rpid r c x) \<and>
         rsm_maxCount (RemovePeerReceiveStream S rpid r c x) = rsm_maxCount r \<and>
         rsm_view S rpid (RemovePeerReceiveStream S rpid r c x) =
           (rsm_view S rpid r)(c := rsm_view S rpid r c - {x})"
proof (cases "\<exists>cm s. rsm_streamMap r (rpid c) = Some cm \<and> cm c = Some s")
  case False
  then have "RemovePeerReceiveStream S rpid r c x = r" "rsm_view S rpid r c = {}"
    by (auto simp: RemovePeerReceiveStream_def Let_def rsm_view_def split: option.splits)
  then show ?thesis using wf by (simp add: fun_upd_idem)
next
  case True
  then obtain cm s where m: "rsm_streamMap r (rpid c) = Some cm" "cm c = Some s" by auto
  define s' where "s' = fst (set_remove S s x)"
  have s': "elems S s' = elems S s - {x}" using S by (simp add: s'_def set_simps)
  have v: "rsm_view S rpid r c = elems S s" by (simp add: rsm_view_def m)
  have nz: "count_of r (rpid c) \<noteq> 0" by (simp add: count_of_zero [OF wf] m(1))
  show ?thesis
  proof (cases "x \<in> elems S s")
    case x: True
    define cm' where "cm' = (if elems S s' = {} then cm(c := None) else cm(c \<mapsto> s'))"
    have k: "count_of r (rpid c) - 1 =
        count_of r (rpid c) - int (card (elems S s) - card (elems S s'))"
    proof -
      have "0 < card (elems S s)" using x by (auto simp: card_gt_0_iff)
      moreover have "card (elems S s') = card (elems S s) - 1" unfolding s' using x by simp
      ultimately show ?thesis by simp
    qed
    have "RemovePeerReceiveStream S rpid r c x = (if count_of r (rpid c) - 1 = 0
        then r\<lparr>rsm_countMap := (rsm_countMap r)(rpid c := None),
               rsm_streamMap := (rsm_streamMap r)(rpid c := None)\<rparr>
        else r\<lparr>rsm_countMap := (rsm_countMap r)(rpid c \<mapsto> count_of r (rpid c) - 1),
               rsm_streamMap := (rsm_streamMap r)(rpid c \<mapsto> cm')\<rparr>)"
      using x nz S by (simp add: RemovePeerReceiveStream_def Let_def m case_prod_unfold
          s'_def [symmetric] remove_result set_size_zero_iff cm'_def del: set_empty)
    from drop_ok [OF wf m _ cm'_def k this] show ?thesis using s' by (simp add: v)
  next
    case x: False
    have e: "elems S s' = elems S s" using s' x by simp
    have "RemovePeerReceiveStream S rpid r c x =
        r\<lparr>rsm_streamMap := (rsm_streamMap r)(rpid c \<mapsto> cm(c \<mapsto> s'))\<rparr>"
      using x nz S by (simp add: RemovePeerReceiveStream_def Let_def m case_prod_unfold
          s'_def [symmetric] remove_result)
    then show ?thesis using elems_unchanged_wf [OF wf m e] x v by (simp add: fun_upd_idem)
  qed
qed

lemma Close_ok:
  assumes S: "set_laws S" and wf: "rsm_wf S rpid r" and pid: "rpid c = pid"
    and r: "ClosePeerReceiveStreams S r pid c = (r', closed)"
  shows "rsm_wf S rpid r' \<and> rsm_maxCount r' = rsm_maxCount r \<and>
         rsm_view S rpid r' = (rsm_view S rpid r)(c := {}) \<and>
         distinct closed \<and> set closed = rsm_view S rpid r c"
proof (cases "\<exists>cm s. rsm_streamMap r (rpid c) = Some cm \<and> cm c = Some s")
  case False
  then have "r' = r \<and> closed = []" "rsm_view S rpid r c = {}"
    using r pid by (auto simp: ClosePeerReceiveStreams_def Let_def rsm_view_def split: option.splits if_splits)
  then show ?thesis using wf by (simp add: fun_upd_idem)
next
  case True
  then obtain cm s where m: "rsm_streamMap r (rpid c) = Some cm" "cm c = Some s" by auto
  have v: "rsm_view S rpid r c = elems S s" by (simp add: rsm_view_def m)
  have nz: "count_of r (rpid c) \<noteq> 0" by (simp add: count_of_zero [OF wf] m(1))
  have d: "distinct (set_range S s)" using S by (simp add: set_simps)
  let ?k = "count_of r (rpid c) - int (length (set_range S s))"
  have n: "elems S (set_new S) = {}" using S by (simp add: set_simps)
  have k: "?k = count_of r (rpid c) - int (card (elems S s) - card (elems S (set_new S)))"
    by (simp add: n distinct_card [OF d])
  have c': "cm(c := None) = (if elems S (set_new S) = {} then cm(c := None) else cm(c \<mapsto> set_new S))"
    by (simp only: n if_True simp_thms)
  have eq: "closed = set_range S s" "r' = (if ?k = 0
        then r\<lparr>rsm_countMap := (rsm_countMap r)(rpid c := None),
               rsm_streamMap := (rsm_streamMap r)(rpid c := None)\<rparr>
        else r\<lparr>rsm_countMap := (rsm_countMap r)(rpid c \<mapsto> ?k),
               rsm_streamMap := (rsm_streamMap r)(rpid c \<mapsto> cm(c := None))\<rparr>)"
    using r nz by (auto simp: ClosePeerReceiveStreams_def Let_def m fold_close pid [symmetric])
  from drop_ok [OF wf m _ c' k eq(2)] n show ?thesis
    using d by (simp add: v eq(1))
qed

lemma rsm_entry:
  assumes "rsm_wf S rpid r" and "rsm_streamMap r p = Some cm"
  shows "finite (dom cm)" and "cm c = Some s \<Longrightarrow> rpid c = p" and "cm c = Some s \<Longrightarrow> elems S s \<noteq> {}"
  using rsm_wf_peer [OF assms(1), of p] unfolding assms(2) peer_ok_def option.case by blast+

lemma rsm_view_of_peer:
  assumes wf: "rsm_wf S rpid r"
  shows "{c. rsm_view S rpid r c \<noteq> {} \<and> rpid c = p} =
      (case rsm_streamMap r p of None \<Rightarrow> {} | Some cm \<Rightarrow> dom cm)"
proof (cases "rsm_streamMap r p")
  case (Some cm)
  have "rsm_view S rpid r c \<noteq> {} \<and> rpid c = p \<longleftrightarrow> c \<in> dom cm" for c
  proof (cases "cm c")
    case (Some s)
    from rsm_entry(2,3) [OF wf \<open>rsm_streamMap r p = Some cm\<close> Some]
    show ?thesis using Some \<open>rsm_streamMap r p = Some cm\<close> by (auto simp: rsm_view_def)
  qed (use Some in \<open>auto simp: rsm_view_def\<close>)
  then show ?thesis by (auto simp: Some)
qed (auto simp: rsm_view_def)

lemma rsm_count_sum:
  assumes wf: "rsm_wf S rpid r"
  shows "finite {c. rsm_view S rpid r c \<noteq> {}} \<and> (\<forall>c. finite (rsm_view S rpid r c)) \<and>
     count_of r pid = int (\<Sum>c\<in>{c. rsm_view S rpid r c \<noteq> {} \<and> rpid c = pid}. card (rsm_view S rpid r c))"
proof (intro conjI)
  note eq = rsm_view_of_peer [OF wf]
  have "rpid c \<in> dom (rsm_streamMap r)" if "rsm_view S rpid r c \<noteq> {}" for c
    using that by (cases "rsm_streamMap r (rpid c)") (simp_all add: rsm_view_def domI)
  then have "{c. rsm_view S rpid r c \<noteq> {}} =
      (\<Union>p\<in>dom (rsm_streamMap r). {c. rsm_view S rpid r c \<noteq> {} \<and> rpid c = p})"
    by blast
  moreover have "finite (case rsm_streamMap r p of None \<Rightarrow> {} | Some cm \<Rightarrow> dom cm)" for p
    using rsm_entry(1) [OF wf] by (auto split: option.split)
  ultimately show "finite {c. rsm_view S rpid r c \<noteq> {}}"
    using wf by (simp add: eq rsm_wf_def)
  show "\<forall>c. finite (rsm_view S rpid r c)"
    by (simp add: rsm_view_def split: option.split)
  show "count_of r pid =
      int (\<Sum>c\<in>{c. rsm_view S rpid r c \<noteq> {} \<and> rpid c = pid}. card (rsm_view S rpid r c))"
  proof (cases "rsm_streamMap r pid")
    case None
    then show ?thesis by (simp add: eq count_of_eq [OF wf])
  next
    case (Some cm)
    have "\<forall>c\<in>dom cm. rpid c = pid"
      using rsm_entry(2) [OF wf Some] by auto
    then have "(\<Sum>c\<in>dom cm. int (card (elems S (the (cm c))))) =
        (\<Sum>c\<in>dom cm. int (card (rsm_view S rpid r c)))"
      using Some by (intro sum.cong) (auto simp: rsm_view_def)
    then show ?thesis by (simp add: eq Some count_of_eq [OF wf] map_count_def)
  qed
qed

definition rsm_limit :: "'n rsm \<Rightarrow> int option" where
  "rsm_limit r = (if 0 < rsm_maxCount r then Some (rsm_maxCount r) else None)"

interpretation rsm: receive_stream_manager rpid "\<lambda>r. set_laws S \<and> rsm_wf S rpid r" "rsm_view S rpid"
    rsm_limit "AddPeerReceiveStream S rpid" "RemovePeerReceiveStream S rpid"
    "ClosePeerReceiveStreams S" GetCurrentPeerReceiveStreamCount for rpid S
proof (unfold_locales, goal_cases)
  case (1 r c s r' e)
  show ?case
  proof (cases "0 < rsm_maxCount r \<and> rsm_maxCount r \<le> count_of r (rpid c)")
    case True
    then show ?thesis using 1
      by (auto simp: AddPeerReceiveStream_def rsm_limit_def GetCurrentPeerReceiveStreamCount_def)
  next
    case False
    then show ?thesis using 1 Add_ok [of S rpid r c s r' e]
      by (auto simp: rsm_limit_def GetCurrentPeerReceiveStreamCount_def)
  qed
next
  case (2 r c s)
  then show ?case using Remove_ok [of S rpid r c s] by (simp add: rsm_limit_def)
next
  case (3 r c pid r' closed)
  then show ?case using Close_ok [of S rpid r c pid r' closed] by (simp add: rsm_limit_def)
next
  case (4 r pid)
  then show ?case using rsm_count_sum [of S rpid r pid] by (simp add: GetCurrentPeerReceiveStreamCount_def)
qed

section \<open>Sequences of calls\<close>

datatype rsm_op =
    OpAdd handle handle
  | OpRemove handle handle
  | OpClose handle
  | OpReset
  | OpSetMax int

fun rsm_exec :: "(handle, 'n) set_ops \<Rightarrow> (handle \<Rightarrow> peer_id) \<Rightarrow> rsm_op \<Rightarrow> 'n rsm \<Rightarrow> 'n rsm" where
  "rsm_exec S rpid (OpAdd c s) r = fst (AddPeerReceiveStream S rpid r c s)"
| "rsm_exec S rpid (OpRemove c s) r = RemovePeerReceiveStream S rpid r c s"
| "rsm_exec S rpid (OpClose c) r = fst (ClosePeerReceiveStreams S r (rpid c) c)"
| "rsm_exec S rpid OpReset r = rsm_Reset r"
| "rsm_exec S rpid (OpSetMax m) r = SetPeerReceiveStreamMaxCount r m"

definition rsm_run :: "(handle, 'n) set_ops \<Rightarrow> (handle \<Rightarrow> peer_id) \<Rightarrow> rsm_op list \<Rightarrow> 'n rsm \<Rightarrow> 'n rsm" where
  "rsm_run S rpid as r = fold (rsm_exec S rpid) as r"

text \<open>
  The specification: a limit and the streams of each connection. A stream is refused when its
  peer's connections already hold as many streams as the limit allows.
\<close>

type_synonym rsm_spec = "int option \<times> (handle \<Rightarrow> handle set)"

definition spec_count :: "(handle \<Rightarrow> peer_id) \<Rightarrow> (handle \<Rightarrow> handle set) \<Rightarrow> peer_id \<Rightarrow> int" where
  "spec_count rpid v pid = int (\<Sum>c\<in>{c. v c \<noteq> {} \<and> rpid c = pid}. card (v c))"

fun spec_exec :: "(handle \<Rightarrow> peer_id) \<Rightarrow> rsm_op \<Rightarrow> rsm_spec \<Rightarrow> rsm_spec" where
  "spec_exec rpid (OpAdd c s) (lim, v) =
     (lim, if \<exists>m. lim = Some m \<and> m \<le> spec_count rpid v (rpid c) then v else v(c := insert s (v c)))"
| "spec_exec rpid (OpRemove c s) (lim, v) = (lim, v(c := v c - {s}))"
| "spec_exec rpid (OpClose c) (lim, v) = (lim, v(c := {}))"
| "spec_exec rpid OpReset (lim, v) = (lim, \<lambda>_. {})"
| "spec_exec rpid (OpSetMax m) (lim, v) = (if 0 < m then Some m else None, v)"

definition rsm_abs :: "(handle, 'n) set_ops \<Rightarrow> (handle \<Rightarrow> peer_id) \<Rightarrow> 'n rsm \<Rightarrow> rsm_spec" where
  "rsm_abs S rpid r = (rsm_limit r, rsm_view S rpid r)"

lemma rsm_wf_New: "rsm_wf S rpid NewReceiveStreamManager"
  by (simp add: rsm_wf_def NewReceiveStreamManager_def peer_ok_def)

lemma rsm_view_New: "rsm_view S rpid NewReceiveStreamManager = (\<lambda>_. {})"
  by (simp add: rsm_view_def NewReceiveStreamManager_def fun_eq_iff)

lemma rsm_limit_New: "rsm_limit NewReceiveStreamManager = None"
  by (simp add: rsm_limit_def NewReceiveStreamManager_def)

lemma count_of_upd:
  "count_of (r\<lparr>rsm_countMap := (rsm_countMap r)(pid := n)\<rparr>) q =
     (if q = pid then (case n of Some k \<Rightarrow> k | None \<Rightarrow> 0) else count_of r q)"
  "count_of (r\<lparr>rsm_streamMap := l, rsm_countMap := (rsm_countMap r)(pid := n)\<rparr>) q =
     (if q = pid then (case n of Some k \<Rightarrow> k | None \<Rightarrow> 0) else count_of r q)"
  "count_of (r\<lparr>rsm_streamMap := m\<rparr>) q = count_of r q"
  by (simp_all add: count_of_def)

lemma count_is_spec_count:
  assumes "set_laws S" and "rsm_wf S rpid r"
  shows "GetCurrentPeerReceiveStreamCount r pid = spec_count rpid (rsm_view S rpid r) pid"
  using rsm.count_law [of S rpid r pid] assms by (simp add: spec_count_def)

lemma rsm_exec_refines:
  assumes S: "set_laws S" and wf: "rsm_wf S rpid r"
  shows "rsm_wf S rpid (rsm_exec S rpid a r) \<and>
         rsm_abs S rpid (rsm_exec S rpid a r) = spec_exec rpid a (rsm_abs S rpid r)"
proof (cases a)
  case (OpAdd c s)
  obtain r' e where r': "AddPeerReceiveStream S rpid r c s = (r', e)" by fastforce
  have "case rsm_limit r of
       Some m \<Rightarrow> if m \<le> spec_count rpid (rsm_view S rpid r) (rpid c) then rsm_view S rpid r' = rsm_view S rpid r
                 else rsm_view S rpid r' = (rsm_view S rpid r)(c := insert s (rsm_view S rpid r c))
     | None \<Rightarrow> rsm_view S rpid r' = (rsm_view S rpid r)(c := insert s (rsm_view S rpid r c))"
    using rsm.add_law [of S rpid r c s r' e] r' S wf
    by (auto simp: count_is_spec_count [OF S wf] split: option.splits if_splits)
  moreover have "rsm_wf S rpid r' \<and> rsm_limit r' = rsm_limit r"
    using rsm.add_law [of S rpid r c s r' e] r' S wf by auto
  ultimately show ?thesis
    by (simp add: OpAdd r' rsm_abs_def split: option.splits if_splits)
next
  case (OpRemove c s)
  then show ?thesis using rsm.remove_law [of S rpid r c s] S wf by (simp add: rsm_abs_def)
next
  case (OpClose c)
  obtain r' cl where r': "ClosePeerReceiveStreams S r (rpid c) c = (r', cl)" by fastforce
  show ?thesis using rsm.close_law [of S rpid r c "rpid c" r' cl] S wf r'
    by (simp add: OpClose rsm_abs_def)
next
  case OpReset
  then show ?thesis by (simp add: rsm_Reset_def rsm_abs_def rsm_wf_def peer_ok_def rsm_limit_def
        rsm_view_def fun_eq_iff)
next
  case (OpSetMax m)
  then show ?thesis using wf by (simp add: SetPeerReceiveStreamMaxCount_def rsm_abs_def rsm_wf_def
        rsm_limit_def rsm_view_def fun_eq_iff)
qed

lemma rsm_run_refines:
  assumes "set_laws S" and "rsm_wf S rpid r"
  shows "rsm_wf S rpid (rsm_run S rpid as r) \<and>
         rsm_abs S rpid (rsm_run S rpid as r) = fold (spec_exec rpid) as (rsm_abs S rpid r)"
  using assms(2)
proof (induction as arbitrary: r)
  case (Cons a as)
  then show ?case using rsm_exec_refines [OF assms(1), of rpid r a] by (simp add: rsm_run_def)
qed (simp add: rsm_run_def)

section \<open>Properties\<close>

text \<open>
  C7. Refinement: for every sequence of additions, removals, closings, resets and changes of
  the limit, from the new manager, the manager's limit and its streams per connection are those
  of the specification run on the same calls, the number it reports for a peer is the number of
  streams of that peer's connections, and the number for a connection is the number of its
  streams.
\<close>

theorem receive_stream_manager_refines_spec:
  assumes "set_laws S"
  shows "let r = rsm_run S rpid as NewReceiveStreamManager;
             (lim, v) = fold (spec_exec rpid) as (None, \<lambda>_. {})
         in rsm_abs S rpid r = (lim, v) \<and>
            GetCurrentPeerReceiveStreamCount r pid = spec_count rpid v pid \<and>
            GetConnReceiveStreamCount S rpid r c = int (card (v c))"
proof -
  let ?r = "rsm_run S rpid as NewReceiveStreamManager"
  have "rsm_wf S rpid ?r"
    and e: "(rsm_limit ?r, rsm_view S rpid ?r) = fold (spec_exec rpid) as (None, \<lambda>_. {})"
    using rsm_run_refines [OF assms rsm_wf_New, of rpid as] by (simp_all add: rsm_abs_def rsm_view_New rsm_limit_New)
  then have "GetCurrentPeerReceiveStreamCount ?r pid = spec_count rpid (rsm_view S rpid ?r) pid"
    using assms by (simp add: count_is_spec_count)
  moreover have "GetConnReceiveStreamCount S rpid ?r c = int (card (rsm_view S rpid ?r c))"
    using assms by (simp add: GetConnReceiveStreamCount_def rsm_view_def set_size_card split: option.split)
  ultimately show ?thesis by (simp add: rsm_abs_def e [symmetric] Let_def)
qed

theorem receive_stream_manager_refines_spec_witness:
  "GetConnReceiveStreamCount list_set (\<lambda>_. ''you'')
     (rsm_run list_set (\<lambda>_. ''you'') [OpAdd 1 7, OpAdd 1 8, OpAdd 2 9, OpRemove 1 7] NewReceiveStreamManager) 1 = 1"
  using receive_stream_manager_refines_spec [OF list_set_laws, of "\<lambda>_. ''you''"
      "[OpAdd 1 7, OpAdd 1 8, OpAdd 2 9, OpRemove 1 7]" "''you''" 1]
  by (simp add: Let_def)

lemma rsm_exec_bounded:
  assumes S: "set_laws S" and wf: "rsm_wf S rpid r" and m: "rsm_maxCount r = m" "0 < m"
    and b: "\<forall>pid. count_of r pid \<le> m" and a: "\<forall>k. a \<noteq> OpSetMax k"
  shows "rsm_maxCount (rsm_exec S rpid a r) = m \<and> (\<forall>pid. count_of (rsm_exec S rpid a r) pid \<le> m)"
proof -
  have sub: "count_of r p - int k \<le> m" "count_of r p - 1 \<le> m" "count_of r p \<le> m" for p k
    using spec [OF b, of p] by simp_all
  show ?thesis
  proof (cases a)
    case (OpAdd c s)
    then show ?thesis using m sub
      by (auto simp: AddPeerReceiveStream_def Let_def count_of_upd case_prod_unfold)
  next
    case (OpRemove c s)
    then show ?thesis using m sub
      by (simp add: RemovePeerReceiveStream_def Let_def count_of_upd case_prod_unfold split: option.split)
  next
    case (OpClose c)
    then show ?thesis using m sub
      by (simp add: ClosePeerReceiveStreams_def fold_close Let_def count_of_upd split: option.split)
  next
    case OpReset
    then show ?thesis using m by (simp add: rsm_Reset_def count_of_def)
  qed (use a in simp)
qed


text \<open>
  With a positive limit, no sequence of additions, removals, closings and resets lets the
  number of receive streams of any peer exceed it.
\<close>

theorem receive_stream_limit_is_respected:
  assumes "set_laws S" and "0 < m" and "\<forall>a\<in>set as. \<forall>k. a \<noteq> OpSetMax k"
  shows "GetCurrentPeerReceiveStreamCount
           (rsm_run S rpid as (SetPeerReceiveStreamMaxCount NewReceiveStreamManager m)) pid \<le> m"
proof -
  have "rsm_wf S rpid r \<Longrightarrow> rsm_maxCount r = m \<Longrightarrow> \<forall>pid. count_of r pid \<le> m \<Longrightarrow>
      count_of (rsm_run S rpid as r) pid \<le> m" for r
    using assms(3)
  proof (induction as arbitrary: r)
    case (Cons a as)
    then show ?case
      using rsm_exec_refines [OF assms(1) Cons.prems(1), of a]
        rsm_exec_bounded [OF assms(1) Cons.prems(1,2) assms(2) Cons.prems(3), of a]
      by (simp add: rsm_run_def)
  qed (simp add: rsm_run_def)
  moreover have "rsm_wf S rpid (SetPeerReceiveStreamMaxCount NewReceiveStreamManager m)"
    using rsm_wf_New [of S rpid] by (simp add: SetPeerReceiveStreamMaxCount_def rsm_wf_def)
  ultimately show ?thesis using assms(2)
    by (simp add: GetCurrentPeerReceiveStreamCount_def SetPeerReceiveStreamMaxCount_def
        NewReceiveStreamManager_def count_of_def)
qed

theorem receive_stream_limit_is_respected_witness:
  "GetCurrentPeerReceiveStreamCount (rsm_run list_set (\<lambda>_. ''you'') [OpAdd 1 7, OpAdd 2 8, OpAdd 2 9]
      (SetPeerReceiveStreamMaxCount NewReceiveStreamManager 2)) ''you'' \<le> 2"
  by (rule receive_stream_limit_is_respected [OF list_set_laws]) auto

end
