(* ===== verification/Util_Net.thy ===== *)
theory Util_Net
  imports RB_Prelude
begin

text \<open>
  \<open>util/error.go\<close> and \<open>util/stream.go\<close>, the classification of errors. An error value is what
  the code asks of it: its text (\<open>Error()\<close>) and, when some error in its chain implements
  \<open>net.Error\<close>, the answer of \<open>Timeout()\<close>. A nil error is \<open>None\<close>.
\<close>

record io_error =
  err_text :: string
  err_net :: "bool option"

definition NetError :: "io_error option \<Rightarrow> bool option" where
  "NetError err = (case err of None \<Rightarrow> None | Some e \<Rightarrow> err_net e)"

definition IsNetErrorTimeout :: "io_error option \<Rightarrow> bool" where
  "IsNetErrorTimeout err = (case NetError err of Some timeout \<Rightarrow> timeout | None \<Rightarrow> False)"

text \<open>\<open>strings.Contains\<close>.\<close>

fun has_prefix :: "string \<Rightarrow> string \<Rightarrow> bool" where
  "has_prefix [] s = True"
| "has_prefix (x # xs) [] = False"
| "has_prefix (x # xs) (y # ys) = (x = y \<and> has_prefix xs ys)"

fun contains :: "string \<Rightarrow> string \<Rightarrow> bool" where
  "contains [] sub = has_prefix sub []"
| "contains (x # xs) sub = (has_prefix sub (x # xs) \<or> contains xs sub)"

text \<open>\<open>err.Error()\<close> on a nil error is a nil dereference.\<close>

definition IsConnClosedError :: "io_error option \<Rightarrow> bool run" where
  "IsConnClosedError err = (case err of
      None \<Rightarrow> Panics NilDereference
    | Some e \<Rightarrow> Returns (contains (err_text e) ''Application error 0x0'' \<or>
                         contains (err_text e) ''connection closed''))"

definition CheckClosedConnectionWithErr :: "bool \<Rightarrow> io_error option \<Rightarrow> bool run" where
  "CheckClosedConnectionWithErr connClosed err =
     (if IsNetErrorTimeout err then Returns True
      else run_bind (IsConnClosedError err) (\<lambda>b. Returns (b \<or> connClosed)))"

lemma has_prefix_iff: "has_prefix p s \<longleftrightarrow> (\<exists>t. s = p @ t)"
  by (induction p s rule: has_prefix.induct) auto

lemma contains_iff: "contains s sub \<longleftrightarrow> (\<exists>a b. s = a @ sub @ b)"
proof (induction s)
  case (Cons x s)
  show ?case
  proof
    assume "contains (x # s) sub"
    then consider "has_prefix sub (x # s)" | "contains s sub" by auto
    then show "\<exists>a b. x # s = a @ sub @ b"
    proof cases
      case 1
      then show ?thesis unfolding has_prefix_iff by (metis append_Nil)
    next
      case 2
      then show ?thesis unfolding Cons.IH by (metis append_Cons)
    qed
  next
    assume "\<exists>a b. x # s = a @ sub @ b"
    then obtain a b where ab: "x # s = a @ sub @ b" by auto
    show "contains (x # s) sub"
    proof (cases a)
      case Nil
      then have "has_prefix sub (x # s)" unfolding has_prefix_iff using ab by auto
      then show ?thesis by simp
    next
      case (Cons y a')
      then have "contains s sub" unfolding Cons.IH using ab by auto
      then show ?thesis by simp
    qed
  qed
qed (auto simp: has_prefix_iff)

lemma CheckClosed_nil: "CheckClosedConnectionWithErr c None = Panics NilDereference"
  by (simp add: CheckClosedConnectionWithErr_def IsNetErrorTimeout_def NetError_def IsConnClosedError_def)

lemma CheckClosed_Some: "\<exists>b. CheckClosedConnectionWithErr c (Some e) = Returns b"
  by (auto simp: CheckClosedConnectionWithErr_def IsConnClosedError_def)

lemma CheckClosed_conn: "CheckClosedConnectionWithErr True (Some e) = Returns True"
  by (simp add: CheckClosedConnectionWithErr_def IsConnClosedError_def)

end
