(* ===== verification/Send_Stream_Pool.thy ===== *)
theory Send_Stream_Pool
  imports Util_Net
begin

text \<open>
  \<open>components/send_stream_pool.go\<close>: the pool of send streams of one connection. The channel
  \<open>poolC\<close> is a bounded FIFO queue, \<open>expandingSignalC\<close> a flag because its capacity is one, and
  \<open>closeC\<close> a flag that is set once. A critical section of the code is one operation.

  \<^item> \<open>opens n\<close> is the outcome of the \<open>n\<close>-th call of \<open>conn.OpenSendStream()\<close>, and \<open>connClosed\<close>
    what \<open>conn.Closed()\<close> answers; \<open>sp_calls\<close> counts the calls made.
  \<^item> Where a \<open>select\<close> has several ready branches Go chooses one at random: the argument
    \<open>preferClose\<close> of an operation is that choice.
  \<^item> \<open>sp_once\<close> tells that \<open>once.Do\<close> has run, \<open>sp_loop\<close> where the goroutine of
    \<open>expandLoop\<close> is, \<open>sp_borrowed\<close> which streams callers hold and have neither returned nor
    dropped; the last is no part of the code's state and is never read by it.
\<close>

section \<open>State\<close>

datatype pool_error =
    ErrStreamPoolClosed
  | ErrNoStreamCanBeBorrowed
  | ErrInitSizeTooBig
  | OpenError io_error

datatype loop_state =
    LoopNotRunning
  | LoopWaiting
  | LoopMeasured int
  | LoopExpanding

record send_stream_pool =
  sp_initSize :: int
  sp_maxSize :: int
  sp_idleSize :: int
  sp_currentSize :: int
  sp_poolC :: "handle list"
  sp_expandingSignalC :: bool
  sp_closeC :: bool
  sp_once :: bool
  sp_loop :: loop_state
  sp_calls :: nat
  sp_borrowed :: "handle list"

type_synonym opener = "nat \<Rightarrow> io_error + handle"

text \<open>\<open>make(chan _, maxSize)\<close> panics for a negative capacity.\<close>

definition NewSendStreamPool :: "int \<Rightarrow> int \<Rightarrow> (pool_error + send_stream_pool) run" where
  "NewSendStreamPool initSize maxSize =
     (if maxSize < initSize then Returns (Inl ErrInitSizeTooBig)
      else if maxSize < 0 then Panics MakeSliceLenOutOfRange
      else Returns (Inr
        \<lparr>sp_initSize = initSize, sp_maxSize = maxSize, sp_idleSize = 0, sp_currentSize = 0,
         sp_poolC = [], sp_expandingSignalC = False, sp_closeC = False, sp_once = False,
         sp_loop = LoopNotRunning, sp_calls = 0, sp_borrowed = []\<rparr>))"

section \<open>Operations\<close>

definition sp_close :: "send_stream_pool \<Rightarrow> send_stream_pool" where
  "sp_close s = (if sp_closeC s then s else s\<lparr>sp_closeC := True\<rparr>)"

definition pool_full :: "send_stream_pool \<Rightarrow> bool" where
  "pool_full s \<longleftrightarrow> sp_maxSize s \<le> int (length (sp_poolC s))"

text \<open>
  The send \<open>s.poolC <- newSendStream\<close> blocks for ever when the channel is full, since the
  mutex is held: that outcome is \<open>None\<close>.
\<close>

definition openSendStream ::
  "opener \<Rightarrow> send_stream_pool \<Rightarrow> (send_stream_pool \<times> io_error option) option" where
  "openSendStream opens s =
     (let s' = s\<lparr>sp_calls := sp_calls s + 1\<rparr>
      in case opens (sp_calls s) of
           Inl err \<Rightarrow> Some (s', Some err)
         | Inr stream \<Rightarrow>
             if pool_full s then None
             else Some (s'\<lparr>sp_poolC := sp_poolC s @ [stream], sp_idleSize := sp_idleSize s + 1,
                           sp_currentSize := sp_currentSize s + 1\<rparr>, None))"

function initLoop :: "opener \<Rightarrow> send_stream_pool \<Rightarrow> (send_stream_pool \<times> io_error option) option" where
  "initLoop opens s =
     (if sp_currentSize s < sp_initSize s
      then (case openSendStream opens s of
              None \<Rightarrow> None
            | Some (s', Some err) \<Rightarrow> Some (s', Some err)
            | Some (s', None) \<Rightarrow> initLoop opens s')
      else Some (s, None))"
  by auto
termination
  by (relation "measure (\<lambda>(opens, s). nat (sp_initSize s - sp_currentSize s))")
     (auto simp: openSendStream_def Let_def split: sum.splits if_splits)

declare initLoop.simps [simp del]

definition InitStreams ::
  "opener \<Rightarrow> send_stream_pool \<Rightarrow> (send_stream_pool \<times> io_error option) option" where
  "InitStreams opens s =
     (if sp_once s then Some (s, None)
      else (case initLoop opens (s\<lparr>sp_once := True\<rparr>) of
              None \<Rightarrow> None
            | Some (s', Some err) \<Rightarrow> Some (s', Some err)
            | Some (s', None) \<Rightarrow> Some (s'\<lparr>sp_loop := LoopWaiting\<rparr>, None)))"

definition triggerExpand :: "bool \<Rightarrow> send_stream_pool \<Rightarrow> send_stream_pool" where
  "triggerExpand preferClose s =
     (if sp_closeC s \<and> (preferClose \<or> sp_expandingSignalC s) then s
      else if \<not> sp_expandingSignalC s then s\<lparr>sp_expandingSignalC := True\<rparr> else s)"

text \<open>
  The two critical sections of \<open>BorrowStream\<close>. The first ends with an answer or asks for the
  second; the second waits a second for a stream and, without one, \<open>BorrowStream\<close> starts over. A stream taken
  in the first section triggers an expansion after the mutex is released.
\<close>

datatype borrow_result =
    Borrowed handle
  | BorrowFailed pool_error
  | BorrowAgain

definition take_idle :: "send_stream_pool \<Rightarrow> handle \<Rightarrow> handle list \<Rightarrow> send_stream_pool" where
  "take_idle s stream rest =
     s\<lparr>sp_poolC := rest, sp_idleSize := sp_idleSize s - 1, sp_borrowed := stream # sp_borrowed s\<rparr>"

definition BorrowStream_first ::
  "bool \<Rightarrow> send_stream_pool \<Rightarrow> send_stream_pool \<times> borrow_result" where
  "BorrowStream_first preferClose s =
     (if sp_closeC s \<and> (preferClose \<or> sp_poolC s = []) then (s, BorrowFailed ErrStreamPoolClosed)
      else (case sp_poolC s of
              stream # rest \<Rightarrow> (take_idle s stream rest, Borrowed stream)
            | [] \<Rightarrow>
                if sp_maxSize s \<le> sp_currentSize s then (s, BorrowFailed ErrNoStreamCanBeBorrowed)
                else (triggerExpand preferClose s, BorrowAgain)))"

definition BorrowStream_second ::
  "bool \<Rightarrow> send_stream_pool \<Rightarrow> send_stream_pool \<times> borrow_result" where
  "BorrowStream_second preferClose s =
     (if sp_closeC s \<and> (preferClose \<or> sp_poolC s = []) then (s, BorrowFailed ErrStreamPoolClosed)
      else (case sp_poolC s of
              stream # rest \<Rightarrow> (take_idle s stream rest, Borrowed stream)
            | [] \<Rightarrow> (s, BorrowAgain)))"

text \<open>
  The whole of \<open>BorrowStream\<close>, with fuel for its recursion: \<open>env k\<close> is what the other goroutines
  do to the pool before its \<open>k\<close>-th critical section, while the mutex is free or, during the second before it
  gives up, without the mutex, and \<open>pref k\<close> the choice made there. \<open>None\<close> means that it has not returned yet.
\<close>

fun BorrowStream ::
  "(nat \<Rightarrow> send_stream_pool \<Rightarrow> send_stream_pool) \<Rightarrow> (nat \<Rightarrow> bool) \<Rightarrow> nat \<Rightarrow> nat \<Rightarrow> send_stream_pool
   \<Rightarrow> (send_stream_pool \<times> borrow_result) option" where
  "BorrowStream env pref k 0 s = None"
| "BorrowStream env pref k (Suc fuel) s =
     (case BorrowStream_first (pref k) (env k s) of
        (s1, Borrowed stream) \<Rightarrow> Some (triggerExpand (pref k) s1, Borrowed stream)
      | (s1, BorrowFailed e) \<Rightarrow> Some (s1, BorrowFailed e)
      | (s1, BorrowAgain) \<Rightarrow>
          (case BorrowStream_second (pref (Suc k)) (env (Suc k) s1) of
             (s2, Borrowed stream) \<Rightarrow> Some (s2, Borrowed stream)
           | (s2, BorrowFailed e) \<Rightarrow> Some (s2, BorrowFailed e)
           | (s2, BorrowAgain) \<Rightarrow> BorrowStream env pref (Suc (Suc k)) fuel s2))"

text \<open>More fuel never changes an answer.\<close>

lemma BorrowStream_more_fuel:
  "BorrowStream env pref k fuel s = Some r \<Longrightarrow> BorrowStream env pref k (fuel + n) s = Some r"
  by (induction env pref k fuel s rule: BorrowStream.induct) (auto split: prod.splits borrow_result.splits)

text \<open>The last component tells whether the stream was closed instead of pooled.\<close>

definition ReturnStream ::
  "bool \<Rightarrow> handle \<Rightarrow> send_stream_pool \<Rightarrow> send_stream_pool \<times> pool_error option \<times> bool" where
  "ReturnStream preferClose stream s =
     (if sp_closeC s \<and> (preferClose \<or> pool_full s) then (s, Some ErrStreamPoolClosed, False)
      else if \<not> pool_full s
      then (s\<lparr>sp_poolC := sp_poolC s @ [stream], sp_idleSize := sp_idleSize s + 1,
              sp_borrowed := remove1 stream (sp_borrowed s)\<rparr>, None, False)
      else (s\<lparr>sp_borrowed := remove1 stream (sp_borrowed s)\<rparr>, None, True))"

text \<open>The second component are the streams closed: the dropped one.\<close>

definition DropStream :: "handle \<Rightarrow> send_stream_pool \<Rightarrow> send_stream_pool \<times> handle list" where
  "DropStream stream s =
     (let s' = s\<lparr>sp_currentSize := sp_currentSize s - 1, sp_borrowed := remove1 stream (sp_borrowed s)\<rparr>
      in (if sp_currentSize s' < 0 then s'\<lparr>sp_currentSize := 0, sp_idleSize := 0\<rparr> else s', [stream]))"

text \<open>
  \<open>math.Round(0.2 * float64(currentSize))\<close>. A fifth of an integer is never halfway between
  two integers, so rounding it is exact integer arithmetic for every size a float can tell apart.
\<close>

definition expandingThreshold :: "send_stream_pool \<Rightarrow> int" where
  "expandingThreshold s =
     (if 0 \<le> sp_currentSize s then (sp_currentSize s + 2) div 5
      else - ((2 - sp_currentSize s) div 5))"

definition expandCheck :: "int \<Rightarrow> send_stream_pool \<Rightarrow> bool" where
  "expandCheck threshold s \<longleftrightarrow>
     sp_idleSize s \<le> threshold \<and> sp_currentSize s < sp_maxSize s \<and> sp_currentSize s \<noteq> 0"

text \<open>
  \<open>expandStream\<close> opens streams one after the other. After each one it asks
  \<open>CheckClosedConnectionWithErr\<close> about the error, a nil one after a success. The outcome is the
  state and, when the goroutine dies, the panic; the deferred \<open>Unlock\<close> runs then too. Go's
  division truncates, but a negative \<open>initSize\<close> leaves no iteration either way.
\<close>

definition expandSize :: "send_stream_pool \<Rightarrow> int" where
  "expandSize s =
     (let e = (if 0 \<le> sp_initSize s then sp_initSize s div 2 else - ((- sp_initSize s) div 2));
          e' = (if e = 0 then 1 else e)
      in if sp_maxSize s < e' + sp_currentSize s then sp_maxSize s - sp_currentSize s else e')"

fun expandOpen ::
  "opener \<Rightarrow> bool \<Rightarrow> nat \<Rightarrow> send_stream_pool \<Rightarrow> (send_stream_pool \<times> bool run) option" where
  "expandOpen opens connClosed 0 s = Some (s, Returns False)"
| "expandOpen opens connClosed (Suc n) s =
     (case openSendStream opens s of
        None \<Rightarrow> None
      | Some (s', err) \<Rightarrow>
          (case CheckClosedConnectionWithErr connClosed err of
             Panics p \<Rightarrow> Some (s', Panics p)
           | Returns True \<Rightarrow> Some (sp_close s', Returns True)
           | Returns False \<Rightarrow> expandOpen opens connClosed n s'))"

definition expandStream ::
  "opener \<Rightarrow> bool \<Rightarrow> bool \<Rightarrow> send_stream_pool \<Rightarrow> (send_stream_pool \<times> panic option) option" where
  "expandStream opens connClosed preferClose s =
     (case expandOpen opens connClosed (nat (expandSize s)) s of
        None \<Rightarrow> None
      | Some (s', Panics p) \<Rightarrow> Some (s', Some p)
      | Some (s', Returns True) \<Rightarrow> Some (s', None)
      | Some (s', Returns False) \<Rightarrow> Some (triggerExpand preferClose s', None))"

section \<open>The pool as a state machine\<close>

text \<open>
  One step is one critical section of some goroutine, in any order. A caller returns or drops
  only streams it has borrowed and not yet given back, as the interface demands.
  \<open>triggerExpand\<close> takes no lock and may happen at any time. A panic in \<open>expandStream\<close> ends the
  goroutine: \<open>LoggerGo\<close> recovers and logs it.
\<close>

inductive pool_step :: "opener \<Rightarrow> send_stream_pool \<Rightarrow> send_stream_pool \<Rightarrow> bool" for opens where
  step_init: "InitStreams opens s = Some (s', err) \<Longrightarrow> pool_step opens s s'"
| step_borrow_first: "BorrowStream_first p s = (s', res) \<Longrightarrow> pool_step opens s s'"
| step_borrow_second: "BorrowStream_second p s = (s', res) \<Longrightarrow> pool_step opens s s'"
| step_trigger: "pool_step opens s (triggerExpand p s)"
| step_return: "stream \<in> set (sp_borrowed s) \<Longrightarrow> ReturnStream p stream s = (s', err, closed)
    \<Longrightarrow> pool_step opens s s'"
| step_drop: "stream \<in> set (sp_borrowed s) \<Longrightarrow> DropStream stream s = (s', closed) \<Longrightarrow> pool_step opens s s'"
| step_close: "pool_step opens s (sp_close s)"
| step_loop_end: "sp_loop s = LoopWaiting \<Longrightarrow> sp_closeC s
    \<Longrightarrow> pool_step opens s (s\<lparr>sp_loop := LoopNotRunning\<rparr>)"
| step_loop_measure: "sp_loop s = LoopWaiting \<Longrightarrow> sp_expandingSignalC s
    \<Longrightarrow> pool_step opens s (s\<lparr>sp_expandingSignalC := False, sp_loop := LoopMeasured (expandingThreshold s)\<rparr>)"
| step_loop_check: "sp_loop s = LoopMeasured t
    \<Longrightarrow> pool_step opens s (s\<lparr>sp_loop := (if expandCheck t s then LoopExpanding else LoopWaiting)\<rparr>)"
| step_loop_expand: "sp_loop s = LoopExpanding \<Longrightarrow> expandStream opens c p s = Some (s', pan)
    \<Longrightarrow> pool_step opens s (s'\<lparr>sp_loop := (case pan of None \<Rightarrow> LoopWaiting | Some _ \<Rightarrow> LoopNotRunning)\<rparr>)"

inductive_cases pool_stepE: "pool_step opens s s'"

inductive pool_reachable :: "opener \<Rightarrow> int \<Rightarrow> int \<Rightarrow> send_stream_pool \<Rightarrow> bool"
  for opens initSize maxSize where
  reach_new: "NewSendStreamPool initSize maxSize = Returns (Inr s) \<Longrightarrow> pool_reachable opens initSize maxSize s"
| reach_step: "pool_reachable opens initSize maxSize s \<Longrightarrow> pool_step opens s s'
    \<Longrightarrow> pool_reachable opens initSize maxSize s'"

text \<open>
  The invariant: the counters count, the size stays within its bound, and no stream is in the
  pool twice, lent twice or lent while in the pool.
\<close>

definition opened :: "opener \<Rightarrow> nat \<Rightarrow> handle set" where
  "opened opens n = {h. \<exists>k<n. opens k = Inr h}"

definition fresh_streams :: "opener \<Rightarrow> bool" where
  "fresh_streams opens \<longleftrightarrow> (\<forall>i j h. opens i = Inr h \<and> opens j = Inr h \<longrightarrow> i = j)"

definition pool_inv :: "opener \<Rightarrow> send_stream_pool \<Rightarrow> bool" where
  "pool_inv opens s \<longleftrightarrow>
     sp_idleSize s = int (length (sp_poolC s)) \<and>
     sp_currentSize s = int (length (sp_poolC s)) + int (length (sp_borrowed s)) \<and>
     sp_currentSize s \<le> sp_maxSize s \<and> sp_initSize s \<le> sp_maxSize s \<and>
     distinct (sp_poolC s @ sp_borrowed s) \<and>
     set (sp_poolC s @ sp_borrowed s) \<subseteq> opened opens (sp_calls s)"

definition same_sizes :: "send_stream_pool \<Rightarrow> send_stream_pool \<Rightarrow> bool" where
  "same_sizes s s' \<longleftrightarrow> sp_maxSize s' = sp_maxSize s \<and> sp_initSize s' = sp_initSize s"

lemma pool_inv_irrelevant [simp]:
  "pool_inv opens (s\<lparr>sp_expandingSignalC := a\<rparr>) = pool_inv opens s"
  "pool_inv opens (s\<lparr>sp_closeC := a\<rparr>) = pool_inv opens s"
  "pool_inv opens (s\<lparr>sp_once := a\<rparr>) = pool_inv opens s"
  "pool_inv opens (s\<lparr>sp_loop := l\<rparr>) = pool_inv opens s"
  by (simp_all add: pool_inv_def)

lemma triggerExpand_inv [simp]: "pool_inv opens (triggerExpand p s) = pool_inv opens s"
  by (simp add: triggerExpand_def)

lemma close_inv [simp]: "pool_inv opens (sp_close s) = pool_inv opens s"
  by (simp add: sp_close_def)

lemma opened_mono: "m \<le> n \<Longrightarrow> opened opens m \<subseteq> opened opens n"
  by (auto simp: opened_def intro: less_le_trans)

lemma openSendStream_inv:
  assumes fresh: "fresh_streams opens" and inv: "pool_inv opens s" and size: "sp_currentSize s < sp_maxSize s"
  shows "\<exists>s' err. openSendStream opens s = Some (s', err) \<and> pool_inv opens s' \<and>
      same_sizes s s' \<and> sp_borrowed s' = sp_borrowed s \<and>
      sp_currentSize s' = sp_currentSize s + (if err = None then 1 else 0)"
proof -
  have room: "\<not> pool_full s" using inv size by (simp add: pool_full_def pool_inv_def)
  have mono: "opened opens (sp_calls s) \<subseteq> opened opens (Suc (sp_calls s))"
    by (rule opened_mono) simp
  show ?thesis
  proof (cases "opens (sp_calls s)")
    case (Inl e)
    then show ?thesis using inv mono
      by (auto simp: openSendStream_def Let_def pool_inv_def same_sizes_def)
  next
    case (Inr h)
    have "h \<notin> opened opens (sp_calls s)"
      using fresh Inr by (fastforce simp: opened_def fresh_streams_def)
    moreover have "h \<in> opened opens (Suc (sp_calls s))" using Inr by (auto simp: opened_def)
    ultimately show ?thesis using inv mono size room Inr
      by (auto simp: openSendStream_def Let_def pool_inv_def same_sizes_def)
  qed
qed

lemma initLoop_inv:
  assumes "fresh_streams opens" and "pool_inv opens s"
  shows "\<exists>s' err. initLoop opens s = Some (s', err) \<and> pool_inv opens s' \<and> same_sizes s s' \<and>
     (err = None \<longrightarrow> sp_initSize s \<le> sp_currentSize s')"
  using assms
proof (induction opens s rule: initLoop.induct)
  case (1 opens s)
  show ?case
  proof (cases "sp_currentSize s < sp_initSize s")
    case True
    then have "sp_currentSize s < sp_maxSize s" using 1(3) by (simp add: pool_inv_def)
    from openSendStream_inv [OF 1(2,3) this] obtain s' err where
      o: "openSendStream opens s = Some (s', err)" "pool_inv opens s'" "same_sizes s s'" by blast
    show ?thesis
    proof (cases err)
      case None
      from 1(1) [OF True o(1) refl None 1(2) o(2)] o(3) show ?thesis
        using True o(1) None by (subst initLoop.simps) (auto simp: same_sizes_def)
    next
      case (Some e)
      then show ?thesis using True o by (subst initLoop.simps) auto
    qed
  next
    case False
    then show ?thesis using 1(3) by (subst initLoop.simps) (auto simp: same_sizes_def)
  qed
qed

lemma InitStreams_inv:
  assumes "fresh_streams opens" and "pool_inv opens s"
  shows "\<exists>s' err. InitStreams opens s = Some (s', err) \<and> pool_inv opens s' \<and> same_sizes s s'"
proof (cases "sp_once s")
  case True
  then show ?thesis using assms by (simp add: InitStreams_def same_sizes_def)
next
  case False
  have "pool_inv opens (s\<lparr>sp_once := True\<rparr>)" using assms(2) by simp
  from initLoop_inv [OF assms(1) this] obtain s' err where
    l: "initLoop opens (s\<lparr>sp_once := True\<rparr>) = Some (s', err)" "pool_inv opens s'"
      "same_sizes (s\<lparr>sp_once := True\<rparr>) s'" by blast
  then show ?thesis using False
    by (cases err) (auto simp: InitStreams_def same_sizes_def)
qed

lemma expandOpen_inv:
  assumes "fresh_streams opens"
  shows "pool_inv opens s \<Longrightarrow> n = 0 \<or> sp_currentSize s + int n \<le> sp_maxSize s \<Longrightarrow>
    \<exists>s' r. expandOpen opens c n s = Some (s', r) \<and> pool_inv opens s' \<and> same_sizes s s'"
proof (induction n arbitrary: s)
  case 0
  then show ?case by (simp add: same_sizes_def)
next
  case (Suc n)
  have "sp_currentSize s < sp_maxSize s" using Suc.prems(2) by simp
  from openSendStream_inv [OF assms Suc.prems(1) this] obtain s' err where
    o: "openSendStream opens s = Some (s', err)" "pool_inv opens s'" "same_sizes s s'"
      "sp_currentSize s' = sp_currentSize s + (if err = None then 1 else 0)" by blast
  have "n = 0 \<or> sp_currentSize s' + int n \<le> sp_maxSize s'"
    using Suc.prems(2) o(3,4) by (auto simp: same_sizes_def)
  from Suc.IH [OF o(2) this] obtain s2 r where
    "expandOpen opens c n s' = Some (s2, r)" "pool_inv opens s2" "same_sizes s' s2" by blast
  then show ?case using o
    by (auto simp: same_sizes_def sp_close_def split: run.split bool.split)
qed

lemma expandSize_room: "pool_inv opens s \<Longrightarrow>
    nat (expandSize s) = 0 \<or> sp_currentSize s + int (nat (expandSize s)) \<le> sp_maxSize s"
  by (auto simp: expandSize_def Let_def)

lemma expandStream_inv:
  assumes "fresh_streams opens" and "pool_inv opens s"
  shows "\<exists>s' pan. expandStream opens c p s = Some (s', pan) \<and> pool_inv opens s' \<and> same_sizes s s'"
  using expandOpen_inv [OF assms(1,2) expandSize_room [OF assms(2)], of c]
  by (auto simp: expandStream_def same_sizes_def triggerExpand_def split: run.split bool.split)

lemma take_idle_inv:
  "pool_inv opens s \<Longrightarrow> sp_poolC s = x # rest \<Longrightarrow> pool_inv opens (take_idle s x rest)"
  by (auto simp: pool_inv_def take_idle_def)

lemma BorrowStream_inv:
  assumes "pool_inv opens s"
  shows "pool_inv opens (fst (BorrowStream_first p s))" and "pool_inv opens (fst (BorrowStream_second p s))"
  using assms take_idle_inv [OF assms]
  by (auto simp: BorrowStream_first_def BorrowStream_second_def split: list.split)

lemma length_remove_int:
  "x \<in> set xs \<Longrightarrow> int (length xs) = int (length (remove1 x xs)) + 1"
  by (induction xs) auto

lemma borrowed_room:
  assumes "pool_inv opens s" and "x \<in> set (sp_borrowed s)"
  shows "\<not> pool_full s" and "0 < sp_currentSize s"
  using assms(1) length_remove_int [OF assms(2)] by (simp_all add: pool_full_def pool_inv_def)

lemma ReturnStream_inv:
  assumes inv: "pool_inv opens s" and x: "x \<in> set (sp_borrowed s)"
  shows "pool_inv opens (fst (ReturnStream p x s))"
  using inv x borrowed_room(1) [OF inv x] length_remove_int [OF x] set_remove1_subset [of x "sp_borrowed s"]
  by (auto simp: ReturnStream_def pool_inv_def)

lemma DropStream_inv:
  assumes inv: "pool_inv opens s" and x: "x \<in> set (sp_borrowed s)"
  shows "pool_inv opens (fst (DropStream x s))"
  using inv x borrowed_room(2) [OF inv x] length_remove_int [OF x] set_remove1_subset [of x "sp_borrowed s"]
  by (auto simp: DropStream_def Let_def pool_inv_def)

lemma pool_step_inv:
  assumes fresh: "fresh_streams opens"
  shows "pool_step opens s s' \<Longrightarrow> pool_inv opens s \<Longrightarrow> pool_inv opens s'"
proof (induction rule: pool_step.induct)
  case (step_init s s' err)
  then show ?case using InitStreams_inv [OF fresh] by fastforce
next
  case (step_borrow_first p s s' res)
  then show ?case using BorrowStream_inv(1) [of opens s p] by simp
next
  case (step_borrow_second p s s' res)
  then show ?case using BorrowStream_inv(2) [of opens s p] by simp
next
  case (step_return stream s p s' err closed)
  then show ?case using ReturnStream_inv [of opens s stream p] by simp
next
  case (step_drop stream s s' closed)
  then show ?case using DropStream_inv [of opens s stream] by simp
next
  case (step_loop_expand s c p s' pan)
  then show ?case using expandStream_inv [OF fresh, of s c p] by auto
qed simp_all

lemma pool_reachable_inv:
  assumes "fresh_streams opens"
  shows "pool_reachable opens initSize maxSize s \<Longrightarrow> pool_inv opens s"
proof (induction rule: pool_reachable.induct)
  case (reach_new s)
  then show ?case
    by (auto simp: NewSendStreamPool_def pool_inv_def split: if_splits)
next
  case (reach_step s s')
  then show ?case using pool_step_inv [OF assms] by blast
qed

section \<open>Properties\<close>

text \<open>
  C8. In every reachable state, whatever the interleaving of borrowers, returners, the expand
  loop and \<open>Close\<close>: the idle count is the number of pooled streams, the size is pooled plus
  borrowed streams and at most the maximum, no stream is pooled or lent twice; and from
  there opening streams never blocks on the channel, returning a borrowed stream never finds
  the pool full, and dropping one closes it and never needs the repair of negative counters.
\<close>

theorem pool_counts_and_exclusive_streams:
  assumes fresh: "fresh_streams opens" and reach: "pool_reachable opens initSize maxSize s"
  shows "sp_idleSize s = int (length (sp_poolC s)) \<and>
    sp_currentSize s = int (length (sp_poolC s) + length (sp_borrowed s)) \<and>
    sp_currentSize s \<le> sp_maxSize s \<and> distinct (sp_poolC s @ sp_borrowed s) \<and>
    InitStreams opens s \<noteq> None \<and> expandStream opens c p s \<noteq> None \<and>
    (x \<notin> set (sp_borrowed s) \<or>
       (\<not> snd (snd (ReturnStream p x s)) \<and>
        sp_currentSize (fst (DropStream x s)) = sp_currentSize s - 1 \<and> snd (DropStream x s) = [x]))"
proof -
  have inv: "pool_inv opens s" by (rule pool_reachable_inv [OF fresh reach])
  have "x \<notin> set (sp_borrowed s) \<or>
       (\<not> snd (snd (ReturnStream p x s)) \<and>
        sp_currentSize (fst (DropStream x s)) = sp_currentSize s - 1 \<and> snd (DropStream x s) = [x])"
    using borrowed_room [OF inv, of x] by (auto simp: ReturnStream_def DropStream_def Let_def)
  moreover have "InitStreams opens s \<noteq> None" "expandStream opens c p s \<noteq> None"
    using InitStreams_inv [OF fresh inv] expandStream_inv [OF fresh inv, of c p] by auto
  ultimately show ?thesis using inv by (simp add: pool_inv_def)
qed

text \<open>A pool of two streams, one of them borrowed.\<close>

definition sample_pool :: "bool \<Rightarrow> loop_state \<Rightarrow> handle list \<Rightarrow> handle list \<Rightarrow> send_stream_pool" where
  "sample_pool sig l idle lent =
     \<lparr>sp_initSize = 2, sp_maxSize = 4, sp_idleSize = int (length idle), sp_currentSize = 2,
      sp_poolC = idle, sp_expandingSignalC = sig, sp_closeC = False, sp_once = True,
      sp_loop = l, sp_calls = 2, sp_borrowed = lent\<rparr>"

lemma sample_pool_init:
  "InitStreams (\<lambda>n. Inr n) (\<lparr>sp_initSize = 2, sp_maxSize = 4, sp_idleSize = 0, sp_currentSize = 0,
         sp_poolC = [], sp_expandingSignalC = False, sp_closeC = False, sp_once = False,
         sp_loop = LoopNotRunning, sp_calls = 0, sp_borrowed = []\<rparr>) =
   Some (sample_pool False LoopWaiting [0, 1] [], None)"
  by (simp add: InitStreams_def initLoop.simps openSendStream_def pool_full_def sample_pool_def Let_def)

lemma sample_pool_reachable: "pool_reachable (\<lambda>n. Inr n) 2 4 (sample_pool False LoopWaiting [1] [0])"
proof (rule reach_step)
  show "pool_reachable (\<lambda>n. Inr n) 2 4 (sample_pool False LoopWaiting [0, 1] [])"
    by (rule reach_step [OF reach_new step_init [OF sample_pool_init]])
       (simp add: NewSendStreamPool_def)
  show "pool_step (\<lambda>n. Inr n) (sample_pool False LoopWaiting [0, 1] []) (sample_pool False LoopWaiting [1] [0])"
    by (rule step_borrow_first [where p = True and res = "Borrowed 0"])
       (simp add: BorrowStream_first_def take_idle_def sample_pool_def)
qed

theorem pool_counts_and_exclusive_streams_witness:
  "distinct (sp_poolC (sample_pool False LoopWaiting [1] [0]) @ sp_borrowed (sample_pool False LoopWaiting [1] [0]))"
proof -
  have "fresh_streams (\<lambda>n. Inr n)" by (simp add: fresh_streams_def)
  from pool_counts_and_exclusive_streams [OF this sample_pool_reachable] show ?thesis by blast
qed

text \<open>
  The expansion of the pool never survives a success: in a reachable state, when the initial
  size is not negative, the
  expand loop decides to expand and the first stream opens, exactly that stream is added and
  the goroutine panics on the nil error, so the loop is gone.
\<close>

theorem first_successful_expansion_kills_the_loop:
  assumes fresh: "fresh_streams opens" and reach: "pool_reachable opens initSize maxSize s"
    and check: "expandCheck t s" and init: "0 \<le> sp_initSize s" and ok: "opens (sp_calls s) = Inr h"
  shows "\<exists>s'. expandStream opens c p s = Some (s', Some NilDereference) \<and>
      sp_poolC s' = sp_poolC s @ [h] \<and> sp_currentSize s' = sp_currentSize s + 1 \<and>
      (sp_loop s \<noteq> LoopExpanding \<or> pool_step opens s (s'\<lparr>sp_loop := LoopNotRunning\<rparr>))"
proof -
  have inv: "pool_inv opens s" by (rule pool_reachable_inv [OF fresh reach])
  then have room: "\<not> pool_full s" and "0 < expandSize s"
    using check init by (auto simp: pool_inv_def pool_full_def expandCheck_def expandSize_def Let_def)
  then obtain n where n: "nat (expandSize s) = Suc n"
    by (metis Suc_pred zero_less_nat_eq)
  define s' where "s' = s\<lparr>sp_calls := sp_calls s + 1, sp_poolC := sp_poolC s @ [h],
      sp_idleSize := sp_idleSize s + 1, sp_currentSize := sp_currentSize s + 1\<rparr>"
  have e: "expandStream opens c p s = Some (s', Some NilDereference)"
    using room ok by (simp add: expandStream_def n openSendStream_def Let_def CheckClosed_nil s'_def)
  have "sp_loop s \<noteq> LoopExpanding \<or> pool_step opens s (s'\<lparr>sp_loop := LoopNotRunning\<rparr>)"
    using step_loop_expand [OF _ e] by auto
  with e show ?thesis by (auto simp: s'_def)
qed

theorem first_successful_expansion_kills_the_loop_witness:
  "\<exists>s'. expandStream (\<lambda>n. Inr n) False True (sample_pool False LoopWaiting [] [1, 0]) =
      Some (s', Some NilDereference) \<and> sp_poolC s' = [2]"
proof -
  have f: "fresh_streams (\<lambda>n. Inr n)" by (simp add: fresh_streams_def)
  have r: "pool_reachable (\<lambda>n. Inr n) 2 4 (sample_pool False LoopWaiting [] [1, 0])"
    by (rule reach_step [OF sample_pool_reachable step_borrow_first [where p = True and res = "Borrowed 1"]])
       (simp add: BorrowStream_first_def take_idle_def sample_pool_def)
  have "expandCheck 0 (sample_pool False LoopWaiting [] [1, 0])"
    by (simp add: expandCheck_def sample_pool_def)
  from first_successful_expansion_kills_the_loop [OF f r this, of 2 False True]
  show ?thesis by (auto simp: sample_pool_def)
qed

lemma dead_loop_step:
  "pool_step opens s s' \<Longrightarrow> sp_once s \<Longrightarrow> sp_loop s = LoopNotRunning \<Longrightarrow> 0 \<le> sp_currentSize s \<Longrightarrow>
     sp_once s' \<and> sp_loop s' = LoopNotRunning \<and> sp_calls s' = sp_calls s \<and>
     0 \<le> sp_currentSize s' \<and> sp_currentSize s' \<le> sp_currentSize s"
proof (induction rule: pool_step.induct)
  case (step_borrow_first p s s' res)
  then show ?case
    by (auto simp: BorrowStream_first_def take_idle_def triggerExpand_def split: if_splits list.splits)
next
  case (step_borrow_second p s s' res)
  then show ?case by (auto simp: BorrowStream_second_def take_idle_def split: if_splits list.splits)
next
  case (step_return stream s p s' err closed)
  then show ?case by (auto simp: ReturnStream_def split: if_splits)
next
  case (step_drop stream s s' closed)
  then show ?case by (auto simp: DropStream_def Let_def split: if_splits)
qed (auto simp: InitStreams_def triggerExpand_def sp_close_def)

lemma dead_loop_steps:
  "(pool_step opens)\<^sup>*\<^sup>* s s' \<Longrightarrow> sp_once s \<Longrightarrow> sp_loop s = LoopNotRunning \<Longrightarrow> 0 \<le> sp_currentSize s \<Longrightarrow>
     sp_once s' \<and> sp_loop s' = LoopNotRunning \<and> sp_calls s' = sp_calls s \<and>
     0 \<le> sp_currentSize s' \<and> sp_currentSize s' \<le> sp_currentSize s"
proof (induction rule: rtranclp_induct)
  case (step y z)
  then show ?case using dead_loop_step [of opens y z] by auto
qed simp

text \<open>
  A step of another goroutine that neither returns a stream, successfully or not, nor closes the pool: borrowing,
  dropping a stream, \<open>InitStreams\<close>, \<open>triggerExpand\<close>, the expand loop.
\<close>

definition other_step :: "opener \<Rightarrow> send_stream_pool \<Rightarrow> send_stream_pool \<Rightarrow> bool" where
  "other_step opens s s' \<longleftrightarrow> pool_step opens s s' \<and> s' \<noteq> sp_close s \<and>
     (\<forall>p stream. stream \<in> set (sp_borrowed s) \<longrightarrow> s' \<noteq> fst (ReturnStream p stream s))"

text \<open>The expand loop is gone, every stream is lent, and there is room for more.\<close>

definition exhausted :: "send_stream_pool \<Rightarrow> bool" where
  "exhausted s \<longleftrightarrow> sp_once s \<and> sp_loop s = LoopNotRunning \<and> 0 \<le> sp_currentSize s \<and>
     sp_poolC s = [] \<and> \<not> sp_closeC s \<and> sp_currentSize s < sp_maxSize s"

lemma exhausted_trigger [simp]: "exhausted (triggerExpand p s) = exhausted s"
  by (simp add: exhausted_def triggerExpand_def)

lemma exhausted_other_step:
  assumes "other_step opens s s'" and ex: "exhausted s"
  shows "exhausted s'"
proof -
  have "pool_step opens s s'" and no: "s' \<noteq> sp_close s"
    "\<And>p stream. stream \<in> set (sp_borrowed s) \<Longrightarrow> s' \<noteq> fst (ReturnStream p stream s)"
    using assms(1) by (auto simp: other_step_def)
  then show ?thesis using ex
  proof (induction rule: pool_step.induct)
    case (step_return stream s p s' err closed)
    then show ?case by (metis fst_conv)
  next
    case (step_drop stream s s' closed)
    then show ?case by (auto simp: DropStream_def Let_def exhausted_def split: if_splits)
  qed (auto simp: exhausted_def InitStreams_def BorrowStream_first_def BorrowStream_second_def triggerExpand_def
      split: if_splits)
qed

lemma exhausted_others: "(other_step opens)\<^sup>*\<^sup>* s s' \<Longrightarrow> exhausted s \<Longrightarrow> exhausted s'"
  by (induction rule: rtranclp_induct) (auto intro: exhausted_other_step)

lemma borrow_spins:
  assumes "\<And>k t. exhausted t \<Longrightarrow> exhausted (env k t)"
  shows "exhausted s \<Longrightarrow> BorrowStream env pref k fuel s = None"
proof (induction fuel arbitrary: k s)
  case (Suc fuel)
  let ?s0 = "env k s" and ?s1 = "triggerExpand (pref k) (env k s)"
  have e: "exhausted ?s0" "exhausted (env (Suc k) ?s1)" using assms Suc.prems by simp_all
  from e(1) have "BorrowStream_first (pref k) ?s0 = (?s1, BorrowAgain)"
    by (simp add: exhausted_def BorrowStream_first_def)
  moreover from e(2) have "BorrowStream_second (pref (Suc k)) (env (Suc k) ?s1) = (env (Suc k) ?s1, BorrowAgain)"
    by (simp add: exhausted_def BorrowStream_second_def)
  ultimately show ?case using Suc.IH [OF e(2)] by simp
qed simp

text \<open>
  C37. Once the expand loop is gone no step of any goroutine opens a stream again and the size
  never grows. With all streams lent and room for more, \<open>BorrowStream\<close> then does not return
  however often it retries, whatever other goroutines do before each of its critical sections, other borrowers
  and dropped streams included, as long as nobody returns a stream or closes the pool.
\<close>

theorem exhausted_pool_with_dead_loop_never_lends:
  assumes "sp_once s" and "sp_loop s = LoopNotRunning" and "0 \<le> sp_currentSize s"
    and "sp_poolC s = []" and "\<not> sp_closeC s" and "sp_currentSize s < sp_maxSize s"
    and others: "\<And>k t. (other_step opens)\<^sup>*\<^sup>* t (env k t)"
  shows "((pool_step opens)\<^sup>*\<^sup>* s s' \<longrightarrow>
           sp_calls s' = sp_calls s \<and> sp_currentSize s' \<le> sp_currentSize s) \<and>
         BorrowStream env pref k fuel s = None"
proof
  show "(pool_step opens)\<^sup>*\<^sup>* s s' \<longrightarrow> sp_calls s' = sp_calls s \<and> sp_currentSize s' \<le> sp_currentSize s"
    using dead_loop_steps [of opens s s'] assms(1-3) by blast
  show "BorrowStream env pref k fuel s = None"
    using borrow_spins [of env s] exhausted_others [OF others] assms(1-6) by (simp add: exhausted_def)
qed

text \<open>Another goroutine has broken the stream 0 and drops it while the borrower waits.\<close>

definition dropper :: "nat \<Rightarrow> send_stream_pool \<Rightarrow> send_stream_pool" where
  "dropper k s = (if k = 1 \<and> 0 \<in> set (sp_borrowed s) \<and> sp_currentSize s = 2 then fst (DropStream 0 s) else s)"

lemma dropper_step: "(other_step opens)\<^sup>*\<^sup>* s (dropper k s)"
proof (cases "dropper k s = s")
  case False
  then have d: "dropper k s = fst (DropStream 0 s)" "0 \<in> set (sp_borrowed s)" "sp_currentSize s = 2"
    by (auto simp: dropper_def split: if_splits)
  then have "pool_step opens s (dropper k s)" using step_drop [OF d(2)] by (metis prod.collapse)
  moreover have "sp_currentSize (dropper k s) = 1" using d(3) by (simp add: d(1) DropStream_def)
  ultimately have "other_step opens s (dropper k s)"
    using d(3) by (auto simp: other_step_def sp_close_def ReturnStream_def)
  then show ?thesis by blast
qed simp

theorem exhausted_pool_with_dead_loop_never_lends_witness:
  "BorrowStream dropper (\<lambda>_. False) 0 1000 (sample_pool True LoopNotRunning [] [1, 0]) = None \<and>
   dropper 1 (sample_pool True LoopNotRunning [] [1, 0]) \<noteq> sample_pool True LoopNotRunning [] [1, 0]"
proof
  show "BorrowStream dropper (\<lambda>_. False) 0 1000 (sample_pool True LoopNotRunning [] [1, 0]) = None"
    by (rule exhausted_pool_with_dead_loop_never_lends [THEN conjunct2, OF _ _ _ _ _ _ dropper_step])
       (simp_all add: sample_pool_def)
  have "sp_currentSize (dropper 1 (sample_pool True LoopNotRunning [] [1, 0])) = 1"
    by (simp add: dropper_def DropStream_def sample_pool_def)
  then show "dropper 1 (sample_pool True LoopNotRunning [] [1, 0]) \<noteq> sample_pool True LoopNotRunning [] [1, 0]"
    by (auto simp: sample_pool_def)
qed

end
