(* ===== verification/Send_Stream_Pool_Manager.thy ===== *)
theory Send_Stream_Pool_Manager
  imports RB_Prelude
begin

text \<open>
  \<open>components/send_stream_pool_manager.go\<close>: the pool of each connection of each peer. A pool
  is a handle; \<open>idle\<close> is what its \<open>IdleSize()\<close> answers and \<open>closeErr\<close> what its \<open>Close()\<close>
  returns. The contract of \<open>manager.SendStreamPoolManager\<close> is the locale
  \<open>send_stream_pool_manager\<close>.
\<close>

section \<open>The contract\<close>

datatype pool_mgr_error =
    ErrSendStreamPoolHasSet
  | ErrSendStreamPoolNotSet
  | PoolCloseError string

text \<open>\<open>pool_of m pid c\<close> is the pool kept for the connection \<open>c\<close> of the peer \<open>pid\<close>.\<close>

locale send_stream_pool_manager =
  fixes invar :: "'m \<Rightarrow> bool"
    and pool_of :: "'m \<Rightarrow> peer_id \<Rightarrow> handle \<rightharpoonup> handle"
    and add :: "'m \<Rightarrow> peer_id \<Rightarrow> handle \<Rightarrow> handle \<Rightarrow> 'm \<times> pool_mgr_error option"
    and remove :: "(handle \<Rightarrow> string option) \<Rightarrow> 'm \<Rightarrow> peer_id \<Rightarrow> handle
      \<Rightarrow> 'm \<times> handle list \<times> pool_mgr_error option"
  assumes add_law: "invar m \<Longrightarrow> add m pid c p = (m', e) \<Longrightarrow> invar m' \<and>
      (if pool_of m pid c = None
       then e = None \<and> pool_of m' = (pool_of m)(pid := (pool_of m pid)(c \<mapsto> p))
       else e = Some ErrSendStreamPoolHasSet \<and> pool_of m' = pool_of m)"
    and remove_law: "invar m \<Longrightarrow> remove err m pid c = (m', closed, e) \<Longrightarrow> invar m' \<and>
      (case pool_of m pid c of
         None \<Rightarrow> e = Some ErrSendStreamPoolNotSet \<and> closed = [] \<and> pool_of m' = pool_of m
       | Some p \<Rightarrow> e = map_option PoolCloseError (err p) \<and> closed = [p] \<and>
           pool_of m' = (pool_of m)(pid := (pool_of m pid)(c := None)))"
begin

lemma remove_after_add:
  assumes "invar m" and "pool_of m pid c = None"
    and "add m pid c p = (m1, e1)" and "remove err m1 pid c = (m2, closed, e2)"
  shows "e1 = None \<and> closed = [p] \<and> pool_of m2 = pool_of m"
  using add_law [OF assms(1,3)] assms(2) remove_law [OF _ assms(4)]
  by (auto simp: fun_eq_iff)

lemma second_add_refused:
  "invar m \<Longrightarrow> add m pid c p = (m1, e1) \<Longrightarrow> add m1 pid c q = (m2, e2) \<Longrightarrow>
     e2 = Some ErrSendStreamPoolHasSet \<and> pool_of m2 = pool_of m1"
  using add_law [of m pid c p m1 e1] add_law [of m1 pid c q m2 e2] by (auto split: if_splits)

lemma second_remove_closes_nothing:
  "invar m \<Longrightarrow> remove err m pid c = (m1, cl1, e1) \<Longrightarrow> remove err m1 pid c = (m2, cl2, e2) \<Longrightarrow>
     cl2 = [] \<and> e2 = Some ErrSendStreamPoolNotSet"
  using remove_law [of m err pid c m1 cl1 e1] remove_law [of m1 err pid c m2 cl2 e2]
  by (auto split: option.splits)

end

section \<open>The manager of the code\<close>

record pool_manager =
  pm_pools :: "peer_id \<rightharpoonup> (handle \<rightharpoonup> handle)"

definition NewSendStreamPoolManager :: pool_manager where
  "NewSendStreamPoolManager = \<lparr>pm_pools = Map.empty\<rparr>"

definition spm_Reset :: "pool_manager \<Rightarrow> pool_manager" where
  "spm_Reset s = s\<lparr>pm_pools := Map.empty\<rparr>"

definition AddPeerConnSendStreamPool ::
  "pool_manager \<Rightarrow> peer_id \<Rightarrow> handle \<Rightarrow> handle \<Rightarrow> pool_manager \<times> pool_mgr_error option" where
  "AddPeerConnSendStreamPool s pid conn sendStreamPool =
     (let connM = (case pm_pools s pid of Some m \<Rightarrow> m | None \<Rightarrow> Map.empty);
          s' = (case pm_pools s pid of
                  Some m \<Rightarrow> s | None \<Rightarrow> s\<lparr>pm_pools := (pm_pools s)(pid \<mapsto> connM)\<rparr>)
      in case connM conn of
           Some _ \<Rightarrow> (s', Some ErrSendStreamPoolHasSet)
         | None \<Rightarrow> (s'\<lparr>pm_pools := (pm_pools s')(pid \<mapsto> connM(conn \<mapsto> sendStreamPool))\<rparr>, None))"

text \<open>The second component lists the pools on which \<open>Close\<close> is called.\<close>

definition RemovePeerConnAndCloseSendStreamPool ::
  "(handle \<Rightarrow> string option) \<Rightarrow> pool_manager \<Rightarrow> peer_id \<Rightarrow> handle
   \<Rightarrow> pool_manager \<times> handle list \<times> pool_mgr_error option" where
  "RemovePeerConnAndCloseSendStreamPool closeErr s pid conn =
     (case pm_pools s pid of
        None \<Rightarrow> (s, [], Some ErrSendStreamPoolNotSet)
      | Some connM \<Rightarrow> (case connM conn of
            None \<Rightarrow> (s, [], Some ErrSendStreamPoolNotSet)
          | Some pool \<Rightarrow>
              (let connM' = connM(conn := None)
               in (if connM' = Map.empty then s\<lparr>pm_pools := (pm_pools s)(pid := None)\<rparr>
                   else s\<lparr>pm_pools := (pm_pools s)(pid \<mapsto> connM')\<rparr>,
                   [pool], map_option PoolCloseError (closeErr pool)))))"

text \<open>
  \<open>order\<close> lists the entries of the inner map in the order the range visits them. The address
  of the chosen connection is read for the log: a nil connection there panics.
\<close>

fun best_loop :: "(handle \<Rightarrow> int) \<Rightarrow> (handle \<times> handle) list \<Rightarrow> int \<times> (handle \<times> handle) option
   \<Rightarrow> int \<times> (handle \<times> handle) option" where
  "best_loop idle [] acc = acc"
| "best_loop idle ((c, pool) # rest) (idleSize, best) =
     (if idleSize \<le> idle pool then best_loop idle rest (idle pool, Some (c, pool))
      else best_loop idle rest (idleSize, best))"

definition GetPeerBestConnSendStreamPool ::
  "(handle \<Rightarrow> int) \<Rightarrow> (handle \<times> handle) list \<Rightarrow> pool_manager \<Rightarrow> peer_id \<Rightarrow> handle option run" where
  "GetPeerBestConnSendStreamPool idle order s pid =
     (case pm_pools s pid of
        None \<Rightarrow> Returns None
      | Some connM \<Rightarrow> (case snd (best_loop idle order (0, None)) of
            None \<Rightarrow> Panics NilDereference
          | Some (conn, pool) \<Rightarrow> Returns (Some pool)))"

section \<open>Invariant and contract\<close>

definition spm_wf :: "pool_manager \<Rightarrow> bool" where
  "spm_wf s \<longleftrightarrow> (\<forall>pid cm. pm_pools s pid = Some cm \<longrightarrow> finite (dom cm) \<and> cm \<noteq> Map.empty)"

definition spm_view :: "pool_manager \<Rightarrow> peer_id \<Rightarrow> handle \<rightharpoonup> handle" where
  "spm_view s pid = (case pm_pools s pid of None \<Rightarrow> Map.empty | Some cm \<Rightarrow> cm)"

lemma Add_pool:
  assumes wf: "spm_wf s"
  shows "AddPeerConnSendStreamPool s pid c p =
     (if spm_view s pid c = None
      then (s\<lparr>pm_pools := (pm_pools s)(pid \<mapsto> (spm_view s pid)(c \<mapsto> p))\<rparr>, None)
      else (s, Some ErrSendStreamPoolHasSet))"
  by (auto simp: AddPeerConnSendStreamPool_def spm_view_def Let_def split: option.split)

lemma spm_view_upd:
  "spm_view (s\<lparr>pm_pools := (pm_pools s)(pid := x)\<rparr>) =
     (spm_view s)(pid := (case x of None \<Rightarrow> Map.empty | Some cm \<Rightarrow> cm))"
  by (rule ext) (simp add: spm_view_def)

lemma spm_wf_upd:
  "spm_wf s \<Longrightarrow> (case x of None \<Rightarrow> True | Some cm \<Rightarrow> finite (dom cm) \<and> cm \<noteq> Map.empty) \<Longrightarrow>
     spm_wf (s\<lparr>pm_pools := (pm_pools s)(pid := x)\<rparr>)"
  unfolding spm_wf_def by (cases x) simp_all

lemma spm_wf_entry:
  "spm_wf s \<Longrightarrow> finite (dom (spm_view s pid))"
  "spm_wf s \<Longrightarrow> pm_pools s pid = Some cm \<Longrightarrow> \<exists>c p. cm c = Some p"
  unfolding spm_wf_def spm_view_def by (cases "pm_pools s pid"; force)+

interpretation spm: send_stream_pool_manager spm_wf spm_view AddPeerConnSendStreamPool
    RemovePeerConnAndCloseSendStreamPool
proof (unfold_locales, goal_cases)
  case (1 m pid c p m' e)
  have "spm_wf (m\<lparr>pm_pools := (pm_pools m)(pid \<mapsto> (spm_view m pid)(c \<mapsto> p))\<rparr>)"
    using 1(1) by (rule spm_wf_upd) (simp add: spm_wf_entry(1) [OF 1(1)])
  then show ?case using 1 Add_pool [OF 1(1), of pid c p] by (auto simp: spm_view_upd split: if_splits)
next
  case (2 m err pid c m' closed e)
  show ?case
  proof (cases "spm_view m pid c")
    case None
    then show ?thesis using 2
      by (auto simp: RemovePeerConnAndCloseSendStreamPool_def spm_view_def split: option.splits)
  next
    case (Some p)
    then obtain cm where cm: "pm_pools m pid = Some cm" "cm c = Some p" "spm_view m pid = cm"
      by (cases "pm_pools m pid") (simp_all add: spm_view_def)
    have fin: "finite (dom cm)" using spm_wf_entry(1) [OF 2(1), of pid] cm(3) by simp
    define x where "x = (if cm(c := None) = Map.empty then None else Some (cm(c := None)))"
    have m': "m' = m\<lparr>pm_pools := (pm_pools m)(pid := x)\<rparr>" "closed = [p]" "e = map_option PoolCloseError (err p)"
      using 2(2) cm(1,2) by (simp_all add: RemovePeerConnAndCloseSendStreamPool_def Let_def x_def split: if_splits)
    have "spm_wf m'" unfolding m'(1)
      by (rule spm_wf_upd [OF 2(1)]) (simp add: x_def fin)
    moreover have "spm_view m' = (spm_view m)(pid := cm(c := None))"
      by (simp add: m'(1) spm_view_upd x_def)
    ultimately show ?thesis using Some cm(3) m'(2,3) by simp
  qed
qed

lemma best_loop_result:
  "best_loop idle xs (i, b) = (i', b') \<Longrightarrow>
     i \<le> i' \<and> (\<forall>(c, p)\<in>set xs. idle p \<le> i') \<and>
     ((b' = b \<and> i' = i \<and> (\<forall>(c, p)\<in>set xs. idle p < i)) \<or>
      (\<exists>(c, p)\<in>set xs. b' = Some (c, p) \<and> i' = idle p))"
proof (induction idle xs "(i, b)" arbitrary: i b rule: best_loop.induct)
  case (2 idle c pool rest i b)
  then show ?case by (fastforce split: if_splits)
qed simp

section \<open>Properties\<close>

text \<open>
  \<open>GetPeerBestConnSendStreamPool\<close> returns nil exactly when the peer has no pool; otherwise,
  whatever the order of the map, it returns one of the peer's pools with at least as many idle
  streams as every other, and does not panic, as long as idle counts are not negative.
\<close>

theorem best_pool_has_most_idle_streams:
  assumes wf: "spm_wf s" and idle: "\<forall>p. 0 \<le> idle p"
    and order: "set order = {(c, p). spm_view s pid c = Some p}"
  shows "case GetPeerBestConnSendStreamPool idle order s pid of
      Panics _ \<Rightarrow> False
    | Returns None \<Rightarrow> \<forall>c. spm_view s pid c = None
    | Returns (Some p) \<Rightarrow> p \<in> ran (spm_view s pid) \<and> (\<forall>q\<in>ran (spm_view s pid). idle q \<le> idle p)"
proof (cases "pm_pools s pid")
  case None
  then show ?thesis by (simp add: GetPeerBestConnSendStreamPool_def spm_view_def)
next
  case (Some cm)
  obtain i b where b: "best_loop idle order (0, None) = (i, b)" by fastforce
  from spm_wf_entry(2) [OF wf Some] obtain c p where "(c, p) \<in> set order"
    by (auto simp: order spm_view_def Some)
  then have "\<not> (\<forall>(c, p)\<in>set order. idle p < 0)"
    using idle by (metis (mono_tags, lifting) case_prodD not_less)
  with best_loop_result [OF b] obtain d q where
    q: "(d, q) \<in> set order" "b = Some (d, q)" "i = idle q" "\<forall>(c, p)\<in>set order. idle p \<le> i" by auto
  then have "q \<in> ran (spm_view s pid)" "\<forall>p\<in>ran (spm_view s pid). idle p \<le> idle q"
    by (auto simp: order ran_def)
  then show ?thesis by (simp add: GetPeerBestConnSendStreamPool_def Some b q(2))
qed

theorem best_pool_has_most_idle_streams_witness:
  "GetPeerBestConnSendStreamPool (\<lambda>p. if p = 11 then 3 else 1) [(2, 12), (1, 11)]
     \<lparr>pm_pools = [''you'' \<mapsto> [1 \<mapsto> 11, 2 \<mapsto> 12]]\<rparr> ''you'' = Returns (Some 11)"
proof -
  let ?s = "\<lparr>pm_pools = [''you'' \<mapsto> [1 \<mapsto> 11, 2 \<mapsto> 12]]\<rparr>"
  have wf: "spm_wf ?s" by (simp add: spm_wf_def)
  have "set [(2, 12), (1, 11)] = {(c, p). spm_view ?s ''you'' c = Some p}"
    by (auto simp: spm_view_def split: if_splits)
  from best_pool_has_most_idle_streams [OF wf _ this, of "\<lambda>p. if p = 11 then 3 else 1"]
  show ?thesis by (simp add: GetPeerBestConnSendStreamPool_def)
qed

text \<open>
  A connection has at most one pool for its whole life in the manager: the first pool added
  is the one kept, a second one is refused and changes nothing, removal closes exactly the
  pool kept and a second removal closes nothing and reports that there is none; no call
  touches another connection or another peer.
\<close>

theorem one_pool_per_connection:
  assumes wf: "spm_wf s" and new: "spm_view s pid c = None"
    and a1: "AddPeerConnSendStreamPool s pid c p = (s1, e1)"
    and a2: "AddPeerConnSendStreamPool s1 pid c q = (s2, e2)"
    and r1: "RemovePeerConnAndCloseSendStreamPool err s2 pid c = (s3, closed1, e3)"
    and r2: "RemovePeerConnAndCloseSendStreamPool err s3 pid c = (s4, closed2, e4)"
  shows "e1 = None \<and> spm_view s1 = (spm_view s)(pid := (spm_view s pid)(c \<mapsto> p)) \<and>
         e2 = Some ErrSendStreamPoolHasSet \<and> closed1 = [p] \<and> e3 = map_option PoolCloseError (err p) \<and>
         closed2 = [] \<and> e4 = Some ErrSendStreamPoolNotSet \<and> spm_view s4 = spm_view s \<and> spm_wf s4"
proof -
  have 1: "spm_wf s1" "e1 = None" "spm_view s1 = (spm_view s)(pid := (spm_view s pid)(c \<mapsto> p))"
    using spm.add_law [OF wf a1] new by simp_all
  have 2: "spm_wf s2" "e2 = Some ErrSendStreamPoolHasSet" "spm_view s2 = spm_view s1"
    using spm.add_law [OF 1(1) a2] 1(3) by simp_all
  have 3: "spm_wf s3" "closed1 = [p]" "e3 = map_option PoolCloseError (err p)"
    "spm_view s3 = (spm_view s2)(pid := (spm_view s2 pid)(c := None))"
    using spm.remove_law [OF 2(1) r1] 1(3) 2(3) by simp_all
  have 4: "closed2 = []" "e4 = Some ErrSendStreamPoolNotSet" "spm_view s4 = spm_view s3" "spm_wf s4"
    using spm.remove_law [OF 3(1) r2] 3(4) by simp_all
  have "spm_view s4 = spm_view s"
    using new by (simp add: 4(3) 3(4) 2(3) 1(3) fun_eq_iff)
  with 1 2 3 4 show ?thesis by simp
qed

theorem one_pool_per_connection_witness:
  "snd (AddPeerConnSendStreamPool (fst (AddPeerConnSendStreamPool NewSendStreamPoolManager ''you'' 1 11)) ''you'' 1 12)
     = Some ErrSendStreamPoolHasSet"
proof -
  have wf: "spm_wf NewSendStreamPoolManager"
    by (simp add: spm_wf_def NewSendStreamPoolManager_def)
  have new: "spm_view NewSendStreamPoolManager ''you'' 1 = None"
    by (simp add: spm_view_def NewSendStreamPoolManager_def)
  show ?thesis
    using one_pool_per_connection [OF wf new prod.collapse [symmetric] prod.collapse [symmetric]
        surjective_pairing [THEN trans, OF arg_cong2 [where f = Pair, OF refl prod.collapse [symmetric]]]
        surjective_pairing [THEN trans, OF arg_cong2 [where f = Pair, OF refl prod.collapse [symmetric]]]]
    by blast
qed

end
