(* ===== verification/Payload_Package.thy ===== *)
theory Payload_Package
  imports RB_Prelude
begin

text \<open>
  \<open>core/protocol/payload_package.go\<close>: the package in which a payload travels. \<open>bytes.Reader\<close>
  and \<open>make\<close> of Go's library are modelled as they behave. The integer coding and the
  compression of rainbowcat are parameters collected in a record; \<open>codec_laws\<close> states what the
  code relies on: eight bytes per integer (\<open>util/stream.go\<close>: "8 bytes in big-endian format"),
  and that decoding undoes encoding and decompression compression.
\<close>

section \<open>Go's library\<close>

text \<open>A \<open>bytes.Reader\<close> is what it has not read yet. \<open>None\<close> is \<open>io.EOF\<close>.\<close>

definition reader_Read :: "nat \<Rightarrow> bytes \<Rightarrow> (bytes \<times> bytes) option" where
  "reader_Read n r = (if r = [] then None else Some (take n r, drop n r))"

definition reader_ReadByte :: "bytes \<Rightarrow> (char \<times> bytes) option" where
  "reader_ReadByte r = (case r of [] \<Rightarrow> None | c # r' \<Rightarrow> Some (c, r'))"

text \<open>What a buffer holds after a read put \<open>got\<close> at its start.\<close>

definition filled :: "bytes \<Rightarrow> bytes \<Rightarrow> bytes" where
  "filled got buf = got @ drop (length got) buf"

text \<open>\<open>make([]byte, n)\<close> panics for a negative length or one above the limit of the runtime.\<close>

definition make_bytes :: "int \<Rightarrow> int \<Rightarrow> bytes run" where
  "make_bytes maxSlice n =
     (if n < 0 \<or> maxSlice < n then Panics MakeSliceLenOutOfRange
      else Returns (replicate (nat n) (CHR 0x00)))"

section \<open>The code's library\<close>

datatype pkg_error =
    ErrUnknownCompressType
  | ErrInvalidDataLength
  | ErrEOF
  | ErrGzip string

record codec =
  intToBytes :: "int \<Rightarrow> bytes"
  bytesToInt :: "bytes \<Rightarrow> int"
  gzipCompress :: "bytes \<Rightarrow> string + bytes"
  gzipDecompress :: "bytes \<Rightarrow> bytes \<times> string option"

definition codec_laws :: "codec \<Rightarrow> bool" where
  "codec_laws K \<longleftrightarrow>
     (\<forall>n. length (intToBytes K n) = 8) \<and>
     (\<forall>n. 0 \<le> n \<and> n < 2 ^ 63 \<longrightarrow> bytesToInt K (intToBytes K n) = n) \<and>
     (\<forall>x y. gzipCompress K x = Inr y \<longrightarrow> gzipDecompress K y = (x, None))"

section \<open>The package\<close>

text \<open>\<open>CompressType\<close> is a \<open>uint8\<close>, kept as the byte that is sent.\<close>

type_synonym compress_type = char

definition CompressTypeNone :: compress_type where "CompressTypeNone = CHR 0x00"
definition CompressTypeGzip :: compress_type where "CompressTypeGzip = CHR 0x01"

record payload_pkg =
  pkg_protocol :: protocol_id
  pkg_payload :: bytes
  pkg_compressType :: compress_type

definition NewPayloadPackage :: "protocol_id \<Rightarrow> bytes \<Rightarrow> compress_type \<Rightarrow> payload_pkg" where
  "NewPayloadPackage p d c = \<lparr>pkg_protocol = p, pkg_payload = d, pkg_compressType = c\<rparr>"

definition finalPayload :: "codec \<Rightarrow> payload_pkg \<Rightarrow> pkg_error + bytes" where
  "finalPayload K p =
     (if pkg_compressType p = CompressTypeNone then Inr (pkg_payload p)
      else if pkg_compressType p = CompressTypeGzip
      then (case gzipCompress K (pkg_payload p) of Inl e \<Rightarrow> Inl (ErrGzip e) | Inr bz \<Rightarrow> Inr bz)
      else Inl ErrUnknownCompressType)"

definition Marshal :: "codec \<Rightarrow> payload_pkg \<Rightarrow> pkg_error + bytes" where
  "Marshal K p =
     (case finalPayload K p of
        Inl e \<Rightarrow> Inl e
      | Inr final \<Rightarrow>
          Inr (intToBytes K (int (length (pkg_protocol p))) @ pkg_protocol p
               @ intToBytes K (int (length final)) @ final @ [pkg_compressType p]))"

text \<open>
  \<open>Unmarshal\<close> overwrites the receiver as it goes: the result is the receiver as it is left, and
  the error. The second length is read into the buffer that still holds the first.
\<close>

definition unmarshal_tail ::
  "codec \<Rightarrow> payload_pkg \<Rightarrow> bytes \<Rightarrow> bytes \<Rightarrow> payload_pkg \<times> pkg_error option" where
  "unmarshal_tail K p payloadBz r =
     (case reader_ReadByte r of
        None \<Rightarrow> (p, Some ErrEOF)
      | Some (ct, _) \<Rightarrow>
          (let p' = p\<lparr>pkg_compressType := ct\<rparr>
           in if ct = CompressTypeNone then (p'\<lparr>pkg_payload := payloadBz\<rparr>, None)
              else if ct = CompressTypeGzip
              then (let (bz, err) = gzipDecompress K payloadBz
                    in (p'\<lparr>pkg_payload := bz\<rparr>, map_option ErrGzip err))
              else (p', Some ErrUnknownCompressType)))"

definition unmarshal_payload ::
  "codec \<Rightarrow> int \<Rightarrow> payload_pkg \<Rightarrow> bytes \<Rightarrow> bytes \<Rightarrow> (payload_pkg \<times> pkg_error option) run" where
  "unmarshal_payload K maxSlice p lengthBz r =
     (case reader_Read 8 r of
        None \<Rightarrow> Returns (p, Some ErrEOF)
      | Some (got, r1) \<Rightarrow>
          (let lengthBz' = filled got lengthBz
           in run_bind (make_bytes maxSlice (bytesToInt K lengthBz')) (\<lambda>buf.
                case reader_Read (length buf) r1 of
                  None \<Rightarrow> Returns (p, Some ErrEOF)
                | Some (got2, r2) \<Rightarrow> Returns (unmarshal_tail K p (filled got2 buf) r2))))"

definition Unmarshal ::
  "codec \<Rightarrow> int \<Rightarrow> payload_pkg \<Rightarrow> bytes \<Rightarrow> (payload_pkg \<times> pkg_error option) run" where
  "Unmarshal K maxSlice p bz =
     (if length bz \<le> 17 then Returns (p, Some ErrInvalidDataLength)
      else (case reader_Read 8 bz of
              None \<Rightarrow> Returns (p, Some ErrEOF)
            | Some (got, r1) \<Rightarrow>
                (let lengthBz = filled got (replicate 8 (CHR 0x00))
                 in run_bind (make_bytes maxSlice (bytesToInt K lengthBz)) (\<lambda>buf.
                      case reader_Read (length buf) r1 of
                        None \<Rightarrow> Returns (p, Some ErrEOF)
                      | Some (got2, r2) \<Rightarrow>
                          unmarshal_payload K maxSlice (p\<lparr>pkg_protocol := filled got2 buf\<rparr>) lengthBz r2))))"

section \<open>Lemmas\<close>

lemma compress_types [simp]: "CompressTypeGzip \<noteq> CompressTypeNone" "CompressTypeNone \<noteq> CompressTypeGzip"
  by (simp_all add: CompressTypeNone_def CompressTypeGzip_def)

lemma filled_whole [simp]: "length got = length buf \<Longrightarrow> filled got buf = got"
  by (simp add: filled_def)

lemma length_filled: "length got \<le> length buf \<Longrightarrow> length (filled got buf) = length buf"
  by (simp add: filled_def)

lemma reader_Read_append: "xs @ ys \<noteq> [] \<Longrightarrow> length xs = n \<Longrightarrow> reader_Read n (xs @ ys) = Some (xs, ys)"
  by (simp add: reader_Read_def)

lemma make_bytes_Returns:
  "make_bytes maxSlice n = Returns buf \<longleftrightarrow> 0 \<le> n \<and> n \<le> maxSlice \<and> buf = replicate (nat n) (CHR 0x00)"
  by (auto simp: make_bytes_def)

lemma unmarshal_tail_ok:
  "unmarshal_tail K p pay r = (q, None) \<Longrightarrow>
     \<exists>ct rest. r = ct # rest \<and> pkg_protocol q = pkg_protocol p \<and> pkg_compressType q = ct \<and>
       (ct = CompressTypeNone \<and> pkg_payload q = pay \<or>
        ct = CompressTypeGzip \<and> gzipDecompress K pay = (pkg_payload q, None))"
  by (auto simp: unmarshal_tail_def reader_ReadByte_def Let_def case_prod_unfold prod_eq_iff
      split: list.splits if_splits)

lemma read_all_or_nothing_left:
  assumes "reader_Read n r = Some (got, r')"
  shows "r = got @ r' \<and> length got \<le> n \<and> (length got = n \<or> r' = [])"
  using assms by (auto simp: reader_Read_def split: if_splits)

lemma unmarshal_payload_ok:
  assumes "unmarshal_payload K maxSlice p lengthBz r = Returns (q, None)"
    and "length lengthBz = 8"
  shows "\<exists>l pay ct rest. r = l @ pay @ ct # rest \<and> length l = 8 \<and> bytesToInt K l = int (length pay) \<and>
     pkg_protocol q = pkg_protocol p \<and> pkg_compressType q = ct \<and>
     (ct = CompressTypeNone \<and> pkg_payload q = pay \<or>
      ct = CompressTypeGzip \<and> gzipDecompress K pay = (pkg_payload q, None))"
proof -
  obtain l r1 where l: "reader_Read 8 r = Some (l, r1)"
    using assms(1) by (auto simp: unmarshal_payload_def split: option.splits)
  obtain buf pay r2 where b: "make_bytes maxSlice (bytesToInt K (filled l lengthBz)) = Returns buf"
      "reader_Read (length buf) r1 = Some (pay, r2)"
      "unmarshal_tail K p (filled pay buf) r2 = (q, None)"
    using assms(1) l
    by (auto simp: unmarshal_payload_def Let_def run_bind_Returns_iff split: option.splits)
  obtain ct rest where t: "r2 = ct # rest" "pkg_protocol q = pkg_protocol p" "pkg_compressType q = ct"
      "ct = CompressTypeNone \<and> pkg_payload q = filled pay buf \<or>
       ct = CompressTypeGzip \<and> gzipDecompress K (filled pay buf) = (pkg_payload q, None)"
    using unmarshal_tail_ok [OF b(3)] by blast
  note 1 = read_all_or_nothing_left [OF l] and 2 = read_all_or_nothing_left [OF b(2)]
  have "r1 \<noteq> []" using b(2) by (auto simp: reader_Read_def)
  then have l8: "length l = 8" using 1 by auto
  have pay: "length pay = length buf" using 2 t(1) by auto
  have "bytesToInt K l = int (length pay)"
    using b(1) l8 assms(2) pay by (auto simp: make_bytes_Returns)
  then show ?thesis using 1 2 l8 t pay
    by (intro exI [of _ l] exI [of _ pay] exI [of _ ct] exI [of _ rest]) auto
qed

lemma Unmarshal_accepts:
  assumes "Unmarshal K maxSlice p bz = Returns (q, None)"
  shows "\<exists>l1 l2 pay ct rest. bz = l1 @ pkg_protocol q @ l2 @ pay @ ct # rest \<and>
     length l1 = 8 \<and> bytesToInt K l1 = int (length (pkg_protocol q)) \<and>
     length l2 = 8 \<and> bytesToInt K l2 = int (length pay) \<and> pkg_compressType q = ct \<and>
     (ct = CompressTypeNone \<and> pkg_payload q = pay \<or>
      ct = CompressTypeGzip \<and> gzipDecompress K pay = (pkg_payload q, None))"
proof -
  have long: "17 < length bz" using assms by (auto simp: Unmarshal_def split: if_splits)
  obtain l1 r1 where l: "reader_Read 8 bz = Some (l1, r1)"
    using assms by (auto simp: Unmarshal_def split: option.splits if_splits)
  note 1 = read_all_or_nothing_left [OF l]
  have l8: "length l1 = 8" using l long by (auto simp: reader_Read_def split: if_splits)
  obtain buf pr r2 where b: "make_bytes maxSlice (bytesToInt K l1) = Returns buf"
      "reader_Read (length buf) r1 = Some (pr, r2)"
      "unmarshal_payload K maxSlice (p\<lparr>pkg_protocol := filled pr buf\<rparr>) l1 r2 = Returns (q, None)"
    using assms l l8 long
    by (auto simp: Unmarshal_def Let_def run_bind_Returns_iff split: option.splits)
  note 2 = read_all_or_nothing_left [OF b(2)]
  from unmarshal_payload_ok [OF b(3) l8] obtain l2 pay ct rest where u:
      "r2 = l2 @ pay @ ct # rest" "length l2 = 8" "bytesToInt K l2 = int (length pay)"
      "pkg_protocol q = filled pr buf" "pkg_compressType q = ct"
      "ct = CompressTypeNone \<and> pkg_payload q = pay \<or>
       ct = CompressTypeGzip \<and> gzipDecompress K pay = (pkg_payload q, None)" by auto
  have "length pr = length buf" using 2 u(1) by auto
  then have "pkg_protocol q = pr" "bytesToInt K l1 = int (length pr)"
    using u(4) b(1) by (auto simp: make_bytes_Returns)
  then show ?thesis using 1 2 l8 u by (intro exI [of _ l1] exI [of _ l2] exI [of _ pay]) auto
qed

lemma unmarshal_tail_Marshal:
  assumes "codec_laws K" and "finalPayload K p = Inr final"
  shows "unmarshal_tail K (q\<lparr>pkg_protocol := pkg_protocol p\<rparr>) final [pkg_compressType p] = (p, None)"
  using assms
  by (auto simp: unmarshal_tail_def reader_ReadByte_def Let_def finalPayload_def codec_laws_def
      split: if_splits sum.splits)

lemma unmarshal_payload_Marshal:
  assumes K: "codec_laws K" and f: "finalPayload K p = Inr final" and l: "length lengthBz = 8"
    and fits: "int (length final) < 2 ^ 63" "int (length final) \<le> maxSlice"
  shows "unmarshal_payload K maxSlice (q\<lparr>pkg_protocol := pkg_protocol p\<rparr>) lengthBz
      (intToBytes K (int (length final)) @ final @ [pkg_compressType p]) = Returns (p, None)"
proof -
  have 8: "length (intToBytes K n) = 8" for n using K by (simp add: codec_laws_def)
  have dec: "bytesToInt K (intToBytes K (int (length final))) = int (length final)"
    using K fits by (simp add: codec_laws_def)
  have "reader_Read 8 (intToBytes K (int (length final)) @ final @ [pkg_compressType p]) =
      Some (intToBytes K (int (length final)), final @ [pkg_compressType p])"
    by (rule reader_Read_append) (simp_all add: 8)
  moreover have "reader_Read (length final) (final @ [pkg_compressType p]) =
      Some (final, [pkg_compressType p])"
    by (rule reader_Read_append) simp_all
  ultimately show ?thesis
    using fits by (simp add: unmarshal_payload_def make_bytes_def l 8 dec unmarshal_tail_Marshal [OF K f])
qed

lemma payload_round_trip:
  assumes K: "codec_laws K" and m: "Marshal K p = Inr bz"
    and fits: "int (length bz) < 2 ^ 63" "int (length bz) \<le> maxSlice"
  shows "Unmarshal K maxSlice q bz =
    (if pkg_protocol p = [] \<and> finalPayload K p = Inr []
     then Returns (q, Some ErrInvalidDataLength) else Returns (p, None))"
proof -
  obtain final where f: "finalPayload K p = Inr final"
    using m by (auto simp: Marshal_def split: sum.splits)
  let ?pr = "pkg_protocol p" and ?l1 = "intToBytes K (int (length (pkg_protocol p)))"
  let ?r2 = "intToBytes K (int (length final)) @ final @ [pkg_compressType p]"
  have bz: "bz = ?l1 @ ?pr @ ?r2" using m f by (simp add: Marshal_def)
  have 8: "length (intToBytes K n) = 8" for n using K by (simp add: codec_laws_def)
  have len: "length bz = 17 + length ?pr + length final" by (simp add: bz 8)
  have dec: "bytesToInt K ?l1 = int (length ?pr)" using K fits len by (simp add: codec_laws_def)
  have r1: "reader_Read 8 bz = Some (?l1, ?pr @ ?r2)"
    unfolding bz by (rule reader_Read_append) (simp_all add: 8)
  have r2: "reader_Read (length ?pr) (?pr @ ?r2) = Some (?pr, ?r2)"
    by (rule reader_Read_append) simp_all
  have "unmarshal_payload K maxSlice (q\<lparr>pkg_protocol := ?pr\<rparr>) ?l1 ?r2 = Returns (p, None)"
    by (rule unmarshal_payload_Marshal [OF K f]) (use fits len in \<open>simp_all add: 8\<close>)
  then have "17 < length bz \<Longrightarrow> Unmarshal K maxSlice q bz = Returns (p, None)"
    using fits len by (simp add: Unmarshal_def r1 8 dec make_bytes_def r2)
  moreover have "17 < length bz \<longleftrightarrow> \<not> (?pr = [] \<and> final = [])" using len by auto
  moreover have "\<not> 17 < length bz \<Longrightarrow> Unmarshal K maxSlice q bz = Returns (q, Some ErrInvalidDataLength)"
    by (simp add: Unmarshal_def)
  ultimately show ?thesis using f by auto
qed

section \<open>Properties\<close>

text \<open>
  C10. Round trip: what \<open>Marshal\<close> produces for a protocol and payload, compressed or not, is read
  back by \<open>Unmarshal\<close> into any receiver as exactly the same package, unless both the protocol and
  the payload to send are empty: that package is refused with \<open>ErrInvalidDataLength\<close>.
\<close>

theorem payload_package_round_trip:
  assumes K: "codec_laws K" and m: "Marshal K p = Inr bz"
    and fits: "int (length bz) < 2 ^ 63" "int (length bz) \<le> maxSlice"
  shows "Unmarshal K maxSlice q bz =
    (if pkg_protocol p = [] \<and> finalPayload K p = Inr []
     then Returns (q, Some ErrInvalidDataLength) else Returns (p, None))"
  by (rule payload_round_trip [OF assms])

text \<open>Big-endian integers and a compression that only marks its output, for the instances.\<close>

fun be_bytes :: "nat \<Rightarrow> nat \<Rightarrow> bytes" where
  "be_bytes 0 n = []"
| "be_bytes (Suc k) n = be_bytes k (n div 256) @ [char_of (n mod 256)]"

definition be_value :: "bytes \<Rightarrow> nat" where
  "be_value bz = foldl (\<lambda>acc c. acc * 256 + of_char c) 0 bz"

lemma length_be_bytes [simp]: "length (be_bytes k n) = k"
  by (induction k arbitrary: n) auto

lemma be_value_be_bytes: "n < 256 ^ k \<Longrightarrow> be_value (be_bytes k n) = n"
proof (induction k arbitrary: n)
  case (Suc k)
  have "n div 256 < 256 ^ k" using Suc.prems by (simp add: less_mult_imp_div_less mult.commute)
  from Suc.IH [OF this] show ?case by (simp add: be_value_def)
qed (simp add: be_value_def)

definition sample_codec :: codec where
  "sample_codec =
     \<lparr>intToBytes = (\<lambda>n. be_bytes 8 (nat n)), bytesToInt = (\<lambda>bz. int (be_value bz)),
      gzipCompress = (\<lambda>x. Inr (CHR ''z'' # x)),
      gzipDecompress = (\<lambda>y. case y of c # x \<Rightarrow> (x, None) | [] \<Rightarrow> ([], Some ''EOF''))\<rparr>"

lemma sample_codec_laws: "codec_laws sample_codec"
proof -
  have "int (be_value (be_bytes 8 (nat n))) = n" if "0 \<le> n" "n < 2 ^ 63" for n
    using that be_value_be_bytes [of "nat n" 8] by simp
  then show ?thesis by (simp add: codec_laws_def sample_codec_def)
qed

theorem payload_package_round_trip_witness:
  "case Marshal sample_codec (NewPayloadPackage ''/chat'' ''hi'' CompressTypeGzip) of
     Inl _ \<Rightarrow> False
   | Inr bz \<Rightarrow> Unmarshal sample_codec 1000 (NewPayloadPackage [] [] CompressTypeNone) bz =
       Returns (NewPayloadPackage ''/chat'' ''hi'' CompressTypeGzip, None)"
proof -
  let ?p = "NewPayloadPackage ''/chat'' ''hi'' CompressTypeGzip"
  obtain bz where bz: "Marshal sample_codec ?p = Inr bz" and len: "length bz = 25"
    by (simp add: Marshal_def finalPayload_def sample_codec_def NewPayloadPackage_def)
  have "Unmarshal sample_codec 1000 (NewPayloadPackage [] [] CompressTypeNone) bz = Returns (?p, None)"
    using payload_package_round_trip [OF sample_codec_laws bz, of 1000 "NewPayloadPackage [] [] CompressTypeNone"]
      len by (simp add: NewPayloadPackage_def)
  then show ?thesis by (simp only: bz sum.case)
qed

lemma Unmarshal_rejects_prefix:
  assumes K: "codec_laws K" and m: "Marshal K r = Inr whole" and fits: "int (length whole) < 2 ^ 63"
    and whole: "whole = bz @ missing" and "missing \<noteq> []"
  shows "Unmarshal K maxSlice p bz \<noteq> Returns (q, None)"
proof
  assume "Unmarshal K maxSlice p bz = Returns (q, None)"
  from Unmarshal_accepts [OF this] obtain l1 l2 pay ct rest where u:
      "bz = l1 @ pkg_protocol q @ l2 @ pay @ ct # rest" "length l1 = 8"
      "bytesToInt K l1 = int (length (pkg_protocol q))" "length l2 = 8"
      "bytesToInt K l2 = int (length pay)" by blast
  obtain final where f: "finalPayload K r = Inr final"
    using m by (auto simp: Marshal_def split: sum.splits)
  then have w: "whole = intToBytes K (int (length (pkg_protocol r))) @ pkg_protocol r
      @ intToBytes K (int (length final)) @ final @ [pkg_compressType r]"
    using m by (simp add: Marshal_def)
  have 8: "length (intToBytes K n) = 8" for n using K by (simp add: codec_laws_def)
  have small: "int (length (pkg_protocol r)) < 2 ^ 63" "int (length final) < 2 ^ 63"
    using fits w by simp_all
  have e: "l1 @ pkg_protocol q @ l2 @ pay @ ct # rest @ missing = whole" using whole u(1) by simp
  then have "l1 = intToBytes K (int (length (pkg_protocol r)))"
    and t: "pkg_protocol q @ l2 @ pay @ ct # rest @ missing =
      pkg_protocol r @ intToBytes K (int (length final)) @ final @ [pkg_compressType r]"
    using u(2) 8 by (simp_all add: w append_eq_append_conv)
  then have "length (pkg_protocol q) = length (pkg_protocol r)"
    using u(3) K small(1) by (simp add: codec_laws_def)
  then have t2: "l2 @ pay @ ct # rest @ missing =
      intToBytes K (int (length final)) @ final @ [pkg_compressType r]"
    using t by (simp add: append_eq_append_conv)
  then have "l2 = intToBytes K (int (length final))"
    and t3: "pay @ ct # rest @ missing = final @ [pkg_compressType r]"
    using u(4) 8 by (simp_all add: append_eq_append_conv)
  then have "length pay = length final" using u(5) K small(2) by (simp add: codec_laws_def)
  then have "rest @ missing = []" using t3 by (simp add: append_eq_append_conv)
  then show False using assms(5) by simp
qed

text \<open>
  C33. \<open>Unmarshal\<close> accepts only complete packages: whatever bytes it accepts are a protocol
  length, exactly that many bytes of protocol, a payload length, exactly that many bytes of
  payload and a known compression type, so nothing is ever made up from a truncated input:
  no proper prefix of a marshalled package is accepted.
\<close>

theorem unmarshal_accepts_only_complete_packages:
  assumes K: "codec_laws K"
  shows "(Unmarshal K maxSlice p bz = Returns (q, None) \<longrightarrow>
      (\<exists>l1 l2 pay ct rest. bz = l1 @ pkg_protocol q @ l2 @ pay @ ct # rest \<and>
         length l1 = 8 \<and> bytesToInt K l1 = int (length (pkg_protocol q)) \<and>
         length l2 = 8 \<and> bytesToInt K l2 = int (length pay) \<and> pkg_compressType q = ct \<and>
         (ct = CompressTypeNone \<and> pkg_payload q = pay \<or>
          ct = CompressTypeGzip \<and> gzipDecompress K pay = (pkg_payload q, None)))) \<and>
    (Marshal K r = Inr whole \<and> int (length whole) < 2 ^ 63 \<and> whole = bz @ missing \<and> missing \<noteq> [] \<longrightarrow>
      Unmarshal K maxSlice p bz \<noteq> Returns (q, None))"
  using Unmarshal_accepts [of K maxSlice p bz q] Unmarshal_rejects_prefix [OF K, of r whole bz missing maxSlice p q]
  by blast

theorem unmarshal_accepts_only_complete_packages_witness:
  "\<exists>whole. Marshal sample_codec (NewPayloadPackage ''/chat'' ''hi'' CompressTypeNone) = Inr whole \<and>
     length whole = 24 \<and>
     Unmarshal sample_codec 1000 (NewPayloadPackage [] [] CompressTypeNone) (take 20 whole) \<noteq>
       Returns (NewPayloadPackage ''/chat'' ''hi'' CompressTypeNone, None)"
proof -
  obtain whole where w: "Marshal sample_codec (NewPayloadPackage ''/chat'' ''hi'' CompressTypeNone) = Inr whole"
    and len: "length whole = 24"
    by (simp add: Marshal_def finalPayload_def sample_codec_def NewPayloadPackage_def)
  have "whole = take 20 whole @ drop 20 whole" "drop 20 whole \<noteq> []" using len by simp_all
  then have "Unmarshal sample_codec 1000 (NewPayloadPackage [] [] CompressTypeNone) (take 20 whole) \<noteq>
      Returns (NewPayloadPackage ''/chat'' ''hi'' CompressTypeNone, None)"
    using unmarshal_accepts_only_complete_packages [OF sample_codec_laws, THEN conjunct2, THEN mp,
        of "NewPayloadPackage ''/chat'' ''hi'' CompressTypeNone" whole "take 20 whole" "drop 20 whole"] w len
    by simp
  with w len show ?thesis by blast
qed

end
