(* ===== verification/Stream_IO.thy ===== *)
theory Stream_IO
  imports Payload_Package Util_Net "HOL-Library.Word"
begin

text \<open>
  \<open>util/stream.go\<close>, the reading of packages from a receive stream, and the loop of
  \<open>host.go: receiveStreamHandlerLoop\<close> that hands every package to the pipeline. A stream is the
  list of what its reads will find: a chunk of bytes, of which one read takes at most the size
  of its buffer, or an error. A stream at the end of the list blocks: \<open>Blocked\<close>. Lengths are
  64-bit unsigned words.
\<close>

section \<open>Streams\<close>

datatype event = Chunk bytes | Fail io_error

type_synonym stream = "event list"

datatype 'a io = Done 'a stream | Failed io_error stream | Blocked | Panicked panic

definition stream_Read :: "nat \<Rightarrow> stream \<Rightarrow> bytes io" where
  "stream_Read n s = (case s of
      [] \<Rightarrow> Blocked
    | Fail e # s' \<Rightarrow> Failed e s'
    | Chunk b # s' \<Rightarrow>
        if length b \<le> n then Done b s' else Done (take n b) (Chunk (drop n b) # s'))"

fun stream_size :: "stream \<Rightarrow> nat" where
  "stream_size [] = 0"
| "stream_size (Chunk b # s) = length b + 1 + stream_size s"
| "stream_size (Fail _ # s) = 1 + stream_size s"

lemma stream_Read_smaller:
  "stream_Read n s = Done b s' \<Longrightarrow> 0 < n \<Longrightarrow> stream_size s' < stream_size s \<and> length b \<le> n"
  by (auto simp: stream_Read_def split: list.splits event.splits if_splits)

section \<open>Reading\<close>

definition defaultBatchSize :: "64 word" where
  "defaultBatchSize = 4096"

text \<open>
  The loop of \<open>ReadPackageData\<close>: what is left to read, the batch size and the position in the
  result buffer are \<open>uint64\<close>; \<open>copy(result[readLength:], bytes[0:c])\<close> overwrites in place.
\<close>

definition copy_at :: "nat \<Rightarrow> bytes \<Rightarrow> bytes \<Rightarrow> bytes" where
  "copy_at i src buf = take i buf @ take (length buf - i) src @ drop (i + length src) buf"

function read_loop :: "64 word \<Rightarrow> 64 word \<Rightarrow> 64 word \<Rightarrow> bytes \<Rightarrow> stream \<Rightarrow> bytes io" where
  "read_loop len batchSize readLength result s =
     (if 0 < len
      then (let batch = (if len < batchSize then len else batchSize)
            in if batch = 0 then Blocked
               else case stream_Read (unat batch) s of
                 Done b s' \<Rightarrow>
                   (let c = of_nat (length b)
                    in read_loop (len - c) batch (readLength + c)
                         (copy_at (unat readLength) b result) s')
               | Failed e s' \<Rightarrow> Failed e s'
               | Blocked \<Rightarrow> Blocked
               | Panicked p \<Rightarrow> Panicked p)
      else Done result s)"
  by auto
termination
  by (relation "measure (\<lambda>(len, batch, readLength, result, s). stream_size s)")
     (auto simp: Let_def unat_gt_0 dest!: stream_Read_smaller split: if_splits)

declare read_loop.simps [simp del]

text \<open>
  A batch size of zero would read nothing for ever; it does not arise, because the loop starts
  with 4096 and only lowers it to a positive number of bytes left.
\<close>

definition ReadPackageData :: "int \<Rightarrow> stream \<Rightarrow> 64 word \<Rightarrow> bytes io" where
  "ReadPackageData maxSlice s len =
     (case make_bytes maxSlice (int (unat len)) of
        Panics p \<Rightarrow> Panicked p
      | Returns result \<Rightarrow> read_loop len defaultBatchSize 0 result s)"

definition ReadPackageLength :: "(bytes \<Rightarrow> 64 word) \<Rightarrow> int \<Rightarrow> stream \<Rightarrow> (64 word \<times> bytes) io" where
  "ReadPackageLength bytesToUint64 maxSlice s =
     (case ReadPackageData maxSlice s 8 of
        Done lengthBytes s' \<Rightarrow> Done (bytesToUint64 lengthBytes, lengthBytes) s'
      | Failed e s' \<Rightarrow> Failed e s'
      | Blocked \<Rightarrow> Blocked
      | Panicked p \<Rightarrow> Panicked p)"

lemma read_loop_size:
  "read_loop len batch rl result s = Done r s' \<Longrightarrow>
     stream_size s' \<le> stream_size s \<and> (0 < len \<longrightarrow> stream_size s' < stream_size s)"
proof (induction len batch rl result s rule: read_loop.induct)
  case (1 len batch rl result s)
  show ?case
  proof (cases "0 < len")
    case False
    then show ?thesis using 1(2) by (subst (asm) read_loop.simps) simp
  next
    case True
    let ?b = "if len < batch then len else batch"
    obtain b s1 where r: "?b \<noteq> 0" "stream_Read (unat ?b) s = Done b s1"
        "read_loop (len - of_nat (length b)) ?b (rl + of_nat (length b)) (copy_at (unat rl) b result) s1 = Done r s'"
      using 1(2) True by (subst (asm) read_loop.simps) (auto simp: Let_def split: io.splits if_splits)
    have "stream_size s' \<le> stream_size s1"
      using 1(1) [OF True refl r(1,2) refl r(3)] by simp
    moreover have "stream_size s1 < stream_size s"
      using stream_Read_smaller [OF r(2)] r(1) by (simp add: unat_gt_0)
    ultimately show ?thesis by simp
  qed
qed

lemma ReadPackageData_size:
  "ReadPackageData maxSlice s len = Done r s' \<Longrightarrow>
     stream_size s' \<le> stream_size s \<and> (0 < len \<longrightarrow> stream_size s' < stream_size s)"
  by (auto simp: ReadPackageData_def split: run.splits dest: read_loop_size)

lemma ReadPackageLength_size:
  "ReadPackageLength u maxSlice s = Done r s' \<Longrightarrow> stream_size s' < stream_size s"
  by (auto simp: ReadPackageLength_def split: io.splits dest!: ReadPackageData_size)

text \<open>
  The loop pushes every package it reads (with the remote peer, constant for a stream) and ends
  with the first error; it is blocked when the stream has nothing more, and a length the runtime
  cannot allocate is a panic that ends the goroutine.
\<close>

datatype loop_end = EndError io_error | EndBlocked | EndPanic panic

function receiveStreamHandlerLoop ::
  "(bytes \<Rightarrow> 64 word) \<Rightarrow> int \<Rightarrow> stream \<Rightarrow> bytes list \<times> loop_end" where
  "receiveStreamHandlerLoop u maxSlice s =
     (case ReadPackageLength u maxSlice s of
        Failed e _ \<Rightarrow> ([], EndError e)
      | Blocked \<Rightarrow> ([], EndBlocked)
      | Panicked p \<Rightarrow> ([], EndPanic p)
      | Done (dataLength, _) s1 \<Rightarrow>
          (case ReadPackageData maxSlice s1 dataLength of
             Failed e _ \<Rightarrow> ([], EndError e)
           | Blocked \<Rightarrow> ([], EndBlocked)
           | Panicked p \<Rightarrow> ([], EndPanic p)
           | Done dataBz s2 \<Rightarrow>
               (let (pushed, e) = receiveStreamHandlerLoop u maxSlice s2 in (dataBz # pushed, e))))"
  by auto
termination
  by (relation "measure (\<lambda>(u, maxSlice, s). stream_size s)")
     (auto dest!: ReadPackageLength_size ReadPackageData_size)

declare receiveStreamHandlerLoop.simps [simp del]

section \<open>What the reads deliver\<close>

text \<open>The bytes before the first error, and the stream from there.\<close>

fun avail :: "stream \<Rightarrow> bytes" where
  "avail (Chunk b # s) = b @ avail s"
| "avail _ = []"

fun after :: "stream \<Rightarrow> stream" where
  "after (Chunk b # s) = after s"
| "after s = s"

lemma after_cases: "after s = [] \<or> (\<exists>e t. after s = Fail e # t)"
  by (induction s rule: after.induct) auto

lemma stream_Read_Done:
  "stream_Read n s = Done b s' \<Longrightarrow> avail s = b @ avail s' \<and> after s' = after s \<and> length b \<le> n"
  by (auto simp: stream_Read_def split: list.splits event.splits if_splits)

lemma stream_Read_end:
  "stream_Read n s = Failed e s' \<Longrightarrow> avail s = [] \<and> after s = Fail e # s'"
  "stream_Read n s = Blocked \<Longrightarrow> avail s = [] \<and> after s = []"
  "stream_Read n s \<noteq> Panicked p"
  by (auto simp: stream_Read_def split: list.splits event.splits if_splits)

lemma copy_at_step:
  assumes "i + length b \<le> length buf"
  shows "length (copy_at i b buf) = length buf"
    and "take (i + length b) (copy_at i b buf) = take i buf @ b"
proof -
  have "take (length buf - i) b = b" using assms by simp
  then show "length (copy_at i b buf) = length buf"
    and "take (i + length b) (copy_at i b buf) = take i buf @ b"
    using assms by (simp_all add: copy_at_def)
qed

lemma unat_of_nat_small: "c < 2 ^ 64 \<Longrightarrow> unat (of_nat c :: 64 word) = c"
  by (simp add: unat_of_nat)

lemma unat_sub_count:
  fixes len :: "64 word"
  assumes "c \<le> unat len"
  shows "unat (len - of_nat c) = unat len - c"
proof -
  have "unat len < 2 ^ 64" using unsigned_less [of len] by simp
  then have c: "unat (of_nat c :: 64 word) = c"
    using assms by (intro unat_of_nat_small) simp
  then show ?thesis using assms by (simp add: unat_sub_if')
qed

lemma unat_add_count:
  fixes rl :: "64 word"
  assumes "unat rl + c < 2 ^ 64"
  shows "unat (rl + of_nat c) = unat rl + c"
proof -
  have c: "unat (of_nat c :: 64 word) = c"
    using assms by (intro unat_of_nat_small) simp
  have "unat (rl + of_nat c) = unat rl + unat (of_nat c :: 64 word)"
    by (rule unat_add_lem [THEN iffD1]) (use assms c in simp)
  then show ?thesis by (simp add: c)
qed

text \<open>
  The reference for a read of \<open>n\<close> bytes: the next \<open>n\<close> bytes of the stream if they arrive before
  an error, else that error, else waiting. \<open>delivers s n\<close> relates it to a result.
\<close>

definition delivers :: "stream \<Rightarrow> nat \<Rightarrow> bytes \<Rightarrow> bytes io \<Rightarrow> bool" where
  "delivers s n prefix r \<longleftrightarrow>
     (if n \<le> length (avail s)
      then \<exists>s'. r = Done (prefix @ take n (avail s)) s' \<and> avail s' = drop n (avail s) \<and> after s' = after s
      else (case after s of
              Fail e # t \<Rightarrow> r = Failed e t
            | _ \<Rightarrow> r = Blocked))"

lemma delivers_step:
  assumes "delivers s1 (n - length b) (prefix @ b) r" and "avail s = b @ avail s1"
    and "after s1 = after s" and "length b \<le> n"
  shows "delivers s n prefix r"
  using assms by (auto simp: delivers_def split: if_splits list.splits event.splits)

lemma read_loop_unfold:
  assumes "0 < len" and "(if len < batch then len else batch) \<noteq> 0"
  shows "read_loop len batch rl result s =
    (let b = if len < batch then len else batch
     in case stream_Read (unat b) s of
          Done bz s' \<Rightarrow> read_loop (len - of_nat (length bz)) b (rl + of_nat (length bz)) (copy_at (unat rl) bz result) s'
        | Failed e s' \<Rightarrow> Failed e s' | Blocked \<Rightarrow> Blocked | Panicked p \<Rightarrow> Panicked p)"
  using assms by (subst read_loop.simps) (simp add: Let_def cong: io.case_cong)

lemma read_counts:
  fixes len rl :: "64 word"
  assumes "stream_Read n s = Done b s'" and "n \<le> unat len"
    and "unat rl + unat len = length result" "length result < 2 ^ 64"
  shows "length b \<le> unat len" and "unat (len - of_nat (length b)) = unat len - length b"
    and "unat (rl + of_nat (length b)) = unat rl + length b" and "unat rl + length b \<le> length result"
proof -
  show len: "length b \<le> unat len" using stream_Read_Done [OF assms(1)] assms(2) by linarith
  show "unat (len - of_nat (length b)) = unat len - length b" by (rule unat_sub_count [OF len])
  show "unat (rl + of_nat (length b)) = unat rl + length b" by (rule unat_add_count) (use len assms(3,4) in linarith)
  show "unat rl + length b \<le> length result" using len assms(3) by linarith
qed

lemma read_loop_delivers:
  "unat rl + unat len = length result \<Longrightarrow> length result < 2 ^ 64 \<Longrightarrow> 0 < batch \<Longrightarrow>
     delivers s (unat len) (take (unat rl) result) (read_loop len batch rl result s)"
proof (induction len batch rl result s rule: read_loop.induct)
  case (1 len batch rl result s)
  show ?case
  proof (cases "0 < len")
    case False
    then have "len = 0" by (simp add: word_gt_0)
    then show ?thesis using 1(2) by (subst read_loop.simps) (simp add: delivers_def)
  next
    case True
    let ?b = "if len < batch then len else batch"
    have b0: "?b \<noteq> 0" "0 < ?b" "unat ?b \<le> unat len" using True 1(4)
      by (auto simp: word_gt_0 word_less_nat_alt)
    note eq = read_loop_unfold [OF True b0(1), of rl result s, unfolded Let_def]
    show ?thesis
    proof (cases "stream_Read (unat ?b) s")
      case (Done b s1)
      note n = read_counts [OF Done b0(3) 1(2,3)] and c = copy_at_step [OF read_counts(4) [OF Done b0(3) 1(2,3)]]
      have "delivers s1 (unat (len - of_nat (length b)))
          (take (unat (rl + of_nat (length b))) (copy_at (unat rl) b result))
          (read_loop (len - of_nat (length b)) ?b (rl + of_nat (length b)) (copy_at (unat rl) b result) s1)"
        by (rule 1(1) [OF True refl b0(1) Done refl _ _ b0(2)])
           (use n c(1) 1(2,3) in simp_all)
      then have "delivers s1 (unat len - length b) (take (unat rl) result @ b) (read_loop len batch rl result s)"
        using n c(2) Done by (simp add: eq)
      then show ?thesis using stream_Read_Done [OF Done] n(1) by (intro delivers_step [of s1 "unat len" b]) auto
    next
      case (Failed e s1)
      then show ?thesis using stream_Read_end(1) [OF Failed] True
        by (simp add: eq delivers_def word_less_nat_alt)
    next
      case Blocked
      then show ?thesis using stream_Read_end(2) [OF Blocked] True
        by (simp add: eq delivers_def word_less_nat_alt)
    next
      case (Panicked p)
      then show ?thesis using stream_Read_end(3) by blast
    qed
  qed
qed

lemma ReadPackageData_delivers:
  assumes "int (unat len) \<le> maxSlice"
  shows "delivers s (unat len) [] (ReadPackageData maxSlice s len)"
proof -
  have "unat len < 2 ^ 64" using unsigned_less [of len] by simp
  then have "delivers s (unat len) (take (unat (0 :: 64 word)) (replicate (unat len) (CHR 0x00)))
      (read_loop len defaultBatchSize 0 (replicate (unat len) (CHR 0x00)) s)"
    by (intro read_loop_delivers) (simp_all add: defaultBatchSize_def)
  then show ?thesis using assms by (simp add: ReadPackageData_def make_bytes_def)
qed

section \<open>Framing\<close>

text \<open>What the code relies on of \<open>BytesToUint64\<close>: it reads what \<open>IntToBytes\<close> wrote.\<close>

definition length_law :: "codec \<Rightarrow> (bytes \<Rightarrow> 64 word) \<Rightarrow> bool" where
  "length_law K u \<longleftrightarrow> (\<forall>n. 0 \<le> n \<and> n < 2 ^ 63 \<longrightarrow> u (intToBytes K n) = of_int n)"

text \<open>A package on the wire, as \<open>Host.SendMsg\<close> writes it to the send stream.\<close>

definition frame :: "codec \<Rightarrow> bytes \<Rightarrow> bytes" where
  "frame K pkgBz = intToBytes K (int (length pkgBz)) @ pkgBz"

definition end_of :: "stream \<Rightarrow> loop_end" where
  "end_of s = (case s of Fail e # _ \<Rightarrow> EndError e | _ \<Rightarrow> EndBlocked)"

definition sendable :: "int \<Rightarrow> bytes \<Rightarrow> bool" where
  "sendable maxSlice p \<longleftrightarrow> int (length p) < 2 ^ 63 \<and> int (length p) \<le> maxSlice"

lemma delivers_enough:
  "delivers s n p r \<Longrightarrow> n \<le> length (avail s) \<Longrightarrow>
     \<exists>s'. r = Done (p @ take n (avail s)) s' \<and> avail s' = drop n (avail s) \<and> after s' = after s"
  by (simp add: delivers_def)

lemma delivers_short:
  "delivers s n p r \<Longrightarrow> length (avail s) < n \<Longrightarrow>
     (\<exists>e t. after s = Fail e # t \<and> r = Failed e t) \<or> (after s = [] \<and> r = Blocked)"
  using after_cases [of s] by (auto simp: delivers_def)

lemma ReadPackageLength_enough:
  assumes "8 \<le> maxSlice" and "avail s = l @ rest" and "length l = 8"
  shows "\<exists>s'. ReadPackageLength u maxSlice s = Done (u l, l) s' \<and> avail s' = rest \<and> after s' = after s"
proof -
  have "delivers s 8 [] (ReadPackageData maxSlice s 8)"
    using ReadPackageData_delivers [of 8 maxSlice s] assms(1) by simp
  from delivers_enough [OF this] assms(2,3) show ?thesis
    by (auto simp: ReadPackageLength_def)
qed

lemma ReadPackageLength_short:
  assumes "8 \<le> maxSlice" and "length (avail s) < 8"
  shows "(\<exists>e t. after s = Fail e # t \<and> ReadPackageLength u maxSlice s = Failed e t) \<or>
         (after s = [] \<and> ReadPackageLength u maxSlice s = Blocked)"
proof -
  have "delivers s 8 [] (ReadPackageData maxSlice s 8)"
    using ReadPackageData_delivers [of 8 maxSlice s] assms(1) by simp
  from delivers_short [OF this assms(2)] show ?thesis by (auto simp: ReadPackageLength_def)
qed

lemma framed_length:
  assumes "codec_laws K" and "length_law K u" and "sendable maxSlice p"
  shows "unat (u (intToBytes K (int (length p)))) = length p"
  using assms by (simp add: length_law_def sendable_def unat_of_nat_small)

text \<open>A stream that breaks inside a frame yields nothing of it.\<close>

lemma loop_incomplete:
  assumes K: "codec_laws K" "length_law K u" and q: "sendable maxSlice q" "8 \<le> maxSlice"
    and part: "frame K q = avail s @ missing" "missing \<noteq> []"
  shows "receiveStreamHandlerLoop u maxSlice s = ([], end_of (after s))"
proof (cases "length (avail s) < 8")
  case True
  from ReadPackageLength_short [OF q(2) True, of u] show ?thesis
    by (subst receiveStreamHandlerLoop.simps) (auto simp: end_of_def)
next
  case False
  let ?l = "intToBytes K (int (length q))"
  have 8: "length ?l = 8" using K by (simp add: codec_laws_def)
  have "take 8 (avail s) = ?l"
    using False part(1) 8 by (metis append_eq_conv_conj frame_def not_less take_append take_all_iff
        append_take_drop_id append_Nil2 diff_is_0_eq take_0)
  then obtain rest where rest: "avail s = ?l @ rest" by (metis append_take_drop_id)
  then have "length rest < length q" using part by (simp add: frame_def)
  from ReadPackageLength_enough [OF q(2) rest 8, of u] obtain s1 where
    s1: "ReadPackageLength u maxSlice s = Done (u ?l, ?l) s1" "avail s1 = rest" "after s1 = after s" by blast
  have n: "unat (u ?l) = length q" by (rule framed_length [OF K q(1)])
  have "delivers s1 (length q) [] (ReadPackageData maxSlice s1 (u ?l))"
    using ReadPackageData_delivers [of "u ?l" maxSlice s1] q(1) by (simp add: n sendable_def)
  from delivers_short [OF this] \<open>length rest < length q\<close> s1(2,3) s1(1) show ?thesis
    by (subst receiveStreamHandlerLoop.simps) (auto simp: end_of_def)
qed

lemma loop_frame:
  assumes K: "codec_laws K" "length_law K u" and q: "sendable maxSlice q" "8 \<le> maxSlice"
    and s: "avail s = frame K q @ rest"
  shows "\<exists>s2. avail s2 = rest \<and> after s2 = after s \<and>
     receiveStreamHandlerLoop u maxSlice s =
       (let (pushed, e) = receiveStreamHandlerLoop u maxSlice s2 in (q # pushed, e))"
proof -
  let ?l = "intToBytes K (int (length q))"
  have 8: "length ?l = 8" using K by (simp add: codec_laws_def)
  have "avail s = ?l @ q @ rest" using s by (simp add: frame_def)
  from ReadPackageLength_enough [OF q(2) this 8, of u] obtain s1 where
    s1: "ReadPackageLength u maxSlice s = Done (u ?l, ?l) s1" "avail s1 = q @ rest" "after s1 = after s" by blast
  have n: "unat (u ?l) = length q" by (rule framed_length [OF K q(1)])
  have "delivers s1 (length q) [] (ReadPackageData maxSlice s1 (u ?l))"
    using ReadPackageData_delivers [of "u ?l" maxSlice s1] q(1) by (simp add: n sendable_def)
  from delivers_enough [OF this] s1(2,3) obtain s2 where
    "ReadPackageData maxSlice s1 (u ?l) = Done q s2" "avail s2 = rest" "after s2 = after s" by auto
  with s1(1) show ?thesis by (subst receiveStreamHandlerLoop.simps) auto
qed

lemma loop_frames:
  assumes K: "codec_laws K" "length_law K u" and max: "8 \<le> maxSlice"
    and pk: "\<forall>p\<in>set pkgs. sendable maxSlice p"
    and q: "sendable maxSlice q" "frame K q = part @ missing" "missing \<noteq> []"
  shows "avail s = concat (map (frame K) pkgs) @ part \<Longrightarrow>
    receiveStreamHandlerLoop u maxSlice s = (pkgs, end_of (after s))"
  using pk
proof (induction pkgs arbitrary: s)
  case Nil
  then show ?case using loop_incomplete [OF K q(1) max, of s missing] q(2,3) by simp
next
  case (Cons p pkgs)
  have "avail s = frame K p @ (concat (map (frame K) pkgs) @ part)" using Cons.prems(1) by simp
  from loop_frame [OF K _ max this] Cons.prems(2) obtain s2 where
    s2: "avail s2 = concat (map (frame K) pkgs) @ part" "after s2 = after s"
      "receiveStreamHandlerLoop u maxSlice s =
        (let (pushed, e) = receiveStreamHandlerLoop u maxSlice s2 in (p # pushed, e))" by auto
  show ?case using Cons.IH [OF s2(1)] Cons.prems(2) s2(2,3) by simp
qed


section \<open>Properties\<close>

text \<open>
  \<open>ReadPackageData\<close> reads exactly. However the bytes are split into reads, and whatever the
  length up to the allocation limit, it returns the next \<open>len\<close> bytes of the stream and leaves the
  rest, without a wrap-around of its 64-bit counters; if an error comes first it returns that
  error, and it waits if the bytes are not there yet. A length above the limit panics before
  anything is read.
\<close>

theorem read_package_data_exact:
  "if maxSlice < int (unat len) then ReadPackageData maxSlice s len = Panicked MakeSliceLenOutOfRange
   else if unat len \<le> length (avail s)
   then \<exists>s'. ReadPackageData maxSlice s len = Done (take (unat len) (avail s)) s' \<and>
          avail s' = drop (unat len) (avail s) \<and> after s' = after s
   else ReadPackageData maxSlice s len = (case after s of Fail e # t \<Rightarrow> Failed e t | _ \<Rightarrow> Blocked)"
proof (cases "maxSlice < int (unat len)")
  case True
  then show ?thesis by (simp add: ReadPackageData_def make_bytes_def)
next
  case False
  then have d: "delivers s (unat len) [] (ReadPackageData maxSlice s len)"
    by (intro ReadPackageData_delivers) simp
  show ?thesis
  proof (cases "unat len \<le> length (avail s)")
    case True
    then show ?thesis using False delivers_enough [OF d True] by simp
  next
    case False
    then show ?thesis using \<open>\<not> maxSlice < int (unat len)\<close> delivers_short [OF d] by auto
  qed
qed

theorem read_package_data_exact_witness:
  "\<exists>s'. ReadPackageData 1000 [Chunk ''ab'', Chunk [], Chunk ''cdef''] 5 = Done ''abcde'' s' \<and> avail s' = ''f''"
  using read_package_data_exact [of 1000 5 "[Chunk ''ab'', Chunk [], Chunk ''cdef'']"]
  by auto

text \<open>
  Framing: when complete frames and then a broken-off one arrive on a stream, cut into reads
  at any places, the receive loop pushes exactly the complete packages, in order and unaltered,
  and nothing of the last; then it ends with the error that follows, or waits.
\<close>

theorem framed_packages_arrive_intact:
  assumes "codec_laws K" and "length_law K u" and "8 \<le> maxSlice"
    and "\<forall>p\<in>set pkgs. sendable maxSlice p" and "sendable maxSlice q"
    and "frame K q = part @ missing" and "missing \<noteq> []"
    and "avail s = concat (map (frame K) pkgs) @ part"
  shows "receiveStreamHandlerLoop u maxSlice s =
    (pkgs, case after s of Fail e # _ \<Rightarrow> EndError e | _ \<Rightarrow> EndBlocked)"
  using loop_frames [OF assms(1-7) assms(8)] by (simp add: end_of_def)

text \<open>\<open>BytesToUint64\<close> of the sample codec.\<close>

definition sample_u64 :: "bytes \<Rightarrow> 64 word" where
  "sample_u64 bz = of_nat (be_value bz)"

lemma sample_length_law: "length_law sample_codec sample_u64"
proof -
  have "sample_u64 (intToBytes sample_codec n) = of_int n" if "0 \<le> n" "n < 2 ^ 63" for n
    using that be_value_be_bytes [of "nat n" 8]
    by (simp add: sample_u64_def sample_codec_def of_nat_nat)
  then show ?thesis by (simp add: length_law_def)
qed

theorem framed_packages_arrive_intact_witness:
  "receiveStreamHandlerLoop sample_u64 1000
     [Chunk (take 3 (frame sample_codec ''hello'')),
      Chunk (drop 3 (frame sample_codec ''hello'') @ take 5 (frame sample_codec ''x'')),
      Fail \<lparr>err_text = ''EOF'', err_net = None\<rparr>] =
   ([''hello''], EndError \<lparr>err_text = ''EOF'', err_net = None\<rparr>)"
proof -
  let ?x = "frame sample_codec ''x''"
  let ?s = "[Chunk (take 3 (frame sample_codec ''hello'')), Chunk (drop 3 (frame sample_codec ''hello'') @ take 5 ?x),
      Fail \<lparr>err_text = ''EOF'', err_net = None\<rparr>]"
  have s: "avail ?s = concat (map (frame sample_codec) [''hello'']) @ take 5 ?x"
    by (simp only: avail.simps append_assoc [symmetric] append_take_drop_id append_Nil2 concat.simps list.map)
  have x: "?x = take 5 ?x @ drop 5 ?x" by simp
  have "length ?x = 9" by (simp add: frame_def sample_codec_def)
  then have "drop 5 ?x \<noteq> []" by simp
  from framed_packages_arrive_intact [OF sample_codec_laws sample_length_law _ _ _ x this s, of 1000]
  show ?thesis by (simp add: sendable_def)
qed

text \<open>
  Delivery from sender to handler input: if the packages of a list of messages are marshalled
  and framed one after the other onto a stream, and arrive cut into reads at any places, then the
  receive loop pushes one byte string per message, and unmarshalling these yields, in order,
  exactly the protocol, payload and compression type of each message.
\<close>

theorem sent_messages_are_received:
  assumes K: "codec_laws K" and u: "length_law K u" and max: "8 \<le> maxSlice"
    and m: "list_all2 (\<lambda>p bz. Marshal K p = Inr bz \<and> sendable maxSlice bz \<and> pkg_protocol p \<noteq> []) ps bzs"
    and s: "avail s = concat (map (frame K) bzs)"
  shows "fst (receiveStreamHandlerLoop u maxSlice s) = bzs \<and>
    map (Unmarshal K maxSlice fresh) (fst (receiveStreamHandlerLoop u maxSlice s)) =
      map (\<lambda>p. Returns (p, None)) ps"
proof -
  have "\<forall>bz\<in>set bzs. sendable maxSlice bz"
    using m by (auto simp: list_all2_conv_all_nth in_set_conv_nth)
  moreover have "length (intToBytes K 0) = 8" using K by (simp add: codec_laws_def)
  then have "frame K [] = [] @ intToBytes K 0" "intToBytes K 0 \<noteq> []"
    by (auto simp: frame_def)
  moreover have "sendable maxSlice []" using max by (simp add: sendable_def)
  ultimately have "fst (receiveStreamHandlerLoop u maxSlice s) = bzs"
    using loop_frames [OF K u max, of bzs "[]" "[]" "intToBytes K 0" s] s by simp
  moreover have "map (Unmarshal K maxSlice fresh) bzs = map (\<lambda>p. Returns (p, None)) ps"
    using m
  proof (induction rule: list_all2_induct)
    case (Cons p ps bz bzs)
    then show ?case using payload_round_trip [OF K, of p bz maxSlice fresh] by (simp add: sendable_def)
  qed simp
  ultimately show ?thesis by simp
qed

theorem sent_messages_are_received_witness:
  "\<exists>bz. Marshal sample_codec (NewPayloadPackage ''/chat'' ''hi'' CompressTypeNone) = Inr bz \<and>
     map (Unmarshal sample_codec 1000 (NewPayloadPackage [] [] CompressTypeNone))
       (fst (receiveStreamHandlerLoop sample_u64 1000
          [Chunk (take 4 (frame sample_codec bz)), Chunk (drop 4 (frame sample_codec bz))])) =
     [Returns (NewPayloadPackage ''/chat'' ''hi'' CompressTypeNone, None)]"
proof -
  let ?p = "NewPayloadPackage ''/chat'' ''hi'' CompressTypeNone"
  obtain bz where w: "Marshal sample_codec ?p = Inr bz" and len: "length bz = 24"
    by (simp add: Marshal_def finalPayload_def sample_codec_def NewPayloadPackage_def)
  have m: "list_all2 (\<lambda>p bz. Marshal sample_codec p = Inr bz \<and> sendable 1000 bz \<and> pkg_protocol p \<noteq> [])
      [?p] [bz]"
    using w len by (simp add: sendable_def NewPayloadPackage_def)
  have s: "avail [Chunk (take 4 (frame sample_codec bz)), Chunk (drop 4 (frame sample_codec bz))] =
      concat (map (frame sample_codec) [bz])"
    by simp
  note r = sent_messages_are_received [OF sample_codec_laws sample_length_law _ m s,
      of "NewPayloadPackage [] [] CompressTypeNone"]
  have "8 \<le> (1000 :: int)" by simp
  note r = r [OF this, THEN conjunct2]
  show ?thesis by (rule exI [of _ bz], rule conjI, rule w, rule trans [OF r]) simp
qed

end
