(* ===== verification/Connection_Supervisor.thy ===== *)
theory Connection_Supervisor
  imports RB_Prelude
begin

text \<open>
  \<open>components/connection_supervisor.go\<close>: the supervisor that keeps connections to necessary
  peers, and the dial actuator it runs for each of them. An address is a value of type \<open>'m\<close>.
  \<open>connected\<close> is what \<open>ConnectionManager().Connected\<close> answers and \<open>me\<close> the host's own id.
  \<open>util.FibonacciArray\<close> of rainbowcat is the parameter \<open>fib\<close>; the only thing the code relies on
  is that \<open>fib n\<close> has \<open>n\<close> entries. Go visits a map in any order: \<open>order\<close> lists its entries as visited.
\<close>

section \<open>State\<close>

record 'm dial_actuator =
  da_pid :: peer_id
  da_peerAddr :: 'm
  da_fibonacci :: "int list"
  da_tryTimes :: nat
  da_giveUp :: bool
  da_finished :: bool

record 'm supervisor =
  cs_necessaryPeer :: "peer_id \<rightharpoonup> 'm"
  cs_signalC :: bool
  cs_closed :: bool
  cs_started :: bool
  cs_tryTimes :: int
  cs_actuators :: "peer_id \<rightharpoonup> 'm dial_actuator"
  cs_allConnected :: bool

definition DefaultTryTimes :: int where
  "DefaultTryTimes = 10"

definition NewConnectionSupervisor :: "int \<Rightarrow> 'm supervisor" where
  "NewConnectionSupervisor tryTimes =
     \<lparr>cs_necessaryPeer = Map.empty, cs_signalC = False, cs_closed = False, cs_started = False,
      cs_tryTimes = (if tryTimes \<le> 0 then DefaultTryTimes else tryTimes),
      cs_actuators = Map.empty, cs_allConnected = False\<rparr>"

definition newDialActuator :: "(int \<Rightarrow> int list) \<Rightarrow> peer_id \<Rightarrow> 'm \<Rightarrow> int \<Rightarrow> 'm dial_actuator" where
  "newDialActuator fib pid addr tryTimes =
     \<lparr>da_pid = pid, da_peerAddr = addr, da_fibonacci = fib tryTimes, da_tryTimes = 0,
      da_giveUp = False, da_finished = False\<rparr>"

definition da_Reset :: "'m dial_actuator \<Rightarrow> 'm dial_actuator" where
  "da_Reset a = a\<lparr>da_tryTimes := 0, da_giveUp := False, da_finished := False\<rparr>"

definition SetFinished :: "'m dial_actuator \<Rightarrow> 'm dial_actuator" where
  "SetFinished a = a\<lparr>da_finished := True\<rparr>"

definition SetUnfinished :: "'m dial_actuator \<Rightarrow> 'm dial_actuator" where
  "SetUnfinished a = a\<lparr>da_finished := False\<rparr>"

definition SetGiveUp :: "'m dial_actuator \<Rightarrow> 'm dial_actuator" where
  "SetGiveUp a = a\<lparr>da_giveUp := True\<rparr>"

section \<open>The supervisor\<close>

text \<open>
  One round of the loop of \<open>checkConn\<close>: the supervisor, the number of connected peers and the
  peers whose actuator is started (\<open>safe.LoggerGo(c.logger, act.Run)\<close>), in order.
\<close>

definition checkPeer ::
  "(int \<Rightarrow> int list) \<Rightarrow> peer_id \<Rightarrow> (peer_id \<Rightarrow> bool) \<Rightarrow> 'm supervisor \<times> nat \<times> peer_id list \<Rightarrow> peer_id \<times> 'm
   \<Rightarrow> 'm supervisor \<times> nat \<times> peer_id list" where
  "checkPeer fib me connected acc entry =
     (let (c, currentConnected, runs) = acc; (pid, addr) = entry
      in if pid = me then acc
         else if connected pid
         then (case cs_actuators c pid of
                 Some act \<Rightarrow> (c\<lparr>cs_actuators := (cs_actuators c)(pid := None)\<rparr>, currentConnected + 1, runs)
               | None \<Rightarrow> (c, currentConnected + 1, runs))
         else
           (let act = (case cs_actuators c pid of
                  Some act \<Rightarrow> act
                | None \<Rightarrow> newDialActuator fib pid addr (cs_tryTimes c));
                c' = c\<lparr>cs_allConnected := False, cs_actuators := (cs_actuators c)(pid \<mapsto> act)\<rparr>
            in if da_giveUp act then (c', currentConnected, runs)
               else (c'\<lparr>cs_actuators := (cs_actuators c')
                           (pid \<mapsto> if da_finished act then da_Reset act else act)\<rparr>,
                     currentConnected, runs @ [pid])))"

definition checkConn ::
  "(int \<Rightarrow> int list) \<Rightarrow> peer_id \<Rightarrow> (peer_id \<Rightarrow> bool) \<Rightarrow> (peer_id \<times> 'm) list \<Rightarrow> 'm supervisor
   \<Rightarrow> 'm supervisor \<times> peer_id list" where
  "checkConn fib me connected order c =
     (if cs_necessaryPeer c = Map.empty \<or> cs_allConnected c then (c, [])
      else
        (let (c', currentConnected, runs) = foldl (checkPeer fib me connected) (c, 0, []) order
         in if currentConnected = card (dom (cs_necessaryPeer c'))
            then (c'\<lparr>cs_allConnected := True\<rparr>, runs) else (c', runs)))"

definition trySignal :: "'m supervisor \<Rightarrow> 'm supervisor" where
  "trySignal c = (if cs_signalC c then c else c\<lparr>cs_signalC := True\<rparr>)"

text \<open>
  The send in \<open>Start\<close> waits for the new loop to take a signal that is pending; either way the
  signal is set afterwards.
\<close>

definition Start :: "'m supervisor \<Rightarrow> 'm supervisor" where
  "Start c = (if cs_started c then c
     else c\<lparr>cs_started := True, cs_closed := False, cs_signalC := True\<rparr>)"

definition Stop :: "'m supervisor \<Rightarrow> 'm supervisor run" where
  "Stop c = (if cs_closed c then Panics CloseOfClosedChannel
     else Returns (c\<lparr>cs_closed := True, cs_started := False\<rparr>))"

definition SetPeerAddr :: "'m supervisor \<Rightarrow> peer_id \<Rightarrow> 'm \<Rightarrow> 'm supervisor" where
  "SetPeerAddr c pid addr = trySignal (c\<lparr>cs_necessaryPeer := (cs_necessaryPeer c)(pid \<mapsto> addr)\<rparr>)"

definition RemovePeerAddr :: "'m supervisor \<Rightarrow> peer_id \<Rightarrow> 'm supervisor" where
  "RemovePeerAddr c pid = c\<lparr>cs_necessaryPeer := (cs_necessaryPeer c)(pid := None),
                            cs_actuators := (cs_actuators c)(pid := None)\<rparr>"

definition RemoveAllPeer :: "'m supervisor \<Rightarrow> 'm supervisor" where
  "RemoveAllPeer c = c\<lparr>cs_necessaryPeer := Map.empty\<rparr>"

text \<open>With the close channel closed, the \<open>select\<close> takes one of its ready branches.\<close>

definition NoticePeerDisconnected :: "bool \<Rightarrow> 'm supervisor \<Rightarrow> peer_id \<Rightarrow> 'm supervisor" where
  "NoticePeerDisconnected preferClose c pid =
     (case cs_necessaryPeer c pid of
        None \<Rightarrow> c
      | Some _ \<Rightarrow>
          (let c' = c\<lparr>cs_allConnected := False\<rparr>
           in if cs_closed c' \<and> preferClose then c' else trySignal c'))"

section \<open>The dial actuator\<close>

text \<open>
  What the \<open>k\<close>-th round of \<open>Run\<close> meets: whether the supervisor is closed and the peer connected
  at the two checks, the answer of \<open>host.Dial\<close>, and whether \<open>checkConn\<close> has meanwhile called
  \<open>SetFinished\<close> on this actuator.
\<close>

datatype dial_answer = DialError | NilConnection | DialConn handle peer_id

record round_env =
  env_closed1 :: bool
  env_connected1 :: bool
  env_dial :: dial_answer
  env_closed2 :: bool
  env_connected2 :: bool
  env_finished :: bool

definition breakCheck :: "bool \<Rightarrow> bool \<Rightarrow> 'm dial_actuator \<Rightarrow> 'm dial_actuator \<times> bool" where
  "breakCheck closed isConnected a =
     (if closed then (a, True)
      else if isConnected then (SetFinished a, True)
      else (a, False))"

text \<open>
  The result of the loop: the actuator, the number of dials, the connections closed, the
  seconds slept. \<open>None\<close> is a loop that has not ended within the fuel.
\<close>

type_synonym 'm run_result = "'m dial_actuator \<times> nat \<times> handle list \<times> int list"

fun run_loop ::
  "(nat \<Rightarrow> round_env) \<Rightarrow> nat \<Rightarrow> nat \<Rightarrow> 'm dial_actuator \<Rightarrow> nat \<times> int list \<Rightarrow> 'm run_result option"
where
  "run_loop env 0 k a (dials, slept) = None"
| "run_loop env (Suc fuel) k a (dials, slept) =
     (let e = env k; (a1, stop1) = breakCheck (env_closed1 e) (env_connected1 e) a
      in if stop1 then Some (a1, dials, [], slept)
         else
           (let a1' = (if env_finished e then SetFinished a1 else a1);
                (a2, stop2) = breakCheck (env_closed2 e) (env_connected2 e) a1'
            in if stop2 then Some (a2, dials + 1, [], slept)
               else (case env_dial e of
                   DialConn conn rpid \<Rightarrow>
                     if da_pid a2 \<noteq> rpid then Some (SetGiveUp a2, dials + 1, [conn], slept)
                     else Some (SetFinished a2, dials + 1, [], slept)
                 | _ \<Rightarrow>
                     (let a3 = a2\<lparr>da_tryTimes := da_tryTimes a2 + 1\<rparr>
                      in if \<not> da_finished a3 \<and> \<not> da_giveUp a3
                         then if length (da_fibonacci a3) \<le> da_tryTimes a3
                              then Some (SetGiveUp a3, dials + 1, [], slept)
                              else run_loop env fuel (Suc k) a3
                                     (dials + 1, slept @ [da_fibonacci a3 ! da_tryTimes a3])
                         else run_loop env fuel (Suc k) a3 (dials + 1, slept)))))"

text \<open>\<open>busy\<close> tells that another goroutine is in \<open>Run\<close> of this actuator: \<open>stateC\<close> is full.\<close>

definition Run :: "(nat \<Rightarrow> round_env) \<Rightarrow> nat \<Rightarrow> bool \<Rightarrow> 'm dial_actuator \<Rightarrow> 'm run_result option" where
  "Run env fuel busy a =
     (if busy \<or> da_giveUp a \<or> da_finished a then Some (a, 0, [], [])
      else run_loop env fuel 0 a (0, []))"

section \<open>One round of checks\<close>

definition given_up :: "'m supervisor \<Rightarrow> peer_id \<Rightarrow> bool" where
  "given_up c pid = (case cs_actuators c pid of Some a \<Rightarrow> da_giveUp a | None \<Rightarrow> False)"

definition armed :: "'m supervisor \<Rightarrow> peer_id \<Rightarrow> bool" where
  "armed c pid \<longleftrightarrow> (\<exists>a. cs_actuators c pid = Some a \<and> \<not> da_giveUp a \<and> \<not> da_finished a)"

lemma checkPeer_step:
  assumes "checkPeer fib me connected (c, n, runs) (pid, addr) = (c1, n1, runs1)"
  shows "cs_necessaryPeer c1 = cs_necessaryPeer c" "cs_closed c1 = cs_closed c" "cs_signalC c1 = cs_signalC c"
    and "cs_allConnected c1 \<longrightarrow> cs_allConnected c"
    and "q \<noteq> pid \<Longrightarrow> cs_actuators c1 q = cs_actuators c q"
    and "n1 = n + (if pid \<noteq> me \<and> connected pid then 1 else 0)"
    and "runs1 = runs @ (if pid \<noteq> me \<and> \<not> connected pid \<and> \<not> given_up c pid then [pid] else [])"
    and "pid \<noteq> me \<and> \<not> connected pid \<and> \<not> given_up c pid \<Longrightarrow> armed c1 pid"
    and "pid \<noteq> me \<and> connected pid \<Longrightarrow> cs_actuators c1 pid = None"
  using assms
  by (auto simp: checkPeer_def given_up_def armed_def Let_def newDialActuator_def da_Reset_def
      split: if_splits option.splits)

text \<open>The loop over the necessary peers: what it leaves alone, what it counts, whom it starts, each peer.\<close>

lemma checkPeers_frame:
  "foldl (checkPeer fib me connected) (c, n, runs) order = (c', n', runs') \<Longrightarrow>
     cs_necessaryPeer c' = cs_necessaryPeer c \<and> cs_closed c' = cs_closed c \<and> cs_signalC c' = cs_signalC c \<and>
     (cs_allConnected c' \<longrightarrow> cs_allConnected c) \<and>
     (\<forall>q. q \<notin> fst ` set order \<longrightarrow> cs_actuators c' q = cs_actuators c q) \<and>
     n' = n + length (filter (\<lambda>(p, _). p \<noteq> me \<and> connected p) order)"
proof (induction order arbitrary: c n runs)
  case (Cons e order)
  obtain pid addr c1 n1 runs1 where s: "e = (pid, addr)" "checkPeer fib me connected (c, n, runs) (pid, addr) = (c1, n1, runs1)"
    by (metis prod_cases3 surj_pair)
  have "foldl (checkPeer fib me connected) (c1, n1, runs1) order = (c', n', runs')" using Cons.prems s by simp
  from Cons.IH [OF this] checkPeer_step(1-6) [OF s(2)] show ?case by (auto simp: s(1))
qed simp

lemma checkPeers_runs:
  assumes "foldl (checkPeer fib me connected) (c, n, runs) order = (c', n', runs')" and "distinct (map fst order)"
  shows "runs' = runs @ map fst (filter (\<lambda>(p, _). p \<noteq> me \<and> \<not> connected p \<and> \<not> given_up c p) order)"
  using assms
proof (induction order arbitrary: c n runs)
  case (Cons e order)
  obtain pid addr c1 n1 runs1 where s: "e = (pid, addr)" "checkPeer fib me connected (c, n, runs) (pid, addr) = (c1, n1, runs1)"
    by (metis prod_cases3 surj_pair)
  have "filter (\<lambda>(p, _). p \<noteq> me \<and> \<not> connected p \<and> \<not> given_up c1 p) order =
      filter (\<lambda>(p, _). p \<noteq> me \<and> \<not> connected p \<and> \<not> given_up c p) order"
  proof (rule filter_cong [OF refl], clarify)
    fix p a assume "(p, a) \<in> set order"
    then have "p \<noteq> pid" using Cons.prems(2) s(1) by force
    from checkPeer_step(5) [OF s(2) this]
    show "(p \<noteq> me \<and> \<not> connected p \<and> \<not> given_up c1 p) = (p \<noteq> me \<and> \<not> connected p \<and> \<not> given_up c p)"
      by (simp add: given_up_def)
  qed
  then show ?case using Cons.IH [of c1 n1 runs1] Cons.prems s checkPeer_step(7) [OF s(2)] by simp
qed simp

lemma checkPeers_each:
  assumes "foldl (checkPeer fib me connected) (c, n, runs) order = (c', n', runs')" and "distinct (map fst order)"
    and "p \<in> fst ` set order"
  shows "(p \<noteq> me \<and> \<not> connected p \<and> \<not> given_up c p \<longrightarrow> armed c' p) \<and>
    (p \<noteq> me \<and> connected p \<longrightarrow> cs_actuators c' p = None)"
  using assms
proof (induction order arbitrary: c n runs)
  case (Cons e order)
  obtain pid addr c1 n1 runs1 where s: "e = (pid, addr)" "checkPeer fib me connected (c, n, runs) (pid, addr) = (c1, n1, runs1)"
    by (metis prod_cases3 surj_pair)
  have f: "foldl (checkPeer fib me connected) (c1, n1, runs1) order = (c', n', runs')" using Cons.prems(1) s by simp
  show ?case
  proof (cases "p = pid")
    case True
    then have "cs_actuators c' p = cs_actuators c1 p" using checkPeers_frame [OF f] Cons.prems(2) s(1) by auto
    then show ?thesis using checkPeer_step(8,9) [OF s(2)] True by (simp add: armed_def)
  next
    case False
    then show ?thesis using Cons.IH [OF f] Cons.prems(2,3) s(1) checkPeer_step(5) [OF s(2) False]
      by (simp add: given_up_def)
  qed
qed simp

lemma length_filter_full: "length (filter P xs) = length xs \<longleftrightarrow> (\<forall>x\<in>set xs. P x)"
  by (metis filter_True length_filter_less less_irrefl)

lemma checkConn_frame:
  assumes "checkConn fib me connected order c = (c', runs)"
  shows "cs_necessaryPeer c' = cs_necessaryPeer c" "cs_closed c' = cs_closed c" "cs_signalC c' = cs_signalC c"
  using assms checkPeers_frame [of fib me connected c 0 "[]" order]
  by (auto simp: checkConn_def split: if_splits prod.splits)

text \<open>A round of checks that is not skipped.\<close>

lemma checkConn_open:
  assumes "\<not> cs_allConnected c" and "cs_necessaryPeer c \<noteq> Map.empty"
    and order: "distinct (map fst order)" "set order = {(p, a). cs_necessaryPeer c p = Some a}"
    and r: "checkConn fib me connected order c = (c', runs)"
  obtains c1 where "c' = c1\<lparr>cs_allConnected := \<forall>p\<in>dom (cs_necessaryPeer c). p \<noteq> me \<and> connected p\<rparr>"
    and "runs = map fst (filter (\<lambda>(p, _). p \<noteq> me \<and> \<not> connected p \<and> \<not> given_up c p) order)"
    and "\<And>p. p \<in> dom (cs_necessaryPeer c) \<Longrightarrow> (p \<noteq> me \<and> \<not> connected p \<and> \<not> given_up c p \<longrightarrow> armed c1 p) \<and>
      (p \<noteq> me \<and> connected p \<longrightarrow> cs_actuators c1 p = None)"
    and "dom (cs_necessaryPeer c) = fst ` set order"
proof -
  obtain c1 n runs1 where f: "foldl (checkPeer fib me connected) (c, 0, []) order = (c1, n, runs1)"
    using prod_cases3 by blast
  have dom: "dom (cs_necessaryPeer c) = fst ` set order" unfolding order(2) by (auto simp: image_iff)
  have card: "card (dom (cs_necessaryPeer c)) = length order"
    unfolding dom using distinct_card [OF order(1)] by simp
  note frame = checkPeers_frame [OF f]
  have "n = length order \<longleftrightarrow> (\<forall>p\<in>dom (cs_necessaryPeer c). p \<noteq> me \<and> connected p)"
    using frame length_filter_full [of "\<lambda>(p, _). p \<noteq> me \<and> connected p" order] unfolding dom by auto
  moreover have "c' = (if n = length order then c1\<lparr>cs_allConnected := True\<rparr> else c1)" "runs = runs1" "\<not> cs_allConnected c1"
    using r assms(1,2) frame by (simp_all add: checkConn_def f card split: if_splits)
  ultimately show ?thesis
    using that [of c1] checkPeers_runs [OF f order(1)] checkPeers_each [OF f order(1)] dom by (auto simp: dom)
qed

lemma run_loop_bounded:
  assumes "\<And>k. \<not> env_finished (env k)"
  shows "\<not> da_finished a \<Longrightarrow> \<not> da_giveUp a \<Longrightarrow> length (da_fibonacci a) - da_tryTimes a < fuel \<Longrightarrow>
    \<exists>a' d cl sl. run_loop env fuel k a (dials, slept) = Some (a', dials + d, cl, slept @ sl) \<and>
      d \<le> max 1 (length (da_fibonacci a) - da_tryTimes a) \<and> set sl \<subseteq> set (da_fibonacci a) \<and>
      (da_giveUp a' \<or> da_finished a' \<or> (\<exists>j. env_closed1 (env j) \<or> env_closed2 (env j)))"
proof (induction fuel arbitrary: k a dials slept)
  case (Suc fuel)
  let ?e = "env k" and ?a3 = "a\<lparr>da_tryTimes := Suc (da_tryTimes a)\<rparr>"
  define ends :: "'a run_result option \<Rightarrow> bool" where "ends = (\<lambda>r. \<exists>a' d cl sl. r = Some (a', dials + d, cl, slept @ sl) \<and>
      d \<le> max 1 (length (da_fibonacci a) - da_tryTimes a) \<and> set sl \<subseteq> set (da_fibonacci a) \<and>
      (da_giveUp a' \<or> da_finished a' \<or> (\<exists>j. env_closed1 (env j) \<or> env_closed2 (env j))))"
  have stop: "ends (Some (a', d, cl, slept))"
    if "d = dials \<or> d = dials + 1" "da_giveUp a' \<or> da_finished a' \<or> (\<exists>j. env_closed1 (env j) \<or> env_closed2 (env j))"
    for a' d cl
    unfolding ends_def using that
    by (intro exI [of _ a'] exI [of _ "d - dials"] exI [of _ cl] exI [of _ "[]"]) auto
  have again: "ends (run_loop env fuel (Suc k) ?a3 (dials + 1, slept @ [da_fibonacci a ! Suc (da_tryTimes a)]))"
    if t: "\<not> length (da_fibonacci a) \<le> Suc (da_tryTimes a)"
  proof -
    have "length (da_fibonacci ?a3) - da_tryTimes ?a3 < fuel" using Suc.prems(3) t by simp
    moreover have "\<not> da_finished ?a3" "\<not> da_giveUp ?a3" using Suc.prems(1,2) by simp_all
    ultimately obtain a' d cl sl where r: "run_loop env fuel (Suc k) ?a3 (dials + 1, slept @ [da_fibonacci a ! Suc (da_tryTimes a)]) =
          Some (a', dials + 1 + d, cl, (slept @ [da_fibonacci a ! Suc (da_tryTimes a)]) @ sl)"
        "d \<le> max 1 (length (da_fibonacci ?a3) - da_tryTimes ?a3)" "set sl \<subseteq> set (da_fibonacci ?a3)"
        "da_giveUp a' \<or> da_finished a' \<or> (\<exists>j. env_closed1 (env j) \<or> env_closed2 (env j))"
      using Suc.IH [of ?a3 "Suc k" "dials + 1" "slept @ [da_fibonacci a ! Suc (da_tryTimes a)]"] by blast
    have "da_fibonacci a ! Suc (da_tryTimes a) \<in> set (da_fibonacci a)" using t by simp
    then show ?thesis unfolding ends_def using r t
      by (intro exI [of _ a'] exI [of _ "Suc d"] exI [of _ cl]
          exI [of _ "da_fibonacci a ! Suc (da_tryTimes a) # sl"]) auto
  qed
  have "ends (run_loop env (Suc fuel) k a (dials, slept))"
    using Suc.prems(1,2) assms [of k] stop again
    by (simp add: breakCheck_def SetFinished_def SetGiveUp_def Let_def split: dial_answer.split) blast
  then show ?case by (simp add: ends_def)
qed simp

section \<open>Sequences of calls\<close>

text \<open>
  \<open>OpActuator\<close> is what the goroutine of an actuator writes into it; \<open>OpCheck\<close> is one run of
  \<open>checkConn\<close> with the connections and the map order of that moment.
\<close>

datatype 'm supervisor_op =
    OpCheck "peer_id \<Rightarrow> bool" "(peer_id \<times> 'm) list"
  | OpSetPeer peer_id 'm
  | OpRemovePeer peer_id
  | OpRemoveAll
  | OpActuator peer_id "'m dial_actuator"
  | OpDisconnected bool peer_id

fun supervisor_exec ::
  "(int \<Rightarrow> int list) \<Rightarrow> peer_id \<Rightarrow> 'm supervisor_op \<Rightarrow> 'm supervisor \<Rightarrow> 'm supervisor \<times> peer_id list"
where
  "supervisor_exec fib me (OpCheck connected order) c = checkConn fib me connected order c"
| "supervisor_exec fib me (OpSetPeer pid addr) c = (SetPeerAddr c pid addr, [])"
| "supervisor_exec fib me (OpRemovePeer pid) c = (RemovePeerAddr c pid, [])"
| "supervisor_exec fib me OpRemoveAll c = (RemoveAllPeer c, [])"
| "supervisor_exec fib me (OpActuator pid a) c = (c\<lparr>cs_actuators := (cs_actuators c)(pid \<mapsto> a)\<rparr>, [])"
| "supervisor_exec fib me (OpDisconnected p pid) c = (NoticePeerDisconnected p c pid, [])"

text \<open>The peers whose actuator is started along a run.\<close>

fun supervisor_run ::
  "(int \<Rightarrow> int list) \<Rightarrow> peer_id \<Rightarrow> 'm supervisor_op list \<Rightarrow> 'm supervisor \<Rightarrow> 'm supervisor \<times> peer_id list"
where
  "supervisor_run fib me [] c = (c, [])"
| "supervisor_run fib me (a # as) c =
     (let (c1, r1) = supervisor_exec fib me a c; (c2, r2) = supervisor_run fib me as c1
      in (c2, r1 @ r2))"

lemma trySignal_fields [simp]:
  "cs_necessaryPeer (trySignal c) = cs_necessaryPeer c"
  "cs_allConnected (trySignal c) = cs_allConnected c"
  "cs_actuators (trySignal c) = cs_actuators c"
  by (simp_all add: trySignal_def)

section \<open>Properties\<close>

text \<open>
  One round of \<open>checkConn\<close>, when not everything is known to be connected: it starts the
  actuator of exactly the necessary peers that are neither the host itself nor connected nor
  given up, each once and armed for a fresh series of dials; it drops the actuators of
  connected peers; and it declares everything connected exactly when every necessary peer is
  connected and none of them is the host itself.
\<close>

theorem check_conn_exact:
  assumes open_state: "\<not> cs_allConnected c" and ne: "cs_necessaryPeer c \<noteq> Map.empty"
    and order: "distinct (map fst order)" "set order = {(p, a). cs_necessaryPeer c p = Some a}"
    and r: "checkConn fib me connected order c = (c', runs)"
  shows "set runs = {p \<in> dom (cs_necessaryPeer c). p \<noteq> me \<and> \<not> connected p \<and> \<not> given_up c p} \<and>
    distinct runs \<and> (\<forall>p\<in>set runs. armed c' p) \<and>
    (\<forall>p\<in>dom (cs_necessaryPeer c). p \<noteq> me \<and> connected p \<longrightarrow> cs_actuators c' p = None) \<and>
    (cs_allConnected c' \<longleftrightarrow> (\<forall>p\<in>dom (cs_necessaryPeer c). p \<noteq> me \<and> connected p))"
proof -
  obtain c1 where c': "c' = c1\<lparr>cs_allConnected := \<forall>p\<in>dom (cs_necessaryPeer c). p \<noteq> me \<and> connected p\<rparr>"
    and runs: "runs = map fst (filter (\<lambda>(p, _). p \<noteq> me \<and> \<not> connected p \<and> \<not> given_up c p) order)"
    and each: "\<And>p. p \<in> dom (cs_necessaryPeer c) \<Longrightarrow> (p \<noteq> me \<and> \<not> connected p \<and> \<not> given_up c p \<longrightarrow> armed c1 p) \<and>
      (p \<noteq> me \<and> connected p \<longrightarrow> cs_actuators c1 p = None)"
    and dom: "dom (cs_necessaryPeer c) = fst ` set order"
    by (rule checkConn_open [OF assms]) blast
  have "set runs = {p \<in> dom (cs_necessaryPeer c). p \<noteq> me \<and> \<not> connected p \<and> \<not> given_up c p}"
    unfolding runs dom by (auto simp: image_iff)
  moreover have "distinct runs" unfolding runs using order(1) by (rule distinct_map_filter)
  ultimately show ?thesis using each by (auto simp: c' armed_def)
qed

definition sample_supervisor :: "bool \<Rightarrow> nat supervisor" where
  "sample_supervisor allConn =
     \<lparr>cs_necessaryPeer = [''a'' \<mapsto> 1, ''b'' \<mapsto> 2], cs_signalC = False, cs_closed = False,
      cs_started = True, cs_tryTimes = 3, cs_actuators = Map.empty, cs_allConnected = allConn\<rparr>"

theorem check_conn_exact_witness:
  "set (snd (checkConn (\<lambda>n. replicate (nat n) 1) ''me'' (\<lambda>p. p = ''a'') [(''b'', 2), (''a'', 1)]
      (sample_supervisor False))) = {''b''}"
proof -
  let ?c = "sample_supervisor False" and ?order = "[(''b'', 2 :: nat), (''a'', 1)]"
  obtain c' runs where r: "checkConn (\<lambda>n. replicate (nat n) 1) ''me'' (\<lambda>p. p = ''a'') ?order ?c = (c', runs)"
    by fastforce
  have "set ?order = {(p, a). cs_necessaryPeer ?c p = Some a}"
    by (auto simp: sample_supervisor_def split: if_splits)
  from check_conn_exact [OF _ _ _ this r]
  have "set runs = {p \<in> dom (cs_necessaryPeer ?c). p \<noteq> ''me'' \<and> p \<noteq> ''a'' \<and> \<not> given_up ?c p}"
    by (simp add: sample_supervisor_def)
  then show ?thesis using r by (auto simp: sample_supervisor_def given_up_def split: if_splits)
qed

text \<open>
  C20. The dial loop ends. As long as no other goroutine marks the actuator finished while it
  runs, \<open>Run\<close> makes at most as many dials as tries are left (at least one), sleeps only the
  intervals of its array, never reads outside of it, and ends given up, finished or because the
  supervisor was closed. An actuator that is running, given up or finished does nothing.
\<close>

theorem dial_attempts_are_bounded:
  assumes "\<And>k. \<not> env_finished (env k)" and "length (da_fibonacci a) < fuel"
  shows "\<exists>a' dials closed slept. Run env fuel busy a = Some (a', dials, closed, slept) \<and>
    dials \<le> max 1 (length (da_fibonacci a) - da_tryTimes a) \<and> set slept \<subseteq> set (da_fibonacci a) \<and>
    (if busy \<or> da_giveUp a \<or> da_finished a then a' = a \<and> dials = 0
     else da_giveUp a' \<or> da_finished a' \<or> (\<exists>j. env_closed1 (env j) \<or> env_closed2 (env j)))"
proof (cases "busy \<or> da_giveUp a \<or> da_finished a")
  case True
  then show ?thesis by (simp add: Run_def)
next
  case False
  then have *: "\<not> da_finished a" "\<not> da_giveUp a" by simp_all
  have "length (da_fibonacci a) - da_tryTimes a < fuel" using assms(2) by simp
  from run_loop_bounded [of env, OF assms(1) * this, of 0 0 "[]"] False show ?thesis
    by (auto simp: Run_def)
qed

text \<open>A peer that can never be dialled.\<close>

definition unreachable :: "bool \<Rightarrow> round_env" where
  "unreachable fin = \<lparr>env_closed1 = False, env_connected1 = False, env_dial = DialError,
     env_closed2 = False, env_connected2 = False, env_finished = fin\<rparr>"

theorem dial_attempts_are_bounded_witness:
  "\<exists>a' dials closed slept. Run (\<lambda>_. unreachable False) 10 False
      (newDialActuator (\<lambda>_. [1, 1, 2]) ''you'' (0 :: nat) 3) = Some (a', dials, closed, slept) \<and>
      dials \<le> 3 \<and> da_giveUp a'"
proof -
  have r: "Run (\<lambda>_. unreachable False) 10 False (newDialActuator (\<lambda>_. [1, 1, 2]) ''you'' (0 :: nat) 3) =
      Some (SetGiveUp (newDialActuator (\<lambda>_. [1, 1, 2]) ''you'' 0 3\<lparr>da_tryTimes := 3\<rparr>), 3, [], [1, 2])"
    by (simp add: Run_def unreachable_def newDialActuator_def breakCheck_def Let_def numeral_eq_Suc)
  obtain a' dials closed slept where e: "Run (\<lambda>_. unreachable False) 10 False
      (newDialActuator (\<lambda>_. [1, 1, 2]) ''you'' (0 :: nat) 3) = Some (a', dials, closed, slept)"
    and d: "dials \<le> max 1 (length [1, 1, 2 :: int])"
    using dial_attempts_are_bounded [of "\<lambda>_. unreachable False"
        "newDialActuator (\<lambda>_. [1, 1, 2]) ''you'' (0 :: nat) 3" 10 False]
    by (auto simp: unreachable_def newDialActuator_def)
  have "a' = SetGiveUp (newDialActuator (\<lambda>_. [1, 1, 2]) ''you'' 0 3\<lparr>da_tryTimes := 3\<rparr>)"
    using e unfolding r by blast
  then show ?thesis using e d by (auto simp: SetGiveUp_def)
qed

lemma finished_loop_spins:
  assumes "\<And>k. \<not> env_closed1 (env k) \<and> \<not> env_connected1 (env k) \<and> \<not> env_closed2 (env k) \<and>
      \<not> env_connected2 (env k) \<and> env_dial (env k) = DialError"
  shows "da_finished a \<or> env_finished (env k) \<Longrightarrow> run_loop env fuel k a (dials, slept) = None"
proof (induction fuel arbitrary: k a dials slept)
  case (Suc fuel)
  then show ?case using assms [of k]
    by (auto simp: breakCheck_def SetFinished_def Let_def)
qed simp

text \<open>
  The bound depends on that condition. \<open>checkConn\<close> calls \<open>SetFinished\<close> when it sees the peer
  connected; if that happens during a dial and the connection is lost again before the dial
  returns with an error, the loop skips both the limit and the sleep from then on: while the
  peer stays unreachable \<open>Run\<close> never returns, whatever the number of tries.
\<close>

theorem late_finish_removes_the_bound:
  assumes "\<And>k. \<not> env_closed1 (env k) \<and> \<not> env_connected1 (env k) \<and> \<not> env_closed2 (env k) \<and>
      \<not> env_connected2 (env k) \<and> env_dial (env k) = DialError"
    and "env_finished (env 0)" and "\<not> da_giveUp a" and "\<not> da_finished a"
  shows "Run env fuel False a = None"
  using assms(2-4) finished_loop_spins [of env a 0 fuel 0 "[]", OF assms(1)] by (simp add: Run_def)

theorem late_finish_removes_the_bound_witness:
  "Run (\<lambda>k. unreachable (k = 0)) 1000 False (newDialActuator (\<lambda>_. [1, 1, 2]) ''you'' (0 :: nat) 3) = None"
  by (rule late_finish_removes_the_bound) (simp_all add: unreachable_def newDialActuator_def)

lemma all_connected_exec:
  assumes "cs_allConnected c" and "\<forall>p pid. a \<noteq> OpDisconnected p pid"
  shows "cs_allConnected (fst (supervisor_exec fib me a c)) \<and> snd (supervisor_exec fib me a c) = []"
proof (cases a)
  case (OpDisconnected p pid)
  then show ?thesis using assms(2) by blast
qed (use assms(1) in \<open>simp_all add: checkConn_def SetPeerAddr_def RemovePeerAddr_def RemoveAllPeer_def\<close>)

lemma all_connected_run:
  "cs_allConnected c \<Longrightarrow> \<forall>a\<in>set as. \<forall>p pid. a \<noteq> OpDisconnected p pid \<Longrightarrow>
     snd (supervisor_run fib me as c) = []"
proof (induction as arbitrary: c)
  case (Cons a as)
  then show ?case using all_connected_exec [of c a fib me]
    by (auto simp: Let_def case_prod_unfold)
qed simp

text \<open>
  A necessary peer that is added once everything is connected is not dialled: whatever
  further calls and checks follow, no actuator is started for anyone until the disconnection of
  a necessary peer is reported, because \<open>SetPeerAddr\<close> leaves \<open>allConnected\<close> set.
\<close>

theorem peer_added_when_all_connected_is_not_dialled:
  assumes "cs_allConnected c" and "\<forall>a\<in>set as. \<forall>p pid. a \<noteq> OpDisconnected p pid"
  shows "snd (supervisor_run fib me as (SetPeerAddr c pid addr)) = [] \<and>
         cs_necessaryPeer (SetPeerAddr c pid addr) pid = Some addr"
  using all_connected_run [of "SetPeerAddr c pid addr" as fib me] assms
  by (simp add: SetPeerAddr_def)

theorem peer_added_when_all_connected_is_not_dialled_witness:
  "snd (supervisor_run (\<lambda>n. replicate (nat n) 1) ''me''
      [OpCheck (\<lambda>p. p \<noteq> ''new'') [(''a'', 1), (''b'', 2), (''new'', 3)]]
      (SetPeerAddr (sample_supervisor True) ''new'' 3)) = []"
  by (rule peer_added_when_all_connected_is_not_dialled [THEN conjunct1])
     (simp_all add: sample_supervisor_def)

end
