(* ===== verification/Peer_Id.thy ===== *)
theory Peer_Id
  imports RB_Prelude "HOL-Library.Char_ord" "HOL-Library.List_Lexorder"
begin

text \<open>
  \<open>core/peer/id.go\<close>: peer ids and the comparison that decides which of two simultaneous
  connections survives; \<open>util/addr.go\<close>: multiaddresses with a peer id. Multiaddresses, base58,
  multihash and the encoding of keys belong to other packages and are parameters.
\<close>

section \<open>Ids\<close>

text \<open>The loop of \<open>WeightCompare\<close> over the common positions; bytes compare as numbers.\<close>

fun WeightCompare :: "peer_id \<Rightarrow> peer_id \<Rightarrow> bool" where
  "WeightCompare (x # l) (y # r) =
     (if x \<noteq> y then (of_char y :: nat) < of_char x else WeightCompare l r)"
| "WeightCompare _ _ = True"

datatype peer_error =
    ErrNoPubKey
  | ErrEmptyPeerID
  | BadPeerID string
  | BadKey string

definition Validate :: "peer_id \<Rightarrow> peer_error option" where
  "Validate i = (if length i = 0 then Some ErrEmptyPeerID else None)"

text \<open>
  What \<open>id.go\<close> uses of the key, hash and base58 packages. \<open>multihash.Decode\<close> gives the code and
  the digest; \<open>IDENTITY\<close> and \<open>SHA2_256\<close> are codes.
\<close>

record 'k key_codec =
  kc_marshal :: "'k \<Rightarrow> string + bytes"
  kc_unmarshal :: "bytes \<Rightarrow> string + 'k"
  kc_base58Encode :: "bytes \<Rightarrow> string"
  kc_base58Decode :: "string \<Rightarrow> string + bytes"
  kc_hashSum :: "nat \<Rightarrow> bytes \<Rightarrow> bytes"
  kc_hashDecode :: "bytes \<Rightarrow> string + nat \<times> bytes"
  kc_IDENTITY :: nat
  kc_SHA2_256 :: nat

definition IDLength :: nat where
  "IDLength = 46"

definition IDFromPubKey :: "'k key_codec \<Rightarrow> 'k \<Rightarrow> string + peer_id" where
  "IDFromPubKey K pk =
     (case kc_marshal K pk of
        Inl err \<Rightarrow> Inl err
      | Inr bz \<Rightarrow>
          (let alg = (if length bz \<le> IDLength then kc_IDENTITY K else kc_SHA2_256 K);
               hash = kc_hashSum K alg bz
           in Inr (kc_base58Encode K hash)))"

definition IDFromPriKey :: "'k key_codec \<Rightarrow> ('sk \<Rightarrow> 'k) \<Rightarrow> 'sk \<Rightarrow> string + peer_id" where
  "IDFromPriKey K getPublic sk = IDFromPubKey K (getPublic sk)"

definition ExtractPubKey :: "'k key_codec \<Rightarrow> peer_id \<Rightarrow> peer_error + 'k" where
  "ExtractPubKey K i =
     (case kc_base58Decode K i of
        Inl err \<Rightarrow> Inl (BadPeerID err)
      | Inr hash \<Rightarrow>
          (case kc_hashDecode K hash of
             Inl err \<Rightarrow> Inl (BadPeerID err)
           | Inr (hcode, digest) \<Rightarrow>
               if hcode \<noteq> kc_IDENTITY K then Inl ErrNoPubKey
               else (case kc_unmarshal K digest of Inl err \<Rightarrow> Inl (BadKey err) | Inr pk \<Rightarrow> Inr pk)))"

definition MatchesPubKey :: "'k key_codec \<Rightarrow> peer_id \<Rightarrow> 'k \<Rightarrow> bool" where
  "MatchesPubKey K i pk = (case IDFromPubKey K pk of Inl _ \<Rightarrow> False | Inr x \<Rightarrow> x = i)"

definition MatchesPriKey :: "'k key_codec \<Rightarrow> ('sk \<Rightarrow> 'k) \<Rightarrow> peer_id \<Rightarrow> 'sk \<Rightarrow> bool" where
  "MatchesPriKey K getPublic i sk = MatchesPubKey K i (getPublic sk)"

text \<open>
  What is relied on: the encodings are inverse to each other, and an identity hash holds its
  input as digest and says so.
\<close>

definition key_codec_laws :: "'k key_codec \<Rightarrow> bool" where
  "key_codec_laws K \<longleftrightarrow>
     kc_IDENTITY K \<noteq> kc_SHA2_256 K \<and>
     (\<forall>bz. kc_base58Decode K (kc_base58Encode K bz) = Inr bz) \<and>
     (\<forall>bz. kc_hashDecode K (kc_hashSum K (kc_IDENTITY K) bz) = Inr (kc_IDENTITY K, bz)) \<and>
     (\<forall>bz. \<exists>d. kc_hashDecode K (kc_hashSum K (kc_SHA2_256 K) bz) = Inr (kc_SHA2_256 K, d)) \<and>
     (\<forall>pk bz. kc_marshal K pk = Inr bz \<longrightarrow> kc_unmarshal K bz = Inr pk)"

text \<open>
  The contract behind an id: for a key in order, hashing and base58 can be undone, the two kinds of hash are told
  apart, and the encoding of the key is read back.
\<close>

locale key_encoding =
  fixes ok :: "'k \<Rightarrow> bool" and K :: "'k key_codec"
  assumes kinds_differ: "ok pk \<Longrightarrow> kc_IDENTITY K \<noteq> kc_SHA2_256 K"
    and base58_back: "ok pk \<Longrightarrow> kc_base58Decode K (kc_base58Encode K h) = Inr h"
    and identity_hash: "ok pk \<Longrightarrow> kc_hashDecode K (kc_hashSum K (kc_IDENTITY K) bz) = Inr (kc_IDENTITY K, bz)"
    and sha_hash: "ok pk \<Longrightarrow> \<exists>d. kc_hashDecode K (kc_hashSum K (kc_SHA2_256 K) bz) = Inr (kc_SHA2_256 K, d)"
    and read_back: "ok pk \<Longrightarrow> kc_marshal K pk = Inr bz \<Longrightarrow> kc_unmarshal K bz = Inr pk"
begin

lemma extract_of_id:
  assumes "ok pk" and "kc_marshal K pk = Inr bz" and "IDFromPubKey K pk = Inr i"
  shows "ExtractPubKey K i = (if length bz \<le> IDLength then Inr pk else Inl ErrNoPubKey)"
proof -
  have i: "i = kc_base58Encode K (kc_hashSum K (if length bz \<le> IDLength then kc_IDENTITY K else kc_SHA2_256 K) bz)"
    using assms(2,3) by (simp add: IDFromPubKey_def Let_def)
  obtain d where "kc_hashDecode K (kc_hashSum K (kc_SHA2_256 K) bz) = Inr (kc_SHA2_256 K, d)"
    using sha_hash [OF assms(1)] by blast
  with kinds_differ [OF assms(1)] base58_back [OF assms(1)] identity_hash [OF assms(1)] read_back [OF assms(1,2)]
  show ?thesis by (simp add: ExtractPubKey_def i)
qed

lemma encoded_if_id:
  assumes "IDFromPubKey K pk = Inr i"
  obtains bz where "kc_marshal K pk = Inr bz"
  using assms by (auto simp: IDFromPubKey_def split: sum.split_asm)

text \<open>An id that holds a key is the id of no other key in order.\<close>

lemma embedded_key_unique:
  assumes "ok pk" and "ok pk'" and "kc_marshal K pk = Inr bz" and "length bz \<le> IDLength"
    and "IDFromPubKey K pk = Inr i" and "IDFromPubKey K pk' = Inr i"
  shows "pk' = pk"
proof -
  obtain bz' where m: "kc_marshal K pk' = Inr bz'" using assms(6) by (rule encoded_if_id)
  show ?thesis
    using extract_of_id [OF assms(1,3,5)] extract_of_id [OF assms(2) m assms(6)] assms(4) by (simp split: if_split_asm)
qed

end

interpretation lawful_codec: key_encoding "\<lambda>_. key_codec_laws K" K for K
  by unfold_locales (simp_all add: key_codec_laws_def)

section \<open>Addresses with a peer id\<close>

record ('m, 'c) addr_ops =
  ma_splitLast :: "'m \<Rightarrow> 'm option \<times> 'c option"
  ma_code :: "'c \<Rightarrow> nat"
  ma_value :: "'c \<Rightarrow> string + string"
  ma_stringCast :: "string \<Rightarrow> 'm"
  ma_join :: "'m option \<Rightarrow> 'm \<Rightarrow> 'm"
  ma_protocols :: "'m \<Rightarrow> nat list"
  ma_isUnspecified :: "'m \<Rightarrow> bool"
  ma_isLoopback :: "'m \<Rightarrow> bool"
  ma_P_P2P :: nat
  ma_P_DNS :: nat
  ma_P_DNS4 :: nat
  ma_P_DNS6 :: nat

definition pidAddrPrefix :: string where
  "pidAddrPrefix = ''/p2p/''"

definition SplitAddrToTransportAndPID :: "('m, 'c) addr_ops \<Rightarrow> 'm option \<Rightarrow> 'm option \<times> peer_id" where
  "SplitAddrToTransportAndPID A addr =
     (case addr of
        None \<Rightarrow> (None, '''')
      | Some a \<Rightarrow>
          (let (transport, p2pPart) = ma_splitLast A a
           in case p2pPart of
                None \<Rightarrow> (addr, '''')
              | Some c \<Rightarrow>
                  if ma_code A c \<noteq> ma_P_P2P A then (addr, '''')
                  else (transport, case ma_value A c of Inr pidStr \<Rightarrow> pidStr | Inl _ \<Rightarrow> '''')))"

definition PIDToMultiAddr :: "('m, 'c) addr_ops \<Rightarrow> peer_id \<Rightarrow> 'm" where
  "PIDToMultiAddr A pid = ma_stringCast A (pidAddrPrefix @ pid)"

definition PIDAndNetAddrToMultiAddr :: "('m, 'c) addr_ops \<Rightarrow> peer_id \<Rightarrow> 'm option \<Rightarrow> 'm" where
  "PIDAndNetAddrToMultiAddr A pid netAddr = ma_join A netAddr (PIDToMultiAddr A pid)"

definition ContainsDNS :: "('m, 'c) addr_ops \<Rightarrow> 'm option \<Rightarrow> bool" where
  "ContainsDNS A addr =
     (case addr of
        None \<Rightarrow> False
      | Some a \<Rightarrow> list_ex (\<lambda>p. p = ma_P_DNS A \<or> p = ma_P_DNS4 A \<or> p = ma_P_DNS6 A) (ma_protocols A a))"

definition ExcludeUnspecifiedAndLoopBack :: "('m, 'c) addr_ops \<Rightarrow> 'm list \<Rightarrow> 'm list" where
  "ExcludeUnspecifiedAndLoopBack A addresses =
     foldl (\<lambda>res a. if ma_isUnspecified A a \<or> ma_isLoopback A a then res else res @ [a]) [] addresses"

text \<open>Joining a peer id to a network address and splitting it off again.\<close>

definition addr_laws :: "('m, 'c) addr_ops \<Rightarrow> bool" where
  "addr_laws A \<longleftrightarrow>
     (\<forall>a pid. pid \<noteq> '''' \<longrightarrow>
        (\<exists>c. ma_splitLast A (ma_join A (Some a) (ma_stringCast A (pidAddrPrefix @ pid))) = (Some a, Some c) \<and>
             ma_code A c = ma_P_P2P A \<and> ma_value A c = Inr pid))"

lemma split_of_join:
  "addr_laws A \<Longrightarrow> pid \<noteq> '''' \<Longrightarrow>
     SplitAddrToTransportAndPID A (Some (PIDAndNetAddrToMultiAddr A pid (Some a))) = (Some a, pid)"
proof -
  assume "addr_laws A" "pid \<noteq> ''''"
  then obtain c where "ma_splitLast A (ma_join A (Some a) (ma_stringCast A (pidAddrPrefix @ pid))) = (Some a, Some c)"
      "ma_code A c = ma_P_P2P A" "ma_value A c = Inr pid"
    unfolding addr_laws_def by blast
  then show ?thesis
    by (simp add: SplitAddrToTransportAndPID_def PIDAndNetAddrToMultiAddr_def PIDToMultiAddr_def)
qed

section \<open>The comparison\<close>

lemma WeightCompare_refl [simp]: "WeightCompare i i"
  by (induction i) auto

text \<open>On ids of one length it is the lexicographic order of the bytes, reversed.\<close>

lemma WeightCompare_lexicographic:
  "length l = length r \<Longrightarrow> WeightCompare l r \<longleftrightarrow> r \<le> l"
proof (induction l r rule: WeightCompare.induct)
  case (1 x l y r)
  then show ?case by (auto simp: less_eq_list_code less_char_def less_eq_char_def)
qed auto

lemma byte_less_linear: "x \<noteq> y \<Longrightarrow> (of_char x :: nat) < of_char y \<or> (of_char y :: nat) < of_char x"
  by (metis linorder_neqE_nat of_char_eq_iff)

lemma WeightCompare_total: "WeightCompare l r \<or> WeightCompare r l"
  by (induction l r rule: WeightCompare.induct) (auto dest: byte_less_linear)

lemma WeightCompare_exclusive:
  "length l = length r \<Longrightarrow> l \<noteq> r \<Longrightarrow> WeightCompare r l = (\<not> WeightCompare l r)"
  by (simp add: WeightCompare_lexicographic) (metis order.antisym linorder_linear)

lemma WeightCompare_prefix: "WeightCompare l (l @ r) \<and> WeightCompare (l @ r) l"
  by (induction l) auto

section \<open>Properties\<close>

text \<open>
  The id of a key and the key: an id derived from a public key matches that key; when the
  encoded key has at most 46 bytes the key can be read back from the id, and otherwise the id
  answers that no key is embedded.
\<close>

theorem id_embeds_exactly_short_keys:
  assumes "key_codec_laws K" and "kc_marshal K pk = Inr bz" and "IDFromPubKey K pk = Inr i"
  shows "MatchesPubKey K i pk \<and>
    ExtractPubKey K i = (if length bz \<le> IDLength then Inr pk else Inl ErrNoPubKey)"
  using lawful_codec.extract_of_id [OF assms] assms(3) by (simp add: MatchesPubKey_def)

text \<open>A codec whose identity hash prefixes its input with a zero byte.\<close>

definition sample_key_codec :: "bytes key_codec" where
  "sample_key_codec =
     \<lparr>kc_marshal = Inr, kc_unmarshal = Inr, kc_base58Encode = id, kc_base58Decode = Inr,
      kc_hashSum = (\<lambda>alg bz. if alg = 0 then CHR 0x00 # bz else CHR 0x12 # take 32 bz),
      kc_hashDecode = (\<lambda>h. case h of [] \<Rightarrow> Inl ''short''
         | c # d \<Rightarrow> if c = CHR 0x00 then Inr (0, d) else Inr (18, d)),
      kc_IDENTITY = 0, kc_SHA2_256 = 18\<rparr>"

lemma sample_key_codec_laws: "key_codec_laws sample_key_codec"
  by (simp add: key_codec_laws_def sample_key_codec_def)

theorem id_embeds_exactly_short_keys_witness:
  "ExtractPubKey sample_key_codec (CHR 0x00 # ''key'') = Inr ''key''"
proof -
  have "kc_marshal sample_key_codec ''key'' = Inr ''key''"
    "IDFromPubKey sample_key_codec ''key'' = Inr (CHR 0x00 # ''key'')"
    by (simp_all add: sample_key_codec_def IDFromPubKey_def IDLength_def)
  from id_embeds_exactly_short_keys [OF sample_key_codec_laws this] show ?thesis
    by (simp add: IDLength_def)
qed

end
