(* ===== verification/Connection_Exclusive.thy ===== *)
theory Connection_Exclusive
  imports Peer_Id Network_Core
begin

text \<open>
  \<open>host.go\<close>: \<open>connExclusiveCheck\<close> and \<open>removeConnExclusive\<close>, which settle the case that two
  peers dial each other at the same time. The map \<open>connExclusive\<close> is a map from peers to
  connections; \<open>dir\<close> gives the \<open>Direction()\<close> of a connection as this side sees it.
\<close>

text \<open>The result: the map, whether the new connection is kept, and the connections closed.\<close>

definition connExclusiveCheck ::
  "(handle \<Rightarrow> direction) \<Rightarrow> peer_id \<Rightarrow> peer_id \<Rightarrow> (peer_id \<rightharpoonup> handle) \<Rightarrow> handle
   \<Rightarrow> (peer_id \<rightharpoonup> handle) \<times> bool \<times> handle list" where
  "connExclusiveCheck dir localPID rPID excl conn =
     (case excl rPID of
        Some oldConn \<Rightarrow>
          if dir oldConn \<noteq> dir conn
          then
            (let saveMe = WeightCompare localPID rPID;
                 drop = (if saveMe then Inbound else Outbound)
             in if drop = dir oldConn then (excl(rPID \<mapsto> conn), True, [oldConn])
                else if drop = dir conn then (excl, False, [conn])
                else (excl, True, []))
          else (excl, False, [conn])
      | None \<Rightarrow> (excl(rPID \<mapsto> conn), True, []))"

definition removeConnExclusive :: "(peer_id \<rightharpoonup> handle) \<Rightarrow> peer_id \<Rightarrow> (peer_id \<rightharpoonup> handle)" where
  "removeConnExclusive excl pid = excl(pid := None)"

text \<open>Two connections in the order in which one side handles them, both before a removal.\<close>

definition check_both ::
  "(handle \<Rightarrow> direction) \<Rightarrow> peer_id \<Rightarrow> peer_id \<Rightarrow> handle \<Rightarrow> handle \<Rightarrow> (peer_id \<rightharpoonup> handle) \<times> handle list" where
  "check_both dir localPID rPID c1 c2 =
     (let (m1, _, cl1) = connExclusiveCheck dir localPID rPID Map.empty c1;
          (m2, _, cl2) = connExclusiveCheck dir localPID rPID m1 c2
      in (m2, cl1 @ cl2))"

lemma check_both_outcome:
  assumes "dir c1 \<noteq> dir c2" and "dir c1 \<noteq> Unknown" and "dir c2 \<noteq> Unknown"
  shows "check_both dir l r c1 c2 =
    (let keep = (if dir c1 = (if WeightCompare l r then Outbound else Inbound) then c1 else c2)
     in ([r \<mapsto> keep], [if keep = c1 then c2 else c1]))"
  using assms
  by (cases "dir c1"; cases "dir c2"; auto simp: check_both_def connExclusiveCheck_def Let_def)

lemma WeightCompare_greater_byte:
  "(of_char b :: nat) < of_char a \<Longrightarrow>
     WeightCompare (p @ a # ra) (p @ b # rb) \<and> \<not> WeightCompare (p @ b # rb) (p @ a # ra)"
  by (induction p) auto

lemma check_both_kept:
  assumes "dir c1 = Outbound" and "dir c2 = Inbound" and "(d1, d2) = (c1, c2) \<or> (d1, d2) = (c2, c1)"
  shows "check_both dir l r d1 d2 = (if WeightCompare l r then ([r \<mapsto> c1], [c2]) else ([r \<mapsto> c2], [c1]))"
proof -
  have "c1 \<noteq> c2" using assms(1,2) by auto
  then show ?thesis using assms check_both_outcome [of dir d1 d2 l r] by (auto simp: Let_def)
qed

section \<open>Properties\<close>

text \<open>
  C31. The peers \<open>A\<close> and \<open>B\<close> dial each other: \<open>x\<close> is the connection that \<open>A\<close>
  dialled and \<open>y\<close> the one that \<open>B\<close> dialled, and each side has both under the exclusive check, in
  whatever order they arrive there. If the ids differ at some position that both have, then at the first such
  position the greater byte decides: both sides keep the connection that the peer with the greater byte dialled and close the
  other one. If one id is a prefix of the other, each side keeps the connection that it dialled itself,
  which is the one that the other side closes.
\<close>

theorem simultaneous_dials_leave_one_connection:
  assumes "dirA x = Outbound" and "dirB x = Inbound" and "dirA y = Inbound" and "dirB y = Outbound"
    and "(a1, a2) = (x, y) \<or> (a1, a2) = (y, x)" and "(b1, b2) = (x, y) \<or> (b1, b2) = (y, x)"
  shows "(\<forall>p a ra b rb. A = p @ a # ra \<and> B = p @ b # rb \<and> (of_char b :: nat) < of_char a \<longrightarrow>
      check_both dirA A B a1 a2 = ([B \<mapsto> x], [y]) \<and> check_both dirB B A b1 b2 = ([A \<mapsto> x], [y])) \<and>
    (\<forall>p a ra b rb. A = p @ a # ra \<and> B = p @ b # rb \<and> (of_char a :: nat) < of_char b \<longrightarrow>
      check_both dirA A B a1 a2 = ([B \<mapsto> y], [x]) \<and> check_both dirB B A b1 b2 = ([A \<mapsto> y], [x])) \<and>
    ((\<exists>r. B = A @ r \<or> A = B @ r) \<longrightarrow>
      check_both dirA A B a1 a2 = ([B \<mapsto> x], [y]) \<and> check_both dirB B A b1 b2 = ([A \<mapsto> y], [x]))"
proof -
  have a: "check_both dirA A B a1 a2 = (if WeightCompare A B then ([B \<mapsto> x], [y]) else ([B \<mapsto> y], [x]))"
    using check_both_kept [of dirA x y] assms(1,3,5) by blast
  have b: "check_both dirB B A b1 b2 = (if WeightCompare B A then ([A \<mapsto> y], [x]) else ([A \<mapsto> x], [y]))"
    using check_both_kept [of dirB y x] assms(2,4,6) by blast
  have p: "(\<exists>r. B = A @ r \<or> A = B @ r) \<longrightarrow> WeightCompare A B \<and> WeightCompare B A"
    by (auto simp: WeightCompare_prefix)
  have g: "\<forall>p c ra d rb. A = p @ c # ra \<and> B = p @ d # rb \<and> (of_char d :: nat) < of_char c \<longrightarrow>
      WeightCompare A B \<and> \<not> WeightCompare B A"
    using WeightCompare_greater_byte by blast
  have l: "\<forall>p c ra d rb. A = p @ c # ra \<and> B = p @ d # rb \<and> (of_char c :: nat) < of_char d \<longrightarrow>
      \<not> WeightCompare A B \<and> WeightCompare B A"
    using WeightCompare_greater_byte by blast
  show ?thesis unfolding a b
    by (cases "WeightCompare A B"; cases "WeightCompare B A"; simp only: if_True if_False simp_thms)
       (use p g l in blast)+
qed

theorem simultaneous_dials_leave_one_connection_witness:
  "check_both (\<lambda>c. if c = 1 then Outbound else Inbound) ''QmA'' ''QmBc'' 1 2 = ([''QmBc'' \<mapsto> 2], [1 :: handle]) \<and>
   check_both (\<lambda>c. if c = 1 then Inbound else Outbound) ''QmBc'' ''QmA'' 2 1 = ([''QmA'' \<mapsto> 2], [1]) \<and>
   check_both (\<lambda>c. if c = 1 then Outbound else Inbound) ''Qm'' ''QmB'' 1 2 = ([''QmB'' \<mapsto> 1], [2]) \<and>
   check_both (\<lambda>c. if c = 1 then Inbound else Outbound) ''QmB'' ''Qm'' 2 1 = ([''Qm'' \<mapsto> 2], [1])"
proof -
  note f = simultaneous_dials_leave_one_connection [of "\<lambda>c. if c = 1 then Outbound else Inbound" 1
      "\<lambda>c. if c = 1 then Inbound else Outbound" 2 1 2 2 1]
  have "\<exists>p a ra b rb. ''QmA'' = p @ a # ra \<and> ''QmBc'' = p @ b # rb \<and> (of_char a :: nat) < of_char b"
    by (rule exI [of _ "''Qm''"]) simp
  moreover have "\<exists>r. ''QmB'' = ''Qm'' @ r" by simp
  ultimately show ?thesis using f [of "''QmA''" "''QmBc''"] f [of "''Qm''" "''QmB''"] by simp metis
qed

end
