(* ===== verification/Host_Connections.thy ===== *)
theory Host_Connections
  imports Connection_Manager Protocol_Manager Receive_Stream_Manager Send_Stream_Pool_Manager
    Blacklist Connection_Exclusive Util_Net
begin

text \<open>
  \<open>host.go\<close>, the life of a connection: \<open>handleNewConnection\<close>, \<open>handleClosingConn\<close>,
  \<open>acceptConnLoop\<close>, and what ends a receive stream. The host's state is the record of its
  components, each in the model of its own theory, as \<open>NewHost\<close> puts them together; the book of
  the protocol manager is the peer store's. What a call does besides changing this state is
  recorded in order: connections, streams and pools on which \<open>Close\<close> is called, connections sent to
  \<open>notifyConnC\<close>, loops and pushes started, notifications of protocols.

  \<^item> \<open>S\<close> and \<open>N\<close> are the sets of strings and of handles; \<open>conn\<close> gives the attributes of a
    connection; \<open>str\<close> is \<open>Multiaddr.String\<close>, \<open>ex\<close> is \<open>SliceExcludeAll\<close>.
  \<^item> A callback is \<open>True\<close> for \<open>notifyProtocolSupportedHandlers\<close> and \<open>False\<close> for the other.
\<close>

section \<open>State\<close>

record 'm effects =
  closedConns :: "handle list"
  closedStreams :: "handle list"
  closedPools :: "handle list"
  notifyConnC :: "handle list"
  acceptLoops :: "handle list"
  pushes :: "peer_id list"
  protocolCalls :: "bool call list"

record ('s, 'n, 'm, 'h) host =
  connMgr :: "('s, 'n) lcm"
  protocolMgr :: "('s basic_protocol_book, 'h, bool) protocol_manager"
  sendStreamPoolMgr :: pool_manager
  receiveStreamMgr :: "'n rsm"
  blacklist :: "'s black_list"
  addresses :: "'m address_book"
  connExclusive :: "peer_id \<rightharpoonup> handle"
  effects :: "'m effects"

record ('s, 'n, 'm) host_env =
  he_S :: "(string, 's) set_ops"
  he_N :: "(handle, 'n) set_ops"
  he_conn :: "handle \<Rightarrow> 'm connection"
  he_str :: "'m \<Rightarrow> string"
  he_ex :: "protocol_id list \<Rightarrow> protocol_id list \<Rightarrow> protocol_id list"

abbreviation rpid :: "('s, 'n, 'm) host_env \<Rightarrow> handle \<Rightarrow> peer_id" where
  "rpid E c \<equiv> conn_remotePID (he_conn E c)"

abbreviation host_ID :: "('s, 'n, 'm, 'h) host \<Rightarrow> peer_id" where
  "host_ID h \<equiv> pm_lPID (protocolMgr h)"

text \<open>\<open>_ = conn.Close()\<close>.\<close>

definition close_conns :: "handle list \<Rightarrow> ('s, 'n, 'm, 'h) host \<Rightarrow> ('s, 'n, 'm, 'h) host" where
  "close_conns cs h = h\<lparr>effects := (effects h)\<lparr>closedConns := closedConns (effects h) @ cs\<rparr>\<rparr>"

section \<open>A closing connection\<close>

definition handleClosingConn ::
  "('s, 'n, 'm) host_env \<Rightarrow> (handle \<Rightarrow> string option) \<Rightarrow> handle \<Rightarrow> ('s, 'n, 'm, 'h) host
   \<Rightarrow> ('s, 'n, 'm, 'h) host run" where
  "handleClosingConn E closeErr conn h0 =
     (let h = close_conns [conn] h0;
          rPID = rpid E conn;
          (mgr, removed) = RemovePeerConnection (he_S E) (he_N E) (connMgr h) rPID conn;
          h1 = h\<lparr>connMgr := mgr\<rparr>
      in if \<not> removed then Returns h1
         else
           run_bind
             (if \<not> Connected (he_N E) mgr rPID
              then
                run_bind (CleanPeer (basic_book_ops (he_S E)) (protocolMgr h1) rPID) (\<lambda>(pm, err, calls).
                  Returns (h1\<lparr>protocolMgr := pm,
                     effects := (effects h1)\<lparr>notifyConnC := notifyConnC (effects h1) @ [conn],
                       protocolCalls := protocolCalls (effects h1) @ calls\<rparr>\<rparr>))
              else Returns h1)
             (\<lambda>h2.
               let a = RemoveAddress (he_str E) (addresses h2) rPID [conn_remoteAddr (he_conn E conn)];
                   (pools, closedP, err1) =
                     RemovePeerConnAndCloseSendStreamPool closeErr (sendStreamPoolMgr h2) rPID conn;
                   (streams, closedS) = ClosePeerReceiveStreams (he_N E) (receiveStreamMgr h2) rPID conn
               in Returns (h2\<lparr>addresses := a, sendStreamPoolMgr := pools, receiveStreamMgr := streams,
                    effects := (effects h2)\<lparr>closedPools := closedPools (effects h2) @ closedP,
                      closedStreams := closedStreams (effects h2) @ closedS\<rparr>\<rparr>)))"

section \<open>A new connection\<close>

text \<open>
  What the outside world answers during one \<open>handleNewConnection\<close>: the exchange of protocols, the
  pool builder (\<open>None\<close>: it fails), the opening of the first streams, the random number of an
  elimination, and what other goroutines do to the host while the exchange runs.
\<close>

record ('s, 'n, 'm, 'h) new_conn_env =
  ne_exchange :: "go_error + protocol_id list"
  ne_pool :: "handle option"
  ne_init :: "go_error option"
  ne_rnd :: nat
  ne_during :: "('s, 'n, 'm, 'h) host \<Rightarrow> ('s, 'n, 'm, 'h) host"

datatype host_error =
    ErrExchange go_error
  | ErrInitStreams go_error
  | ErrPoolManager pool_mgr_error
  | ErrProtocols go_error
  | ErrStore go_error

definition localProtocols :: "('s, 'n, 'm) host_env \<Rightarrow> ('s, 'n, 'm, 'h) host \<Rightarrow> protocol_id list" where
  "localProtocols E h =
     SupportedProtocolsOfPeer (basic_book_ops (he_S E)) (protocolMgr h) (host_ID h)"

text \<open>From the connection manager on: \<open>rProtocols\<close> is \<open>None\<close> when nothing was exchanged.\<close>

definition register_connection ::
  "('s, 'n, 'm) host_env \<Rightarrow> ('s, 'n, 'm, 'h) new_conn_env \<Rightarrow> handle \<Rightarrow> nat \<Rightarrow> protocol_id list option
   \<Rightarrow> ('s, 'n, 'm, 'h) host \<Rightarrow> (('s, 'n, 'm, 'h) host \<times> bool \<times> host_error option) run" where
  "register_connection E V conn myProtocolsLength rProtocols h =
     run_bind (AddPeerConnection (he_S E) (he_N E) (ne_rnd V) (connMgr h) (rpid E conn) conn)
       (\<lambda>(mgr, added, closing).
         let h1 = close_conns closing (h\<lparr>connMgr := mgr\<rparr>)
         in if \<not> added then Returns (close_conns [conn] h1, False, None)
            else
              (let (h2, err) = (case rProtocols of
                     None \<Rightarrow> (h1, None)
                   | Some ids \<Rightarrow>
                       (let (pm, err, calls) = SetSupportedProtocolsOfPeer (basic_book_ops (he_S E))
                              (he_ex E) (protocolMgr h1) (rpid E conn) ids
                        in (h1\<lparr>protocolMgr := pm, effects := (effects h1)
                              \<lparr>protocolCalls := protocolCalls (effects h1) @ calls\<rparr>\<rparr>, err)))
               in case err of
                    Some e \<Rightarrow> Returns (close_conns [conn] h2, False, Some (ErrProtocols e))
                  | None \<Rightarrow>
                      (let push = (rProtocols \<noteq> None \<and> myProtocolsLength \<noteq> length (localProtocols E h2));
                           (a, err) = AddAddress (he_str E) (addresses h2) (rpid E conn)
                                     [conn_remoteAddr (he_conn E conn)];
                           h3 = h2\<lparr>addresses := a,
                                  effects := (effects h2)
                                    \<lparr>pushes := pushes (effects h2) @ (if push then [rpid E conn] else []),
                                     acceptLoops := acceptLoops (effects h2) @ [conn]\<rparr>\<rparr>
                       in case err of
                            Some e \<Rightarrow> Returns (close_conns [conn] h3, False, Some (ErrStore e))
                          | None \<Rightarrow> Returns (h3\<lparr>effects := (effects h3)
                                \<lparr>notifyConnC := notifyConnC (effects h3) @ (if rProtocols \<noteq> None then [conn] else [])\<rparr>\<rparr>,
                              True, None))))"

definition open_pool ::
  "('s, 'n, 'm) host_env \<Rightarrow> ('s, 'n, 'm, 'h) new_conn_env \<Rightarrow> handle \<Rightarrow> nat \<Rightarrow> protocol_id list option
   \<Rightarrow> ('s, 'n, 'm, 'h) host \<Rightarrow> (('s, 'n, 'm, 'h) host \<times> bool \<times> host_error option) run" where
  "open_pool E V conn myProtocolsLength rProtocols h =
     (case ne_pool V of
        None \<Rightarrow> Panics (ExplicitPanic ''failed to call send stream pool builder'')
      | Some pool \<Rightarrow>
          (case ne_init V of
             Some err \<Rightarrow> Returns (close_conns [conn] h, False, Some (ErrInitStreams err))
           | None \<Rightarrow>
               (let (pools, err) = AddPeerConnSendStreamPool (sendStreamPoolMgr h) (rpid E conn) conn pool;
                    h1 = h\<lparr>sendStreamPoolMgr := pools\<rparr>
                in case err of
                     Some e \<Rightarrow> Returns (close_conns [conn] h1, False, Some (ErrPoolManager e))
                   | None \<Rightarrow> register_connection E V conn myProtocolsLength rProtocols h1)))"

definition admit ::
  "('s, 'n, 'm) host_env \<Rightarrow> ('s, 'n, 'm, 'h) new_conn_env \<Rightarrow> handle \<Rightarrow> ('s, 'n, 'm, 'h) host
   \<Rightarrow> (('s, 'n, 'm, 'h) host \<times> bool \<times> host_error option) run" where
  "admit E V conn h =
     (if \<not> Allowed (he_S E) (he_N E) (connMgr h) (rpid E conn) then Returns (h, False, None)
      else if \<not> Connected (he_N E) (connMgr h) (rpid E conn)
      then
        (let myProtocolsLength = length (localProtocols E h);
             h1 = ne_during V h
         in case ne_exchange V of
              Inl err \<Rightarrow> Returns (close_conns [conn] h1, False, Some (ErrExchange err))
            | Inr rProtocols \<Rightarrow> open_pool E V conn myProtocolsLength (Some rProtocols) h1)
      else open_pool E V conn 0 None h)"

text \<open>
  The deferred \<open>removeConnExclusive\<close> runs on every return behind the exclusive check. A panic
  ends the accept loop's goroutine.
\<close>

definition handleNewConnection ::
  "('s, 'n, 'm) host_env \<Rightarrow> ('s, 'n, 'm, 'h) new_conn_env \<Rightarrow> handle \<Rightarrow> ('s, 'n, 'm, 'h) host
   \<Rightarrow> (('s, 'n, 'm, 'h) host \<times> bool \<times> host_error option) run" where
  "handleNewConnection E V conn h =
     (if BlackConn (he_S E) (blacklist h) (Some (he_conn E conn)) then Returns (h, False, None)
      else
        (let (excl, keep, closing) =
               connExclusiveCheck (\<lambda>c. st_direction (conn_status (he_conn E c)))
                 (conn_localPID (he_conn E conn)) (rpid E conn) (connExclusive h) conn;
             h1 = close_conns closing (h\<lparr>connExclusive := excl\<rparr>)
         in if \<not> keep then Returns (h1, False, None)
            else run_bind (admit E V conn h1) (\<lambda>(h2, ok, err).
                   Returns (h2\<lparr>connExclusive := removeConnExclusive (connExclusive h2) (rpid E conn)\<rparr>,
                            ok, err))))"

section \<open>Invariant\<close>

definition host_wf :: "('s, 'n, 'm) host_env \<Rightarrow> ('s, 'n, 'm, 'h) host \<Rightarrow> bool" where
  "host_wf E h \<longleftrightarrow> set_laws (he_S E) \<and> set_laws (he_N E) \<and> lcm_wf (he_S E) (he_N E) (connMgr h) \<and>
     rsm_wf (he_N E) (rpid E) (receiveStreamMgr h) \<and> spm_wf (sendStreamPoolMgr h) \<and>
     pm_unsupportedCallback (protocolMgr h) = Some False"

lemma host_wf_laws:
  assumes "host_wf E h"
  shows "set_laws (he_S E)" and "set_laws (he_N E)" and "lcm_wf (he_S E) (he_N E) (connMgr h)"
    and "rsm_wf (he_N E) (rpid E) (receiveStreamMgr h)" and "spm_wf (sendStreamPoolMgr h)"
    and "pm_unsupportedCallback (protocolMgr h) = Some False"
  using assms by (simp_all add: host_wf_def)

lemma close_conns_fields [simp]:
  "connMgr (close_conns cs h) = connMgr h" "protocolMgr (close_conns cs h) = protocolMgr h"
  "sendStreamPoolMgr (close_conns cs h) = sendStreamPoolMgr h"
  "receiveStreamMgr (close_conns cs h) = receiveStreamMgr h" "blacklist (close_conns cs h) = blacklist h"
  "addresses (close_conns cs h) = addresses h" "connExclusive (close_conns cs h) = connExclusive h"
  "closedConns (effects (close_conns cs h)) = closedConns (effects h) @ cs"
  "notifyConnC (effects (close_conns cs h)) = notifyConnC (effects h)"
  "acceptLoops (effects (close_conns cs h)) = acceptLoops (effects h)"
  "closedStreams (effects (close_conns cs h)) = closedStreams (effects h)"
  "closedPools (effects (close_conns cs h)) = closedPools (effects h)"
  "pushes (effects (close_conns cs h)) = pushes (effects h)"
  "protocolCalls (effects (close_conns cs h)) = protocolCalls (effects h)"
  by (simp_all add: close_conns_def)

lemma host_wf_close [simp]: "host_wf E (close_conns cs h) = host_wf E h"
  by (simp add: host_wf_def)

text \<open>The protocols known of each peer, and the connections held of each.\<close>

abbreviation host_protos :: "('s, 'n, 'm) host_env \<Rightarrow> ('s, 'n, 'm, 'h) host \<Rightarrow> peer_id \<Rightarrow> protocol_id set" where
  "host_protos E h \<equiv> book_protos (he_S E) (pm_protocolBook (protocolMgr h))"

abbreviation host_conns :: "('s, 'n, 'm) host_env \<Rightarrow> ('s, 'n, 'm, 'h) host \<Rightarrow> peer_id \<Rightarrow> handle set" where
  "host_conns E h \<equiv> lcm_conns (he_N E) (connMgr h)"

lemma CleanPeer_host:
  assumes "host_wf E h"
  obtains pm calls where "CleanPeer (basic_book_ops (he_S E)) (protocolMgr h) pid = Returns (pm, None, calls)"
    "book_protos (he_S E) (pm_protocolBook pm) = (host_protos E h)(pid := {})"
    "pm_unsupportedCallback pm = Some False" "pm_lPID pm = pm_lPID (protocolMgr h)"
proof -
  let ?r = "CleanPeer (basic_book_ops (he_S E)) (protocolMgr h) pid"
  have "?r \<noteq> Panics x" for x
    using basic_book.CleanPeer_panics [OF host_wf_laws(1) [OF assms], of "protocolMgr h" pid x]
      host_wf_laws(6) [OF assms] by simp
  then obtain pm err calls where r: "?r = Returns (pm, err, calls)" by (cases ?r) auto
  have "pm_unsupportedCallback pm = Some False"
    using r host_wf_laws(6) [OF assms] by (auto simp: CleanPeer_def Let_def case_prod_unfold)
  then show ?thesis
    using basic_book.CleanPeer_Returns [OF host_wf_laws(1) [OF assms] r] r that by auto
qed

text \<open>The state after a connection was removed from the manager, in one equation.\<close>

lemma handleClosingConn_removed:
  assumes wf: "host_wf E h"
    and rm: "RemovePeerConnection (he_S E) (he_N E) (connMgr h) (rpid E conn) conn = (mgr, True)"
  obtains pm calls pools closedP err streams closedS where
    "handleClosingConn E closeErr conn h = Returns (h\<lparr>connMgr := mgr, protocolMgr := pm,
       addresses := RemoveAddress (he_str E) (addresses h) (rpid E conn) [conn_remoteAddr (he_conn E conn)],
       sendStreamPoolMgr := pools, receiveStreamMgr := streams,
       effects := (effects h)\<lparr>closedConns := closedConns (effects h) @ [conn],
         notifyConnC := notifyConnC (effects h) @ (if Connected (he_N E) mgr (rpid E conn) then [] else [conn]),
         protocolCalls := protocolCalls (effects h) @ calls,
         closedPools := closedPools (effects h) @ closedP,
         closedStreams := closedStreams (effects h) @ closedS\<rparr>\<rparr>)"
    "RemovePeerConnAndCloseSendStreamPool closeErr (sendStreamPoolMgr h) (rpid E conn) conn = (pools, closedP, err)"
    "ClosePeerReceiveStreams (he_N E) (receiveStreamMgr h) (rpid E conn) conn = (streams, closedS)"
    "book_protos (he_S E) (pm_protocolBook pm) =
       (if Connected (he_N E) mgr (rpid E conn) then host_protos E h else (host_protos E h)(rpid E conn := {}))"
    "pm_unsupportedCallback pm = Some False" "pm_lPID pm = pm_lPID (protocolMgr h)"
proof -
  obtain pools closedP err where p:
    "RemovePeerConnAndCloseSendStreamPool closeErr (sendStreamPoolMgr h) (rpid E conn) conn = (pools, closedP, err)"
    using prod_cases3 by blast
  obtain streams closedS where s:
    "ClosePeerReceiveStreams (he_N E) (receiveStreamMgr h) (rpid E conn) conn = (streams, closedS)"
    by fastforce
  show ?thesis
  proof (cases "Connected (he_N E) mgr (rpid E conn)")
    case True
    show ?thesis
      by (rule that [where pm = "protocolMgr h" and calls = "[]", OF _ p s])
         (use True wf in \<open>simp_all add: handleClosingConn_def rm p s Let_def close_conns_def host_wf_laws(6)\<close>)
  next
    case False
    obtain pm calls where c: "CleanPeer (basic_book_ops (he_S E)) (protocolMgr h) (rpid E conn) = Returns (pm, None, calls)"
      "book_protos (he_S E) (pm_protocolBook pm) = (host_protos E h)(rpid E conn := {})"
      "pm_unsupportedCallback pm = Some False" "pm_lPID pm = pm_lPID (protocolMgr h)"
      using CleanPeer_host [OF wf] by metis
    show ?thesis
      by (rule that [where pm = pm and calls = calls, OF _ p s])
         (use False c in \<open>simp_all add: handleClosingConn_def rm p s Let_def close_conns_def\<close>)
  qed
qed

text \<open>
  What is left of a connection after its cleanup: nothing in any component, and no component
  was touched elsewhere.
\<close>

definition forgotten :: "('s, 'n, 'm) host_env \<Rightarrow> handle \<Rightarrow> ('s, 'n, 'm, 'h) host \<Rightarrow> bool" where
  "forgotten E conn h \<longleftrightarrow>
     conn \<notin> host_conns E h (rpid E conn) \<and>
     spm_view (sendStreamPoolMgr h) (rpid E conn) conn = None \<and>
     rsm_view (he_N E) (rpid E) (receiveStreamMgr h) conn = {} \<and>
     he_str E (conn_remoteAddr (he_conn E conn)) \<notin> he_str E ` set (GetAddresses (addresses h) (rpid E conn)) \<and>
     (\<not> Connected (he_N E) (connMgr h) (rpid E conn) \<longrightarrow> host_protos E h (rpid E conn) = {})"

definition same_elsewhere ::
  "('s, 'n, 'm) host_env \<Rightarrow> handle \<Rightarrow> ('s, 'n, 'm, 'h) host \<Rightarrow> ('s, 'n, 'm, 'h) host \<Rightarrow> bool" where
  "same_elsewhere E conn h h' \<longleftrightarrow>
     (\<forall>q. q \<noteq> rpid E conn \<longrightarrow>
        host_conns E h' q = host_conns E h q \<and> host_protos E h' q = host_protos E h q \<and>
        GetAddresses (addresses h') q = GetAddresses (addresses h) q \<and>
        spm_view (sendStreamPoolMgr h') q = spm_view (sendStreamPoolMgr h) q) \<and>
     (\<forall>c. c \<noteq> conn \<longrightarrow>
        rsm_view (he_N E) (rpid E) (receiveStreamMgr h') c = rsm_view (he_N E) (rpid E) (receiveStreamMgr h) c \<and>
        spm_view (sendStreamPoolMgr h') (rpid E conn) c = spm_view (sendStreamPoolMgr h) (rpid E conn) c)"

definition known_connection :: "('s, 'n, 'm) host_env \<Rightarrow> ('s, 'n, 'm, 'h) host \<Rightarrow> handle \<Rightarrow> bool" where
  "known_connection E h conn \<longleftrightarrow>
     ExistPeerConnection (he_N E) (connMgr h) (rpid E conn) conn \<or>
     rpid E conn \<in> elems (he_S E) (eliminatePeers (connMgr h))"

lemma known_is_removed:
  assumes wf: "host_wf E h" and known: "known_connection E h conn"
  obtains mgr where
    "RemovePeerConnection (he_S E) (he_N E) (connMgr h) (rpid E conn) conn = (mgr, True)"
    "lcm_wf (he_S E) (he_N E) mgr" "conn \<notin> lcm_conns (he_N E) mgr (rpid E conn)"
    "\<forall>q. q \<noteq> rpid E conn \<longrightarrow> lcm_conns (he_N E) mgr q = host_conns E h q"
proof -
  note laws = host_wf_laws [OF wf]
  obtain mgr ok where rm: "RemovePeerConnection (he_S E) (he_N E) (connMgr h) (rpid E conn) conn = (mgr, ok)"
    by fastforce
  have l: "lcm_wf (he_S E) (he_N E) mgr \<and> conn \<notin> lcm_conns (he_N E) mgr (rpid E conn) \<and>
      (conn \<in> host_conns E h (rpid E conn) \<longrightarrow> ok) \<and>
      (\<forall>q. q \<noteq> rpid E conn \<longrightarrow> lcm_conns (he_N E) mgr q = host_conns E h q)"
    using lcm.remove_law [of "he_S E" "he_N E" "connMgr h" "rpid E conn" conn mgr ok] laws(1-3) rm by blast
  have "rpid E conn \<in> elems (he_S E) (eliminatePeers (connMgr h)) \<Longrightarrow> ok"
    using RemovePeerConnection_spec [OF laws(1-3), of "rpid E conn" conn] rm by simp
  then have ok
    using known l lcm.exist_law [of "he_S E" "he_N E" "connMgr h"] laws(1-3)
    unfolding known_connection_def by blast
  with rm l show ?thesis by (intro that) auto
qed

lemma closing_cleans:
  assumes wf: "host_wf E h"
    and known: "known_connection E h conn"
  shows "\<exists>h'. handleClosingConn E closeErr conn h = Returns h' \<and> host_wf E h' \<and>
    forgotten E conn h' \<and> same_elsewhere E conn h h' \<and>
    closedConns (effects h') = closedConns (effects h) @ [conn] \<and>
    (\<exists>cs. closedStreams (effects h') = closedStreams (effects h) @ cs \<and> distinct cs \<and>
       set cs = rsm_view (he_N E) (rpid E) (receiveStreamMgr h) conn) \<and>
    closedPools (effects h') = closedPools (effects h) @
      (case spm_view (sendStreamPoolMgr h) (rpid E conn) conn of None \<Rightarrow> [] | Some p \<Rightarrow> [p]) \<and>
    notifyConnC (effects h') = notifyConnC (effects h) @
      (if Connected (he_N E) (connMgr h') (rpid E conn) then [] else [conn])"
proof -
  note laws = host_wf_laws [OF wf]
  obtain mgr where rm: "RemovePeerConnection (he_S E) (he_N E) (connMgr h) (rpid E conn) conn = (mgr, True)"
    and l: "lcm_wf (he_S E) (he_N E) mgr" "conn \<notin> lcm_conns (he_N E) mgr (rpid E conn)"
      "\<forall>q. q \<noteq> rpid E conn \<longrightarrow> lcm_conns (he_N E) mgr q = host_conns E h q"
    using known_is_removed [OF wf known] by blast
  obtain pm calls pools closedP err streams closedS where r:
    "handleClosingConn E closeErr conn h = Returns (h\<lparr>connMgr := mgr, protocolMgr := pm,
       addresses := RemoveAddress (he_str E) (addresses h) (rpid E conn) [conn_remoteAddr (he_conn E conn)],
       sendStreamPoolMgr := pools, receiveStreamMgr := streams,
       effects := (effects h)\<lparr>closedConns := closedConns (effects h) @ [conn],
         notifyConnC := notifyConnC (effects h) @ (if Connected (he_N E) mgr (rpid E conn) then [] else [conn]),
         protocolCalls := protocolCalls (effects h) @ calls,
         closedPools := closedPools (effects h) @ closedP,
         closedStreams := closedStreams (effects h) @ closedS\<rparr>\<rparr>)"
    and p: "RemovePeerConnAndCloseSendStreamPool closeErr (sendStreamPoolMgr h) (rpid E conn) conn = (pools, closedP, err)"
    and s: "ClosePeerReceiveStreams (he_N E) (receiveStreamMgr h) (rpid E conn) conn = (streams, closedS)"
    and pm: "book_protos (he_S E) (pm_protocolBook pm) =
       (if Connected (he_N E) mgr (rpid E conn) then host_protos E h else (host_protos E h)(rpid E conn := {}))"
      "pm_unsupportedCallback pm = Some False"
    using handleClosingConn_removed [OF wf rm] by metis
  have p': "spm_wf pools \<and> (case spm_view (sendStreamPoolMgr h) (rpid E conn) conn of
         None \<Rightarrow> err = Some ErrSendStreamPoolNotSet \<and> closedP = [] \<and> spm_view pools = spm_view (sendStreamPoolMgr h)
       | Some p \<Rightarrow> err = map_option PoolCloseError (closeErr p) \<and> closedP = [p] \<and>
           spm_view pools = (spm_view (sendStreamPoolMgr h))(rpid E conn :=
             (spm_view (sendStreamPoolMgr h) (rpid E conn))(conn := None)))"
    by (rule spm.remove_law [OF laws(5) p])
  have s': "rsm_wf (he_N E) (rpid E) streams \<and>
      rsm_view (he_N E) (rpid E) streams = (rsm_view (he_N E) (rpid E) (receiveStreamMgr h))(conn := {}) \<and>
      distinct closedS \<and> set closedS = rsm_view (he_N E) (rpid E) (receiveStreamMgr h) conn"
    using Close_ok [OF laws(2,4) refl s] by blast
  have img: "str a \<notin> str ` {x \<in> B. str x \<noteq> str a}" for str :: "'c \<Rightarrow> string" and a B by auto
  show ?thesis
    by (rule exI, rule conjI [OF r])
       (use l p' s' pm laws img in \<open>simp add: host_wf_def forgotten_def same_elsewhere_def GetAddresses_RemoveAddress
          split: option.splits\<close>)
qed

text \<open>
  What is asked of the other goroutines while the protocols are exchanged: they keep the
  invariant and leave the connection manager, the exclusive map and the accept loops alone.
\<close>

definition quiet :: "('s, 'n, 'm) host_env \<Rightarrow> ('s, 'n, 'm, 'h) new_conn_env \<Rightarrow> bool" where
  "quiet E V \<longleftrightarrow> (\<forall>g. host_wf E g \<longrightarrow> host_wf E (ne_during V g) \<and> connMgr (ne_during V g) = connMgr g \<and>
     connExclusive (ne_during V g) = connExclusive g \<and>
     acceptLoops (effects (ne_during V g)) = acceptLoops (effects g))"

lemma SetSupported_host:
  assumes "host_wf E h"
  obtains pm calls where "SetSupportedProtocolsOfPeer (basic_book_ops (he_S E)) ex (protocolMgr h) pid ids = (pm, None, calls)"
    "book_protos (he_S E) (pm_protocolBook pm) = (host_protos E h)(pid := set ids)"
    "pm_unsupportedCallback pm = Some False"
proof -
  have S: "set_laws (he_S E)" using assms by (rule host_wf_laws)
  show ?thesis
    by (rule that [OF basic_book.SetSupported_state [OF S]])
       (use basic_book.set_law [OF S, of "pm_protocolBook (protocolMgr h)" pid ids] host_wf_laws(6) [OF assms]
         in simp_all)
qed

lemma register_outcome:
  assumes wf: "host_wf E h" and r: "register_connection E V conn n ids h = Returns (h', ok, err)"
  obtains mgr added closing where
    "AddPeerConnection (he_S E) (he_N E) (ne_rnd V) (connMgr h) (rpid E conn) conn = Returns (mgr, added, closing)"
    "ok = added" "err = None" "host_wf E h'" "connMgr h' = mgr" "connExclusive h' = connExclusive h"
    "sendStreamPoolMgr h' = sendStreamPoolMgr h"
    "\<not> added \<Longrightarrow> conn \<in> set (closedConns (effects h')) \<and> acceptLoops (effects h') = acceptLoops (effects h)"
    "added \<Longrightarrow> acceptLoops (effects h') = acceptLoops (effects h) @ [conn] \<and>
       addresses h' = added_addresses (he_str E) (addresses h) (rpid E conn) [conn_remoteAddr (he_conn E conn)] \<and>
       (case ids of None \<Rightarrow> host_protos E h' = host_protos E h
        | Some xs \<Rightarrow> host_protos E h' = (host_protos E h)(rpid E conn := set xs) \<and>
            notifyConnC (effects h') = notifyConnC (effects h) @ [conn])"
proof -
  note laws = host_wf_laws [OF wf]
  obtain mgr added closing where a:
    "AddPeerConnection (he_S E) (he_N E) (ne_rnd V) (connMgr h) (rpid E conn) conn = Returns (mgr, added, closing)"
    and wfm: "lcm_wf (he_S E) (he_N E) mgr"
    using lcm.add_law [of "he_S E" "he_N E" "connMgr h" "ne_rnd V" "rpid E conn" conn] laws(1-3) by blast
  let ?h1 = "close_conns closing (h\<lparr>connMgr := mgr\<rparr>)"
  have wf1: "host_wf E ?h1" using wfm laws by (simp add: host_wf_def)
  show ?thesis
  proof (cases "added \<and> ids \<noteq> None")
    case False
    show ?thesis
      by (rule that [OF a])
         (use False wf1 r in \<open>auto simp: register_connection_def a Let_def host_wf_def split: if_splits\<close>)
  next
    case True
    then obtain xs where ids: "added" "ids = Some xs" by auto
    obtain pm calls where s:
      "SetSupportedProtocolsOfPeer (basic_book_ops (he_S E)) (he_ex E) (protocolMgr ?h1) (rpid E conn) xs = (pm, None, calls)"
      "book_protos (he_S E) (pm_protocolBook pm) = (host_protos E ?h1)(rpid E conn := set xs)"
      "pm_unsupportedCallback pm = Some False"
      using SetSupported_host [OF wf1] by metis
    show ?thesis
      by (rule that [OF a])
         (use ids s wf1 r in \<open>auto simp: register_connection_def a Let_def host_wf_def\<close>)
  qed
qed

lemma open_pool_outcome:
  assumes wf: "host_wf E h" and r: "open_pool E V conn n ids h = Returns (h', ok, err)"
  shows "host_wf E h' \<and> connExclusive h' = connExclusive h \<and>
    (if ok
     then err = None \<and> acceptLoops (effects h') = acceptLoops (effects h) @ [conn] \<and>
       ne_pool V \<noteq> None \<and> spm_view (sendStreamPoolMgr h') (rpid E conn) conn = ne_pool V \<and>
       (\<exists>closing. AddPeerConnection (he_S E) (he_N E) (ne_rnd V) (connMgr h) (rpid E conn) conn =
          Returns (connMgr h', True, closing)) \<and>
       addresses h' = added_addresses (he_str E) (addresses h) (rpid E conn) [conn_remoteAddr (he_conn E conn)] \<and>
       (case ids of None \<Rightarrow> host_protos E h' = host_protos E h
        | Some xs \<Rightarrow> host_protos E h' = (host_protos E h)(rpid E conn := set xs) \<and>
            notifyConnC (effects h') = notifyConnC (effects h) @ [conn])
     else conn \<in> set (closedConns (effects h')) \<and> acceptLoops (effects h') = acceptLoops (effects h))"
proof -
  obtain pool where pool: "ne_pool V = Some pool" using r by (auto simp: open_pool_def split: option.splits)
  show ?thesis
  proof (cases "ne_init V")
    case (Some e)
    then show ?thesis using r pool wf by (auto simp: open_pool_def)
  next
    case None
    obtain pools e where p: "AddPeerConnSendStreamPool (sendStreamPoolMgr h) (rpid E conn) conn pool = (pools, e)"
      by fastforce
    note law = spm.add_law [OF host_wf_laws(5) [OF wf] p]
    let ?h1 = "h\<lparr>sendStreamPoolMgr := pools\<rparr>"
    have wf1: "host_wf E ?h1" using wf law by (simp add: host_wf_def)
    show ?thesis
    proof (cases e)
      case (Some x)
      then show ?thesis using r pool None p wf1 by (auto simp: open_pool_def)
    next
      case e: None
      then have v: "spm_view pools (rpid E conn) conn = Some pool" using law by (auto split: if_splits)
      have reg: "register_connection E V conn n ids ?h1 = Returns (h', ok, err)"
        using r pool None p e by (simp add: open_pool_def)
      show ?thesis
      proof (cases rule: register_outcome [OF wf1 reg])
        case (1 mgr added closing)
        then show ?thesis using v pool by (cases added) (simp_all split: option.splits)
      qed
    qed
  qed
qed

abbreviation direction_of :: "('s, 'n, 'm) host_env \<Rightarrow> handle \<Rightarrow> direction" where
  "direction_of E c \<equiv> st_direction (conn_status (he_conn E c))"

lemma host_wf_excl [simp]: "host_wf E (h\<lparr>connExclusive := m\<rparr>) = host_wf E h"
  by (simp add: host_wf_def)

text \<open>The state in which \<open>admit\<close> hands over to the pool, and what it returns otherwise.\<close>

lemma admit_outcome:
  assumes wf: "host_wf E h" and q: "quiet E V" and r: "admit E V conn h = Returns (h', ok, err)"
  shows "host_wf E h' \<and> connExclusive h' = connExclusive h \<and>
    (if ok
     then err = None \<and> acceptLoops (effects h') = acceptLoops (effects h) @ [conn] \<and>
       Allowed (he_S E) (he_N E) (connMgr h) (rpid E conn) \<and>
       ne_pool V \<noteq> None \<and> spm_view (sendStreamPoolMgr h') (rpid E conn) conn = ne_pool V \<and>
       (\<exists>closing. AddPeerConnection (he_S E) (he_N E) (ne_rnd V) (connMgr h) (rpid E conn) conn =
          Returns (connMgr h', True, closing)) \<and>
       he_str E (conn_remoteAddr (he_conn E conn)) \<in> he_str E ` set (GetAddresses (addresses h') (rpid E conn)) \<and>
       (Connected (he_N E) (connMgr h) (rpid E conn) \<or>
        (\<exists>xs. ne_exchange V = Inr xs \<and> host_protos E h' (rpid E conn) = set xs \<and>
           conn \<in> set (notifyConnC (effects h'))))
     else acceptLoops (effects h') = acceptLoops (effects h) \<and>
       (conn \<in> set (closedConns (effects h')) \<or>
        (\<not> Allowed (he_S E) (he_N E) (connMgr h) (rpid E conn) \<and> h' = h)))"
proof (cases "Allowed (he_S E) (he_N E) (connMgr h) (rpid E conn)")
  case False
  then show ?thesis using r wf by (auto simp: admit_def)
next
  case allowed: True
  have addr: "he_str E a \<in> he_str E ` set (GetAddresses (added_addresses (he_str E) b p [a]) p)" for a b p
    by (simp add: GetAddresses_added)
  show ?thesis
  proof (cases "Connected (he_N E) (connMgr h) (rpid E conn)")
    case True
    then have "open_pool E V conn 0 None h = Returns (h', ok, err)" using r allowed by (simp add: admit_def)
    from open_pool_outcome [OF wf this] show ?thesis using allowed True addr by (cases ok) auto
  next
    case False
    let ?h1 = "ne_during V h"
    have d: "host_wf E ?h1" "connMgr ?h1 = connMgr h" "connExclusive ?h1 = connExclusive h"
      "acceptLoops (effects ?h1) = acceptLoops (effects h)"
      using q wf by (simp_all add: quiet_def)
    show ?thesis
    proof (cases "ne_exchange V")
      case (Inl e)
      then show ?thesis using r allowed False d by (auto simp: admit_def)
    next
      case (Inr xs)
      then have "open_pool E V conn (length (localProtocols E h)) (Some xs) ?h1 = Returns (h', ok, err)"
        using r allowed False by (simp add: admit_def Let_def)
      from open_pool_outcome [OF d(1) this] show ?thesis
        using allowed Inr addr d by (cases ok) auto
    qed
  qed
qed

section \<open>The serial accept loop\<close>

text \<open>
  \<open>acceptConnLoop\<close> handles one connection after the other; closings run in the goroutines of the
  accepted connections. A panic in \<open>handleNewConnection\<close> ends the loop: \<open>None\<close>.
\<close>

datatype ('s, 'n, 'm, 'h) host_event =
    NewConn "('s, 'n, 'm, 'h) new_conn_env" handle
  | ClosingConn "handle \<Rightarrow> string option" handle

fun host_exec ::
  "('s, 'n, 'm) host_env \<Rightarrow> ('s, 'n, 'm, 'h) host_event \<Rightarrow> ('s, 'n, 'm, 'h) host \<Rightarrow> ('s, 'n, 'm, 'h) host option"
where
  "host_exec E (NewConn V c) h =
     (case handleNewConnection E V c h of Returns (h', _, _) \<Rightarrow> Some h' | Panics _ \<Rightarrow> None)"
| "host_exec E (ClosingConn err c) h =
     (case handleClosingConn E err c h of Returns h' \<Rightarrow> Some h' | Panics _ \<Rightarrow> None)"

fun host_run ::
  "('s, 'n, 'm) host_env \<Rightarrow> ('s, 'n, 'm, 'h) host_event list \<Rightarrow> ('s, 'n, 'm, 'h) host \<Rightarrow> ('s, 'n, 'm, 'h) host option"
where
  "host_run E [] h = Some h"
| "host_run E (e # es) h = (case host_exec E e h of None \<Rightarrow> None | Some h' \<Rightarrow> host_run E es h')"

fun quiet_event :: "('s, 'n, 'm) host_env \<Rightarrow> ('s, 'n, 'm, 'h) host_event \<Rightarrow> bool" where
  "quiet_event E (NewConn V _) = quiet E V"
| "quiet_event E (ClosingConn _ _) = True"

lemma exclusive_empty_check:
  "excl p = None \<Longrightarrow> connExclusiveCheck dir l p excl c = (excl(p \<mapsto> c), True, [])"
  by (simp add: connExclusiveCheck_def)

lemma handleNewConnection_serial:
  assumes wf: "host_wf E h" and q: "quiet E V" and e: "connExclusive h = Map.empty"
    and r: "handleNewConnection E V conn h = Returns (h', ok, err)"
  shows "host_wf E h' \<and> connExclusive h' = Map.empty \<and>
    (BlackConn (he_S E) (blacklist h) (Some (he_conn E conn)) \<and> h' = h \<and> \<not> ok \<and> err = None \<or>
     \<not> BlackConn (he_S E) (blacklist h) (Some (he_conn E conn)) \<and>
     (\<exists>h2. admit E V conn (h\<lparr>connExclusive := [rpid E conn \<mapsto> conn]\<rparr>) = Returns (h2, ok, err) \<and>
        h' = h2\<lparr>connExclusive := Map.empty\<rparr>))"
proof (cases "BlackConn (he_S E) (blacklist h) (Some (he_conn E conn))")
  case True
  then show ?thesis using r wf e by (simp add: handleNewConnection_def)
next
  case False
  have c: "close_conns [] g = g" for g :: "('a, 'b, 'c, 'd) host" by (simp add: close_conns_def)
  let ?h1 = "h\<lparr>connExclusive := [rpid E conn \<mapsto> conn]\<rparr>"
  obtain h2 where a: "admit E V conn ?h1 = Returns (h2, ok, err)"
    and h': "h' = h2\<lparr>connExclusive := removeConnExclusive (connExclusive h2) (rpid E conn)\<rparr>"
    using r False by (auto simp: handleNewConnection_def exclusive_empty_check e Let_def c
        run_bind_Returns_iff)
  have "host_wf E ?h1" using wf by simp
  from admit_outcome [OF this q a] have w: "host_wf E h2" "connExclusive h2 = [rpid E conn \<mapsto> conn]" by simp_all
  then have "connExclusive h' = Map.empty" by (simp add: h' removeConnExclusive_def)
  moreover have "h' = h2\<lparr>connExclusive := Map.empty\<rparr>" using w(2) by (simp add: h' removeConnExclusive_def)
  ultimately show ?thesis using w(1) a False by auto
qed

lemma handleClosingConn_keeps:
  assumes wf: "host_wf E h" and r: "handleClosingConn E err conn h = Returns h'"
  shows "host_wf E h' \<and> connExclusive h' = connExclusive h"
proof -
  obtain mgr ok where rm: "RemovePeerConnection (he_S E) (he_N E) (connMgr h) (rpid E conn) conn = (mgr, ok)"
    by fastforce
  show ?thesis
  proof (cases ok)
    case True
    note laws = host_wf_laws [OF wf]
    have "lcm_wf (he_S E) (he_N E) mgr"
      using lcm.remove_law [of "he_S E" "he_N E" "connMgr h" "rpid E conn" conn mgr ok] laws(1-3) rm by blast
    then show ?thesis
    proof (cases rule: handleClosingConn_removed [OF wf rm [unfolded eq_True [THEN iffD2, OF True]],
          where closeErr = err])
      case (1 pm calls pools closedP perr streams closedS)
      have "spm_wf pools" using spm.remove_law [OF laws(5) 1(2)] by blast
      moreover have "rsm_wf (he_N E) (rpid E) streams" using Close_ok [OF laws(2,4) refl 1(3)] by blast
      ultimately show ?thesis
        using r 1(1,5) laws \<open>lcm_wf (he_S E) (he_N E) mgr\<close> by (auto simp: host_wf_def)
    qed
  next
    case False
    have "lcm_wf (he_S E) (he_N E) mgr"
      using lcm.remove_law [of "he_S E" "he_N E" "connMgr h" "rpid E conn" conn mgr ok] host_wf_laws [OF wf] rm by blast
    then show ?thesis using r rm False wf by (auto simp: handleClosingConn_def Let_def host_wf_def)
  qed
qed

interpretation host_runs: event_runs "host_exec E" "host_run E" for E
  by unfold_locales simp_all

lemma host_run_serial:
  assumes "host_wf E h" and "connExclusive h = Map.empty" and "\<forall>e\<in>set es. quiet_event E e"
    and "host_run E es h = Some h'"
  shows "host_wf E h' \<and> connExclusive h' = Map.empty"
proof (rule host_runs.run_invariant_on [where I = "\<lambda>h. host_wf E h \<and> connExclusive h = Map.empty", OF _ _ assms(4)])
  fix e f g assume e: "e \<in> set es" and f: "host_wf E f \<and> connExclusive f = Map.empty" and g: "host_exec E e f = Some g"
  show "host_wf E g \<and> connExclusive g = Map.empty"
  proof (cases e)
    case (NewConn V c)
    then obtain ok err where "handleNewConnection E V c f = Returns (g, ok, err)"
      using g by (auto split: run.splits)
    from handleNewConnection_serial [OF conjunct1 [OF f] _ conjunct2 [OF f] this] assms(3) e NewConn
    show ?thesis by fastforce
  next
    case (ClosingConn cerr c)
    then have "handleClosingConn E cerr c f = Returns g" using g by (auto split: run.splits)
    from handleClosingConn_keeps [OF conjunct1 [OF f] this] f show ?thesis by simp
  qed
qed (use assms(1,2) in simp)

section \<open>Properties\<close>

text \<open>A host \<open>me\<close> without connections, and one that holds the connection 1 of the peer \<open>you\<close>.\<close>

definition sample_env :: "(string list, handle list, string) host_env" where
  "sample_env =
     \<lparr>he_S = list_set, he_N = list_set,
      he_conn = (\<lambda>c. \<lparr>conn_status = NewStatus Inbound, conn_localPID = ''me'', conn_remotePID = ''you'',
         conn_remoteAddr = ''/ip4/1'', conn_remoteNetAddr = ''1.1.1.1:80''\<rparr>),
      he_str = id, he_ex = slice_exclude_all\<rparr>"

definition no_effects :: "string effects" where
  "no_effects = \<lparr>closedConns = [], closedStreams = [], closedPools = [], notifyConnC = [],
     acceptLoops = [], pushes = [], protocolCalls = []\<rparr>"

definition sample_host :: "handle list peer_connections list \<Rightarrow> (string list, handle list, string, nat) host" where
  "sample_host held =
     \<lparr>connMgr = \<lparr>maxCountOfPeers = 20, maxCountOfConnectionsEachPeer = 1, strategy = EliminationStrategyLIFO,
         highLevelPeers = [], highLevelConn = [], lowLevelConn = held, eliminatePeers = []\<rparr>,
      protocolMgr = \<lparr>pm_lPID = ''me'', pm_handlers = Map.empty, pm_protocolBook = NewProtocolBook ''me'',
         pm_supportedCallback = Some True, pm_unsupportedCallback = Some False\<rparr>,
      sendStreamPoolMgr = NewSendStreamPoolManager, receiveStreamMgr = NewReceiveStreamManager,
      blacklist = NewBlacklist list_set, addresses = Map.empty, connExclusive = Map.empty,
      effects = no_effects\<rparr>"

lemma sample_host_wf:
  "host_wf sample_env (sample_host [])"
  "host_wf sample_env (sample_host [\<lparr>pc_pid = ''you'', pc_connSet = [1]\<rparr>])"
  by (simp_all add: host_wf_def sample_env_def sample_host_def list_set_laws lcm_wf_def rsm_wf_New
      NewReceiveStreamManager_def rsm_wf_def peer_ok_def spm_wf_def NewSendStreamPoolManager_def)

text \<open>
  C2. Closing a connection that the connection manager holds (or whose peer it has eliminated)
  cleans it out of every component: afterwards the connection manager, the pools, the receive
  streams and the address book know nothing of it, its pool and exactly its receive streams
  have been closed once, and if its peer has no connection left the peer's protocols are
  forgotten and the disconnection is announced; nothing of other peers or other connections'
  streams and pools changes, and no panic occurs.
\<close>

theorem closed_connection_leaves_nothing:
  assumes "host_wf E h" and "known_connection E h conn"
  shows "\<exists>h'. handleClosingConn E closeErr conn h = Returns h' \<and> host_wf E h' \<and>
    forgotten E conn h' \<and> same_elsewhere E conn h h' \<and>
    closedConns (effects h') = closedConns (effects h) @ [conn] \<and>
    (\<exists>cs. closedStreams (effects h') = closedStreams (effects h) @ cs \<and> distinct cs \<and>
       set cs = rsm_view (he_N E) (rpid E) (receiveStreamMgr h) conn) \<and>
    closedPools (effects h') = closedPools (effects h) @
      (case spm_view (sendStreamPoolMgr h) (rpid E conn) conn of None \<Rightarrow> [] | Some p \<Rightarrow> [p]) \<and>
    notifyConnC (effects h') = notifyConnC (effects h) @
      (if Connected (he_N E) (connMgr h') (rpid E conn) then [] else [conn])"
  by (rule closing_cleans [OF assms])

theorem closed_connection_leaves_nothing_witness:
  "\<exists>h'. handleClosingConn sample_env (\<lambda>_. None) 1 (sample_host [\<lparr>pc_pid = ''you'', pc_connSet = [1]\<rparr>]) =
      Returns h' \<and> forgotten sample_env 1 h'"
proof -
  have "known_connection sample_env (sample_host [\<lparr>pc_pid = ''you'', pc_connSet = [1]\<rparr>]) 1"
    by (simp add: known_connection_def ExistPeerConnection_def getHighLevelConnections_def
        getLowLevelConnections_def sample_host_def sample_env_def)
  from closed_connection_leaves_nothing [OF sample_host_wf(2) this] show ?thesis by blast
qed

text \<open>
  C12. A connection that \<open>handleNewConnection\<close> accepts under FIFO or LIFO is registered with every
  component: it was allowed and not blacklisted, the connection manager holds it, its pool is the
  one that was built, its address is in the address book, its accept loop is started, and if it
  is the peer's first connection the protocols of the peer are exactly those exchanged and the
  peer is announced as connected; the host's invariant holds. This is so when the handling begins with the host's
  invariant, no entry in the exclusive map (nothing else is being handled) and no more peers than the manager's limit, and
  when other goroutines, while the protocols are exchanged, keep the invariant and leave the connection manager, the
  exclusive map and the list of accept loops alone.
\<close>

theorem accepted_connection_is_registered:
  assumes wf: "host_wf E h" and q: "quiet E V" and e: "connExclusive h = Map.empty"
    and lim: "CountOfPeers (connMgr h) \<le> maxCountOfPeers (connMgr h)"
    and st: "strategy (connMgr h) \<noteq> EliminationStrategyRandom"
    and r: "handleNewConnection E V conn h = Returns (h', True, err)"
  shows "err = None \<and> host_wf E h' \<and>
    \<not> BlackConn (he_S E) (blacklist h) (Some (he_conn E conn)) \<and>
    Allowed (he_S E) (he_N E) (connMgr h) (rpid E conn) \<and>
    ExistPeerConnection (he_N E) (connMgr h') (rpid E conn) conn \<and>
    ne_pool V \<noteq> None \<and> spm_view (sendStreamPoolMgr h') (rpid E conn) conn = ne_pool V \<and>
    he_str E (conn_remoteAddr (he_conn E conn)) \<in> he_str E ` set (GetAddresses (addresses h') (rpid E conn)) \<and>
    acceptLoops (effects h') = acceptLoops (effects h) @ [conn] \<and>
    (Connected (he_N E) (connMgr h) (rpid E conn) \<or>
     (\<exists>xs. ne_exchange V = Inr xs \<and> host_protos E h' (rpid E conn) = set xs \<and>
        conn \<in> set (notifyConnC (effects h'))))"
proof -
  let ?h1 = "h\<lparr>connExclusive := [rpid E conn \<mapsto> conn]\<rparr>"
  obtain h2 where s: "host_wf E h'" "\<not> BlackConn (he_S E) (blacklist h) (Some (he_conn E conn))"
      "admit E V conn ?h1 = Returns (h2, True, err)" "h' = h2\<lparr>connExclusive := Map.empty\<rparr>"
    using handleNewConnection_serial [OF wf q e r] by auto
  have "host_wf E ?h1" using wf by simp
  note a = admit_outcome [OF this q s(3)]
  have al: "Allowed (he_S E) (he_N E) (connMgr h) (rpid E conn)" using a by simp
  obtain closing where "AddPeerConnection (he_S E) (he_N E) (ne_rnd V) (connMgr h) (rpid E conn) conn =
      Returns (connMgr h2, True, closing)" using a by auto
  from admitted_conns [OF host_wf_laws(1-3) [OF wf] lim st al this]
  have "conn \<in> lcm_conns (he_N E) (connMgr h') (rpid E conn)" by (auto simp: s(4))
  then have "ExistPeerConnection (he_N E) (connMgr h') (rpid E conn) conn"
    by (simp add: ExistPeerConnection_iff host_wf_laws(2) [OF wf])
  then show ?thesis using a s(1,2) al by (simp add: s(4))
qed

definition sample_new :: "(string list, handle list, string, nat) new_conn_env" where
  "sample_new = \<lparr>ne_exchange = Inr [''/chat''], ne_pool = Some 70, ne_init = None, ne_rnd = 0, ne_during = (\<lambda>h. h)\<rparr>"

lemma sample_quiet: "quiet sample_env sample_new"
  by (simp add: quiet_def sample_new_def)

lemma sample_accepted:
  "\<exists>h'. handleNewConnection sample_env sample_new 1 (sample_host []) = Returns (h', True, None)"
  by (simp add: handleNewConnection_def admit_def open_pool_def register_connection_def
      connExclusiveCheck_def removeConnExclusive_def BlackConn_def NewBlacklist_def SplitHostPort_def
      Allowed_def Connected_def getHighLevelConnections_def getLowLevelConnections_def
      AddPeerConnection_def eliminateConnections.simps sample_env_def sample_new_def sample_host_def
      AddPeerConnSendStreamPool_def NewSendStreamPoolManager_def CountOfPeers_def Let_def
      SetSupportedProtocolsOfPeer_def SetProtocols_def eliminateConnectionsLIFO_def split: option.split)

theorem accepted_connection_is_registered_witness:
  "\<exists>h'. handleNewConnection sample_env sample_new 1 (sample_host []) = Returns (h', True, None) \<and>
     ExistPeerConnection list_set (connMgr h') ''you'' 1 \<and>
     spm_view (sendStreamPoolMgr h') ''you'' 1 = Some 70"
proof -
  obtain h' where r: "handleNewConnection sample_env sample_new 1 (sample_host []) = Returns (h', True, None)"
    using sample_accepted by blast
  have "connExclusive (sample_host []) = Map.empty"
    "CountOfPeers (connMgr (sample_host [])) \<le> maxCountOfPeers (connMgr (sample_host []))"
    "strategy (connMgr (sample_host [])) \<noteq> EliminationStrategyRandom"
    by (simp_all add: sample_host_def CountOfPeers_def)
  from accepted_connection_is_registered [OF sample_host_wf(1) sample_quiet this r] r
  show ?thesis by (simp add: sample_env_def sample_new_def)
qed

text \<open>
  C35. A connection that \<open>handleNewConnection\<close> refuses gets no accept loop, and it is closed, except
  in two cases: when it is blacklisted or when the connection manager does not allow it, the host
  is left exactly as it was and nobody closes the connection, whatever the log message says.
\<close>

theorem refused_connection_is_closed_unless_not_allowed:
  assumes wf: "host_wf E h" and q: "quiet E V" and e: "connExclusive h = Map.empty"
    and r: "handleNewConnection E V conn h = Returns (h', False, err)"
  shows "acceptLoops (effects h') = acceptLoops (effects h) \<and>
    (if BlackConn (he_S E) (blacklist h) (Some (he_conn E conn)) \<or>
        \<not> Allowed (he_S E) (he_N E) (connMgr h) (rpid E conn)
     then h' = h else conn \<in> set (closedConns (effects h')))"
proof (cases "BlackConn (he_S E) (blacklist h) (Some (he_conn E conn))")
  case True
  then show ?thesis using handleNewConnection_serial [OF wf q e r] by auto
next
  case False
  let ?h1 = "h\<lparr>connExclusive := [rpid E conn \<mapsto> conn]\<rparr>"
  obtain h2 where s: "admit E V conn ?h1 = Returns (h2, False, err)" "h' = h2\<lparr>connExclusive := Map.empty\<rparr>"
    using handleNewConnection_serial [OF wf q e r] False by auto
  have "host_wf E ?h1" using wf by simp
  note a = admit_outcome [OF this q s(1)]
  have "h\<lparr>connExclusive := Map.empty\<rparr> = h" using e by simp
  moreover have "\<not> Allowed (he_S E) (he_N E) (connMgr h) (rpid E conn) \<Longrightarrow> h2 = ?h1"
    using s(1) by (auto simp: admit_def)
  ultimately show ?thesis using a False by (auto simp: s(2))
qed

theorem refused_connection_is_closed_unless_not_allowed_witness:
  "handleNewConnection sample_env sample_new 2 (sample_host [\<lparr>pc_pid = ''you'', pc_connSet = [1]\<rparr>]) =
     Returns (sample_host [\<lparr>pc_pid = ''you'', pc_connSet = [1]\<rparr>], False, None)"
proof -
  let ?h = "sample_host [\<lparr>pc_pid = ''you'', pc_connSet = [1]\<rparr>]"
  have n: "\<not> Allowed list_set list_set (connMgr ?h) ''you''"
    by (simp add: Allowed_def sample_host_def getHighLevelConnections_def getLowLevelConnections_def)
  have e: "connExclusive ?h = Map.empty" by (simp add: sample_host_def)
  have "\<exists>h'. handleNewConnection sample_env sample_new 2 ?h = Returns (h', False, None)"
    by (simp add: handleNewConnection_def admit_def connExclusiveCheck_def sample_env_def
        BlackConn_def NewBlacklist_def SplitHostPort_def sample_host_def Allowed_def
        getHighLevelConnections_def getLowLevelConnections_def Let_def split: option.split)
  then obtain h' where r: "handleNewConnection sample_env sample_new 2 ?h = Returns (h', False, None)"
    by blast
  from refused_connection_is_closed_unless_not_allowed [OF sample_host_wf(2) sample_quiet e r] n r
  show ?thesis by (simp add: sample_env_def)
qed

text \<open>
  The exclusive check never fires. \<open>acceptConnLoop\<close> handles connections one at a time and each
  handling removes its own entry, so whatever sequence of connections is handled and closed, the
  map is empty whenever the next connection is checked: the check keeps it and closes nothing,
  also when the peer's simultaneous connection in the other direction is waiting.
\<close>

theorem exclusive_check_never_fires:
  assumes "host_wf E h" and "connExclusive h = Map.empty" and "\<forall>e\<in>set es. quiet_event E e"
    and "host_run E es h = Some h'"
  shows "connExclusive h' = Map.empty \<and>
    connExclusiveCheck (direction_of E) l (rpid E conn) (connExclusive h') conn =
      ([rpid E conn \<mapsto> conn], True, [])"
  using host_run_serial [OF assms] by (simp add: exclusive_empty_check)

theorem exclusive_check_never_fires_witness:
  "\<exists>h'. host_run sample_env [NewConn sample_new 1] (sample_host []) = Some h' \<and>
     connExclusiveCheck (direction_of sample_env) ''me'' ''you'' (connExclusive h') 2 = ([''you'' \<mapsto> 2], True, [])"
proof -
  obtain h' where "handleNewConnection sample_env sample_new 1 (sample_host []) = Returns (h', True, None)"
    using sample_accepted by blast
  then have r: "host_run sample_env [NewConn sample_new 1] (sample_host []) = Some h'" by simp
  have "connExclusive (sample_host []) = Map.empty" by (simp add: sample_host_def)
  have y: "rpid sample_env 2 = ''you''" by (simp add: sample_env_def)
  have "\<forall>e\<in>set [NewConn sample_new 1]. quiet_event sample_env e" using sample_quiet by simp
  from exclusive_check_never_fires [OF sample_host_wf(1) \<open>connExclusive (sample_host []) = Map.empty\<close> this r, of "''me''" 2] r
  show ?thesis unfolding y by blast
qed

end
