(* ===== verification/Host_Messages.thy ===== *)
theory Host_Messages
  imports Host_Connections Stream_IO Send_Stream_Pool Connection_Supervisor
begin

text \<open>
  \<open>host.go\<close> and \<open>host_handle_msg_pipeline.go\<close>: sending a message, the receive side of a stream
  and the pipeline that hands messages to the registered handlers, dialling, protocols of peers,
  direct peers, notifications. What other objects answer (a pool, a stream, the network) is an
  argument of the operation that asks them.
\<close>

section \<open>Sending\<close>

datatype send_error =
    ErrPeerNotConnected
  | ErrProtocolNotSupported
  | ErrSendStreamPoolNotFound
  | ErrBorrow pool_error
  | ErrMarshal pkg_error
  | ErrSendStreamWriteFailed
  | ErrWriteMsgIncompletely
  | ErrWrite io_error

datatype give_back = NothingBorrowed | StreamReturned handle handle | StreamDropped handle handle

definition payloadCompressType :: "bool \<Rightarrow> compress_type" where
  "payloadCompressType compressMsg = (if compressMsg then CompressTypeGzip else CompressTypeNone)"

text \<open>
  \<open>borrow pool\<close> is the answer of the pool's \<open>BorrowStream\<close>, \<open>write stream bz\<close> the count and error
  of \<open>sendStream.Write\<close>. The result: the error, what was written, what was done with the stream in
  the deferred function.
\<close>

record send_world =
  sw_idle :: "handle \<Rightarrow> int"
  sw_order :: "(handle \<times> handle) list"
  sw_borrow :: "handle \<Rightarrow> pool_error + handle"
  sw_write :: "handle \<Rightarrow> bytes \<Rightarrow> int \<times> io_error option"
  sw_nwClosed :: bool
  sw_connClosed :: bool

definition write_package ::
  "codec \<Rightarrow> bool \<Rightarrow> send_world \<Rightarrow> protocol_id \<Rightarrow> bytes \<Rightarrow> handle \<Rightarrow> (send_error option \<times> bytes option) run"
where
  "write_package K compressMsg W protocolID msgPayload sendStream =
     (case Marshal K (NewPayloadPackage protocolID msgPayload (payloadCompressType compressMsg)) of
        Inl e \<Rightarrow> Returns (Some (ErrMarshal e), None)
      | Inr pkgBz \<Rightarrow>
          (let buffer = intToBytes K (int (length pkgBz)) @ pkgBz;
               (n, err) = sw_write W sendStream buffer
           in case err of
                Some e \<Rightarrow>
                  if sw_nwClosed W then Returns (None, Some buffer)
                  else run_bind (CheckClosedConnectionWithErr (sw_connClosed W) (Some e)) (\<lambda>closed.
                    Returns (Some (if closed then ErrWrite e else ErrSendStreamWriteFailed), Some buffer))
              | None \<Rightarrow>
                  if n < int (length pkgBz) + 8 then Returns (Some ErrWriteMsgIncompletely, Some buffer)
                  else Returns (None, Some buffer)))"

definition SendMsg ::
  "('s, 'n, 'm) host_env \<Rightarrow> codec \<Rightarrow> bool \<Rightarrow> send_world \<Rightarrow> ('s, 'n, 'm, 'h) host
   \<Rightarrow> protocol_id \<Rightarrow> peer_id \<Rightarrow> bytes \<Rightarrow> (send_error option \<times> bytes option \<times> give_back) run" where
  "SendMsg E K compressMsg W h protocolID receiverPID msgPayload =
     (if \<not> Connected (he_N E) (connMgr h) receiverPID
      then Returns (Some ErrPeerNotConnected, None, NothingBorrowed)
      else if \<not> SupportedByPeer (basic_book_ops (he_S E)) (protocolMgr h) receiverPID protocolID
      then Returns (Some ErrProtocolNotSupported, None, NothingBorrowed)
      else run_bind (GetPeerBestConnSendStreamPool (sw_idle W) (sw_order W) (sendStreamPoolMgr h) receiverPID)
        (\<lambda>sendStreamPool. case sendStreamPool of
           None \<Rightarrow> Returns (Some ErrSendStreamPoolNotFound, None, NothingBorrowed)
         | Some pool \<Rightarrow>
             (case sw_borrow W pool of
                Inl e \<Rightarrow> Returns (Some (ErrBorrow e), None, NothingBorrowed)
              | Inr sendStream \<Rightarrow>
                  run_bind (write_package K compressMsg W protocolID msgPayload sendStream)
                    (\<lambda>(err, written). Returns (err, written,
                       if err = Some ErrSendStreamWriteFailed \<or> err = Some ErrWriteMsgIncompletely
                       then StreamDropped pool sendStream else StreamReturned pool sendStream)))))"

section \<open>Receiving\<close>

text \<open>
  \<open>handleReceiveStream\<close>: the stream is recorded, and closed when the manager refuses it; the
  handler loop is started in both cases (the second component).
\<close>

definition handleReceiveStream ::
  "('s, 'n, 'm) host_env \<Rightarrow> handle \<Rightarrow> handle \<Rightarrow> ('s, 'n, 'm, 'h) host \<Rightarrow> ('s, 'n, 'm, 'h) host \<times> handle list" where
  "handleReceiveStream E conn receiveStream h =
     (let (r, err) = AddPeerReceiveStream (he_N E) (rpid E) (receiveStreamMgr h) conn receiveStream;
          h1 = h\<lparr>receiveStreamMgr := r\<rparr>
      in (case err of
            None \<Rightarrow> h1
          | Some _ \<Rightarrow> h1\<lparr>effects := (effects h1)\<lparr>closedStreams := closedStreams (effects h1) @ [receiveStream]\<rparr>\<rparr>,
          [receiveStream]))"

text \<open>The end of \<open>receiveStreamHandlerLoop\<close>, after the loop broke off with an error.\<close>

definition receiveStreamEnded ::
  "('s, 'n, 'm) host_env \<Rightarrow> bool \<Rightarrow> bool \<Rightarrow> handle \<Rightarrow> handle \<Rightarrow> io_error \<Rightarrow> ('s, 'n, 'm, 'h) host
   \<Rightarrow> ('s, 'n, 'm, 'h) host run" where
  "receiveStreamEnded E nwClosed connClosed conn receiveStream err h =
     (if nwClosed then Returns h
      else run_bind (CheckClosedConnectionWithErr connClosed (Some err)) (\<lambda>closed.
        if closed then Returns (close_conns [conn] h)
        else Returns (h\<lparr>receiveStreamMgr :=
                 RemovePeerReceiveStream (he_N E) (rpid E) (receiveStreamMgr h) conn receiveStream,
               effects := (effects h)\<lparr>closedStreams := closedStreams (effects h) @ [receiveStream]\<rparr>\<rparr>)))"

text \<open>
  \<open>acceptReceiveStreamLoop\<close>: what each round meets, and how the loop ends. \<open>CleanedUp\<close> is the end
  that calls \<open>handleClosingConn\<close>. The result lists the streams handled and tells how often the
  connection was closed by the loop.
\<close>

record accept_round =
  ar_hostClosed :: bool
  ar_connClosed :: bool
  ar_accept :: "io_error + handle"
  ar_connClosedAfter :: bool

datatype accept_end = StillAccepting | HostStopped | CleanedUp | StoppedWithoutCleanup

fun acceptReceiveStreamLoop :: "accept_round list \<Rightarrow> handle list \<times> nat \<times> accept_end" where
  "acceptReceiveStreamLoop [] = ([], 0, StillAccepting)"
| "acceptReceiveStreamLoop (i # is) =
     (if ar_hostClosed i then ([], 0, HostStopped)
      else if ar_connClosed i then ([], 0, CleanedUp)
      else (case ar_accept i of
              Inl err \<Rightarrow>
                if CheckClosedConnectionWithErr (ar_connClosedAfter i) (Some err) = Returns True
                   \<or> ar_connClosedAfter i
                then ([], 0, StoppedWithoutCleanup)
                else (let (ss, n, e) = acceptReceiveStreamLoop is in (ss, n + 1, e))
            | Inr s \<Rightarrow> (let (ss, n, e) = acceptReceiveStreamLoop is in (s # ss, n, e))))"

section \<open>The pipeline\<close>

text \<open>The three tasks. A result \<open>None\<close> is \<open>ok = false\<close>: the item is dropped.\<close>

definition handleReceiveStreamDataTask ::
  "codec \<Rightarrow> int \<Rightarrow> bytes \<times> peer_id \<Rightarrow> (payload_pkg \<times> peer_id) option run" where
  "handleReceiveStreamDataTask K maxSlice item =
     (let (pkgBz, remotePID) = item
      in if length pkgBz = 0 then Returns None
         else run_bind (Unmarshal K maxSlice \<lparr>pkg_protocol = [], pkg_payload = [], pkg_compressType = CompressTypeNone\<rparr> pkgBz)
           (\<lambda>(pkg, err). case err of Some _ \<Rightarrow> Returns None | None \<Rightarrow> Returns (Some (pkg, remotePID))))"

record 'h payload_job =
  job_handler :: 'h
  job_payload :: bytes
  job_remotePID :: peer_id
  job_protocolID :: protocol_id

definition routePayloadToHandlerTask ::
  "('b, 'h, 'f) protocol_manager \<Rightarrow> payload_pkg \<times> peer_id \<Rightarrow> 'h payload_job option" where
  "routePayloadToHandlerTask pm item =
     (let (pkg, remotePID) = item
      in case Handler pm (pkg_protocol pkg) of
           None \<Rightarrow> None
         | Some handler \<Rightarrow> Some \<lparr>job_handler = handler, job_payload = pkg_payload pkg,
             job_remotePID = remotePID, job_protocolID = pkg_protocol pkg\<rparr>)"

text \<open>One call of a handler: the handler, the sender, the payload.\<close>

definition callHandlerTask :: "'h payload_job \<Rightarrow> 'h \<times> peer_id \<times> bytes" where
  "callHandlerTask job = (job_handler job, job_remotePID job, job_payload job)"

definition run_pipeline ::
  "codec \<Rightarrow> int \<Rightarrow> ('b, 'h, 'f) protocol_manager \<Rightarrow> bytes \<times> peer_id \<Rightarrow> ('h \<times> peer_id \<times> bytes) option run" where
  "run_pipeline K maxSlice pm item =
     run_bind (handleReceiveStreamDataTask K maxSlice item) (\<lambda>out.
       Returns (case out of None \<Rightarrow> None
         | Some x \<Rightarrow> map_option callHandlerTask (routePayloadToHandlerTask pm x)))"

section \<open>Dialling\<close>

datatype dial_error = ErrInvalidAddr | ErrNoAddressFoundInStore | ErrAllDialFailed

text \<open>
  \<open>nwDial\<close> is the answer of \<open>nw.Dial\<close>. The loop over the stored addresses returns the connection
  or else the last address tried, and the addresses tried in order.
\<close>

fun dial_stored ::
  "('m, 'c) addr_ops \<Rightarrow> ('m \<Rightarrow> io_error + handle) \<Rightarrow> peer_id \<Rightarrow> 'm list \<Rightarrow> 'm option
   \<Rightarrow> (handle option \<times> 'm option) \<times> 'm list" where
  "dial_stored A nwDial pid [] addr = ((None, addr), [])"
| "dial_stored A nwDial pid (a # as) addr =
     (let (tmpAddr, tmpPID) = SplitAddrToTransportAndPID A (Some a)
      in if tmpPID \<noteq> '''' \<and> tmpPID \<noteq> pid then dial_stored A nwDial pid as addr
         else
           (let a' = (if tmpPID = '''' then PIDAndNetAddrToMultiAddr A pid tmpAddr else a)
            in case nwDial a' of
                 Inr conn \<Rightarrow> ((Some conn, Some a'), [a'])
               | Inl _ \<Rightarrow> (let (r, tried) = dial_stored A nwDial pid as (Some a') in (r, a' # tried))))"

text \<open>The final log statement reads \<open>addr.String()\<close>, which panics on a nil address.\<close>

definition dial ::
  "('m, 'c) addr_ops \<Rightarrow> ('m \<Rightarrow> io_error + handle) \<Rightarrow> 'm address_book \<Rightarrow> peer_id \<Rightarrow> 'm option
   \<Rightarrow> ((dial_error + handle) \<times> 'm list) run" where
  "dial A nwDial book pid addr =
     (case addr of
        None \<Rightarrow>
          (let remoteAddresses = GetAddresses book pid
           in if length remoteAddresses = 0 then Returns (Inl ErrNoAddressFoundInStore, [])
              else (case dial_stored A nwDial pid remoteAddresses None of
                      ((Some conn, _), tried) \<Rightarrow> Returns (Inr conn, tried)
                    | ((None, None), tried) \<Rightarrow> Panics NilDereference
                    | ((None, Some _), tried) \<Rightarrow> Returns (Inl ErrAllDialFailed, tried)))
      | Some a \<Rightarrow>
          (case nwDial a of
             Inr conn \<Rightarrow> Returns (Inr conn, [a])
           | Inl _ \<Rightarrow> Returns (Inl ErrAllDialFailed, [a])))"

definition Dial ::
  "('m, 'c) addr_ops \<Rightarrow> ('m \<Rightarrow> io_error + handle) \<Rightarrow> 'm address_book \<Rightarrow> 'm option
   \<Rightarrow> ((dial_error + handle) \<times> 'm list) run" where
  "Dial A nwDial book remoteAddr =
     (let (remoteNetAddr, remotePID) = SplitAddrToTransportAndPID A remoteAddr
      in if remoteNetAddr = None \<and> remotePID = '''' then Returns (Inl ErrInvalidAddr, [])
         else dial A nwDial book remotePID remoteAddr)"

section \<open>Protocols, pushes, notifications, direct peers\<close>

definition PeerProtocols ::
  "('s, 'n, 'm) host_env \<Rightarrow> ('s, 'n, 'm, 'h) host \<Rightarrow> protocol_id list \<Rightarrow> (peer_id \<times> protocol_id list) list"
where
  "PeerProtocols E h protocolIDs =
     (if length protocolIDs = 0 then []
      else foldl (\<lambda>res pid.
             if list_all (SupportedByPeer (basic_book_ops (he_S E)) (protocolMgr h) pid) protocolIDs
             then res @ [(pid, SupportedProtocolsOfPeer (basic_book_ops (he_S E)) (protocolMgr h) pid)]
             else res) [] (AllPeers (connMgr h)))"

definition PeerSupportProtocol ::
  "('s, 'n, 'm) host_env \<Rightarrow> ('s, 'n, 'm, 'h) host \<Rightarrow> peer_id \<Rightarrow> protocol_id \<Rightarrow> bool" where
  "PeerSupportProtocol E h pid protocolID =
     SupportedByPeer (basic_book_ops (he_S E)) (protocolMgr h) pid protocolID"

text \<open>\<open>pushProtocolSignalC\<close> holds at most two signals; the number of them is the state.\<close>

definition triggerPushProtocol :: "nat \<Rightarrow> nat" where
  "triggerPushProtocol signals = (if signals < 2 then signals + 1 else signals)"

definition host_RegisterMsgPayloadHandler ::
  "('s, 'n, 'm) host_env \<Rightarrow> ('s, 'n, 'm, 'h) host \<times> nat \<Rightarrow> protocol_id \<Rightarrow> 'h option
   \<Rightarrow> (('s, 'n, 'm, 'h) host \<times> nat) \<times> pm_error option" where
  "host_RegisterMsgPayloadHandler E hs protocolID handler =
     (let (h, signals) = hs;
          (pm, err) = RegisterMsgPayloadHandler (basic_book_ops (he_S E)) (protocolMgr h) protocolID handler;
          h' = h\<lparr>protocolMgr := pm\<rparr>
      in case err of Some e \<Rightarrow> ((h', signals), Some e) | None \<Rightarrow> ((h', triggerPushProtocol signals), None))"

definition host_UnregisterMsgPayloadHandler ::
  "('s, 'n, 'm) host_env \<Rightarrow> ('s, 'n, 'm, 'h) host \<times> nat \<Rightarrow> protocol_id
   \<Rightarrow> (('s, 'n, 'm, 'h) host \<times> nat) \<times> pm_error option" where
  "host_UnregisterMsgPayloadHandler E hs protocolID =
     (let (h, signals) = hs;
          (pm, err) = UnregisterMsgPayloadHandler (basic_book_ops (he_S E)) (protocolMgr h) protocolID;
          h' = h\<lparr>protocolMgr := pm\<rparr>
      in case err of Some e \<Rightarrow> ((h', signals), Some e) | None \<Rightarrow> ((h', triggerPushProtocol signals), None))"

datatype notification =
    OnPeerConnected peer_id
  | OnPeerDisconnected peer_id
  | OnPeerProtocolSupported protocol_id peer_id
  | OnPeerProtocolUnsupported protocol_id peer_id

text \<open>Every registered notifiee is called, in the order of the set's \<open>Range\<close>.\<close>

definition notifyProtocolHandlers ::
  "(handle, 'n) set_ops \<Rightarrow> 'n \<Rightarrow> protocol_id \<Rightarrow> peer_id \<Rightarrow> bool \<Rightarrow> (handle \<times> notification) list" where
  "notifyProtocolHandlers N notifiees protocolID pid supported =
     map (\<lambda>n. (n, if supported then OnPeerProtocolSupported protocolID pid
                  else OnPeerProtocolUnsupported protocolID pid)) (set_range N notifiees)"

definition notifyConnectHandlers ::
  "(handle, 'n) set_ops \<Rightarrow> 'n \<Rightarrow> peer_id \<Rightarrow> bool \<Rightarrow> (handle \<times> notification) list" where
  "notifyConnectHandlers N notifiees pid connectedOrDisconnected =
     map (\<lambda>n. (n, if connectedOrDisconnected then OnPeerConnected pid else OnPeerDisconnected pid))
       (set_range N notifiees)"

text \<open>One round of \<open>notifyConnLoop\<close>: the state of the connection at that moment decides.\<close>

definition notifyConn ::
  "(handle, 'n) set_ops \<Rightarrow> 'n \<Rightarrow> 'm connection \<Rightarrow> (handle \<times> notification) list" where
  "notifyConn N notifiees conn =
     notifyConnectHandlers N notifiees (conn_remotePID conn) (\<not> Closed (conn_status conn))"

record ('s, 'n, 'm) direct_state =
  ds_directPeers :: "(peer_id \<rightharpoonup> 'm) option"
  ds_supervisor :: "'m supervisor"
  ds_connMgr :: "('s, 'n) lcm"

definition setDirectPeer ::
  "(peer_id, 's) set_ops \<Rightarrow> ('s, 'n, 'm) direct_state \<Rightarrow> peer_id \<Rightarrow> 'm \<Rightarrow> ('s, 'n, 'm) direct_state" where
  "setDirectPeer S d pid dp =
     d\<lparr>ds_supervisor := SetPeerAddr (ds_supervisor d) pid dp,
       ds_connMgr := AddHighLevelPeer S (ds_connMgr d) pid\<rparr>"

definition AddDirectPeer ::
  "('m, 'c) addr_ops \<Rightarrow> (peer_id, 's) set_ops \<Rightarrow> ('s, 'n, 'm) direct_state \<Rightarrow> 'm \<Rightarrow> ('s, 'n, 'm) direct_state"
where
  "AddDirectPeer A S d dp =
     (let (_, pid) = SplitAddrToTransportAndPID A (Some dp)
      in if length pid = 0 then d
         else
           (let peers = (case ds_directPeers d of None \<Rightarrow> Map.empty | Some m \<Rightarrow> m)
            in setDirectPeer S (d\<lparr>ds_directPeers := Some (peers(pid \<mapsto> dp))\<rparr>) pid dp))"

definition ClearDirectPeers :: "('s, 'n, 'm) direct_state \<Rightarrow> ('s, 'n, 'm) direct_state" where
  "ClearDirectPeers d = d\<lparr>ds_directPeers := Some Map.empty, ds_supervisor := RemoveAllPeer (ds_supervisor d)\<rparr>"

section \<open>Lemmas\<close>

lemma write_package_outcome:
  assumes "write_package K compressMsg W x payload s = Returns (err, written)"
  shows "err = None \<Longrightarrow> \<exists>bz. Marshal K (NewPayloadPackage x payload (payloadCompressType compressMsg)) = Inr bz \<and>
      written = Some (frame K bz) \<and>
      (sw_nwClosed W \<or> (snd (sw_write W s (frame K bz)) = None \<and>
         int (length bz) + 8 \<le> fst (sw_write W s (frame K bz))))"
  using assms
  by (auto simp: write_package_def Let_def frame_def run_bind_Returns_iff case_prod_unfold
      split: sum.splits option.splits if_splits)

lemma SendMsg_borrowed:
  assumes "SendMsg E K compressMsg W h x pid payload = Returns (err, written, back)" and "back \<noteq> NothingBorrowed"
  obtains pool s where "sw_borrow W pool = Inr s"
    "write_package K compressMsg W x payload s = Returns (err, written)"
    "back = (if err = Some ErrSendStreamWriteFailed \<or> err = Some ErrWriteMsgIncompletely
             then StreamDropped pool s else StreamReturned pool s)"
    "Connected (he_N E) (connMgr h) pid"
    "SupportedByPeer (basic_book_ops (he_S E)) (protocolMgr h) pid x"
    "GetPeerBestConnSendStreamPool (sw_idle W) (sw_order W) (sendStreamPoolMgr h) pid = Returns (Some pool)"
proof -
  have c: "Connected (he_N E) (connMgr h) pid"
    "SupportedByPeer (basic_book_ops (he_S E)) (protocolMgr h) pid x"
    using assms by (auto simp: SendMsg_def split: if_splits)
  then obtain sp where g:
    "GetPeerBestConnSendStreamPool (sw_idle W) (sw_order W) (sendStreamPoolMgr h) pid = Returns sp"
    using assms(1) by (auto simp: SendMsg_def run_bind_Returns_iff)
  obtain pool where pool: "sp = Some pool" using assms c g by (cases sp) (auto simp: SendMsg_def)
  obtain s where s: "sw_borrow W pool = Inr s"
    using assms c g pool by (cases "sw_borrow W pool") (auto simp: SendMsg_def)
  obtain e w where r: "write_package K compressMsg W x payload s = Returns (e, w)"
    using assms(1) c g pool s by (auto simp: SendMsg_def run_bind_Returns_iff)
  have b: "Returns (err, written, back) = Returns (e, w,
      if e = Some ErrSendStreamWriteFailed \<or> e = Some ErrWriteMsgIncompletely
      then StreamDropped pool s else StreamReturned pool s)"
    by (rule trans [OF assms(1) [symmetric]]) (simp add: SendMsg_def c g pool s r)
  have w: "err = e" "written = w" using b by simp_all
  have "back = (if err = Some ErrSendStreamWriteFailed \<or> err = Some ErrWriteMsgIncompletely
      then StreamDropped pool s else StreamReturned pool s)"
    using b unfolding w by blast
  with r g pool w show ?thesis by (intro that [OF s _ _ c]) simp_all
qed

lemma SendMsg_not_borrowed:
  assumes "SendMsg E K compressMsg W h x pid payload = Returns (err, written, NothingBorrowed)"
  shows "written = None \<and> err \<noteq> None"
proof (cases "Connected (he_N E) (connMgr h) pid \<and>
    SupportedByPeer (basic_book_ops (he_S E)) (protocolMgr h) pid x")
  case False
  then show ?thesis using assms by (auto simp: SendMsg_def split: if_splits)
next
  case c: True
  then obtain sp where g:
    "GetPeerBestConnSendStreamPool (sw_idle W) (sw_order W) (sendStreamPoolMgr h) pid = Returns sp"
    using assms(1) by (auto simp: SendMsg_def run_bind_Returns_iff)
  show ?thesis
  proof (cases sp)
    case None
    then show ?thesis using assms c g by (auto simp: SendMsg_def)
  next
    case (Some pool)
    then show ?thesis using assms c g
      by (cases "sw_borrow W pool")
         (auto simp: SendMsg_def run_bind_Returns_iff case_prod_unfold split: if_splits)
  qed
qed

lemma pipeline_of_marshalled:
  assumes K: "codec_laws K" and m: "Marshal K p = Inr bz" and s: "sendable maxSlice bz"
    and ne: "pkg_protocol p \<noteq> []"
  shows "run_pipeline K maxSlice pm (bz, sender) =
    Returns (map_option (\<lambda>f. (f, sender, pkg_payload p)) (Handler pm (pkg_protocol p)))"
proof -
  have "Unmarshal K maxSlice q bz = Returns (p, None)" for q
    using payload_round_trip [OF K m, of maxSlice q] s ne by (simp add: sendable_def)
  moreover have "bz \<noteq> []" using m ne by (auto simp: Marshal_def split: sum.splits)
  ultimately show ?thesis
    by (simp add: run_pipeline_def handleReceiveStreamDataTask_def routePayloadToHandlerTask_def
        callHandlerTask_def split: option.split)
qed

lemma receive_one_frame:
  assumes K: "codec_laws K" "length_law K u" and max: "8 \<le> maxSlice" and s: "sendable maxSlice bz"
    and a: "avail s = frame K bz"
  shows "fst (receiveStreamHandlerLoop u maxSlice s) = [bz]"
proof -
  have l: "length (intToBytes K 0) = 8" using K(1) by (simp add: codec_laws_def)
  then have "frame K [] = [] @ intToBytes K 0" "intToBytes K 0 \<noteq> []" by (auto simp: frame_def)
  moreover have "sendable maxSlice []" using max by (simp add: sendable_def)
  ultimately show ?thesis
    using loop_frames [OF K max, of "[bz]" "[]" "[]" "intToBytes K 0" s] s a by simp
qed

text \<open>The rounds after which the accept loop goes on, and what they yield.\<close>

definition carries_on :: "accept_round \<Rightarrow> bool" where
  "carries_on i \<longleftrightarrow> \<not> ar_hostClosed i \<and> \<not> ar_connClosed i \<and>
     (case ar_accept i of Inr _ \<Rightarrow> True
      | Inl err \<Rightarrow> \<not> ar_connClosedAfter i \<and>
          CheckClosedConnectionWithErr (ar_connClosedAfter i) (Some err) \<noteq> Returns True)"

definition accepted_streams :: "accept_round list \<Rightarrow> handle list" where
  "accepted_streams rounds = concat (map (\<lambda>i. case ar_accept i of Inl _ \<Rightarrow> [] | Inr s \<Rightarrow> [s]) rounds)"

definition failed_rounds :: "accept_round list \<Rightarrow> nat" where
  "failed_rounds rounds = length (filter (\<lambda>i. case ar_accept i of Inl _ \<Rightarrow> True | Inr _ \<Rightarrow> False) rounds)"

lemma accept_loop_carries_on:
  "list_all carries_on rounds \<Longrightarrow> acceptReceiveStreamLoop (rounds @ rest) =
     (let (ss, n, e) = acceptReceiveStreamLoop rest
      in (accepted_streams rounds @ ss, failed_rounds rounds + n, e))"
proof (induction rounds)
  case (Cons i rounds)
  then show ?case
    by (cases "ar_accept i")
       (auto simp: carries_on_def accepted_streams_def failed_rounds_def Let_def case_prod_unfold)
qed (simp add: accepted_streams_def failed_rounds_def)

section \<open>Properties\<close>

text \<open>The host of \<open>me\<close>, connected to \<open>you\<close> with a pool, and a network that takes every write.\<close>

definition sending_host :: "(string list, handle list, string, nat) host" where
  "sending_host =
     (let h = sample_host [\<lparr>pc_pid = ''you'', pc_connSet = [1]\<rparr>]
      in h\<lparr>protocolMgr := (protocolMgr h)\<lparr>pm_protocolBook := \<lparr>pb_book = [''you'' \<mapsto> [''/chat'']], pb_localPID = ''me''\<rparr>\<rparr>,
           sendStreamPoolMgr := \<lparr>pm_pools = [''you'' \<mapsto> [1 \<mapsto> 11]]\<rparr>\<rparr>)"

definition sample_world :: "io_error option \<Rightarrow> send_world" where
  "sample_world e =
     \<lparr>sw_idle = (\<lambda>_. 1), sw_order = [(1, 11)], sw_borrow = (\<lambda>_. Inr 5),
      sw_write = (\<lambda>_ bz. (int (length bz), e)), sw_nwClosed = False, sw_connClosed = False\<rparr>"

lemma sample_package:
  obtains bz where "Marshal sample_codec (NewPayloadPackage ''/chat'' ''hi'' CompressTypeNone) = Inr bz"
    "length bz = 24"
  by (simp add: Marshal_def finalPayload_def sample_codec_def NewPayloadPackage_def)

lemma sample_sent:
  assumes "Marshal sample_codec (NewPayloadPackage ''/chat'' ''hi'' CompressTypeNone) = Inr bz"
  shows "SendMsg sample_env sample_codec False (sample_world None) sending_host ''/chat'' ''you'' ''hi'' =
    Returns (None, Some (frame sample_codec bz), StreamReturned 11 5)"
proof -
  have "length (intToBytes sample_codec n) = 8" for n by (simp add: sample_codec_def)
  then show ?thesis using assms
    by (simp add: SendMsg_def sending_host_def sample_host_def sample_env_def sample_world_def Let_def
        Connected_def getHighLevelConnections_def getLowLevelConnections_def SupportedByPeer_def
        basic_book_ops_def ContainsProtocol_def GetPeerBestConnSendStreamPool_def write_package_def
        payloadCompressType_def frame_def)
qed

text \<open>
  C13. \<open>SendMsg\<close> gives a borrowed stream back exactly once, to the pool it came from: it is dropped exactly
  when \<open>SendMsg\<close> reports \<open>ErrSendStreamWriteFailed\<close> or \<open>ErrWriteMsgIncompletely\<close>, and returned in
  every other case, also after a write that failed while the network was closed or the connection was
  taken for closed; without a borrowed stream nothing is written and an error is returned. When it
  reports success, the peer was connected and supports the protocol, and the bytes written are the frame
  of the marshalled package, written completely unless the network was closed meanwhile.
\<close>

theorem send_message_outcome:
  assumes "SendMsg E K compressMsg W h x pid payload = Returns (err, written, back)"
  shows "(case back of
      NothingBorrowed \<Rightarrow> written = None \<and> err \<noteq> None
    | StreamDropped pool s \<Rightarrow> sw_borrow W pool = Inr s \<and>
        (err = Some ErrSendStreamWriteFailed \<or> err = Some ErrWriteMsgIncompletely)
    | StreamReturned pool s \<Rightarrow> sw_borrow W pool = Inr s \<and>
        err \<noteq> Some ErrSendStreamWriteFailed \<and> err \<noteq> Some ErrWriteMsgIncompletely) \<and>
    (err = None \<longrightarrow> Connected (he_N E) (connMgr h) pid \<and>
       SupportedByPeer (basic_book_ops (he_S E)) (protocolMgr h) pid x \<and>
       (\<exists>bz pool s. Marshal K (NewPayloadPackage x payload (payloadCompressType compressMsg)) = Inr bz \<and>
          sw_borrow W pool = Inr s \<and> written = Some (frame K bz) \<and>
          (sw_nwClosed W \<or> int (length bz) + 8 \<le> fst (sw_write W s (frame K bz)))))"
proof (cases "back = NothingBorrowed")
  case True
  then show ?thesis using SendMsg_not_borrowed assms by fastforce
next
  case False
  from SendMsg_borrowed [OF assms False] obtain pool s where b: "sw_borrow W pool = Inr s"
    "write_package K compressMsg W x payload s = Returns (err, written)"
    "back = (if err = Some ErrSendStreamWriteFailed \<or> err = Some ErrWriteMsgIncompletely
             then StreamDropped pool s else StreamReturned pool s)"
    "Connected (he_N E) (connMgr h) pid"
    "SupportedByPeer (basic_book_ops (he_S E)) (protocolMgr h) pid x" by metis
  show ?thesis using write_package_outcome [OF b(2)] b by (auto split: if_splits)
qed

theorem send_message_outcome_witness:
  "\<exists>bz. SendMsg sample_env sample_codec False (sample_world None) sending_host ''/chat'' ''you'' ''hi'' =
      Returns (None, Some (frame sample_codec bz), StreamReturned 11 5) \<and>
     sw_borrow (sample_world None) 11 = Inr 5 \<and> Connected list_set (connMgr sending_host) ''you''"
proof -
  obtain bz where "Marshal sample_codec (NewPayloadPackage ''/chat'' ''hi'' CompressTypeNone) = Inr bz"
    by (rule sample_package)
  note r = sample_sent [OF this]
  from send_message_outcome [OF r] r show ?thesis by (auto simp: sample_env_def)
qed

text \<open>
  C5. A message sent is handled: if \<open>SendMsg\<close> succeeds and the network was not closed, the bytes it
  wrote, read on the other side in any portions, make the receive loop push one package, and the
  receiver's pipeline calls the handler registered for the message's protocol, and only it, with
  the sender's id and exactly the payload; without a registered handler the message is dropped.
\<close>

theorem sent_message_reaches_handler:
  assumes K: "codec_laws K" and u: "length_law K u" and max: "8 \<le> maxSlice" and x: "x \<noteq> []"
    and r: "SendMsg E K compressMsg W h x pid payload = Returns (None, written, back)"
    and fits: "\<forall>bz. written = Some (frame K bz) \<longrightarrow> sendable maxSlice bz"
    and s: "written = Some (avail s)"
  shows "map (\<lambda>bz. run_pipeline K maxSlice pm (bz, me)) (fst (receiveStreamHandlerLoop u maxSlice s)) =
    [Returns (map_option (\<lambda>f. (f, me, payload)) (Handler pm x))]"
proof -
  have "back \<noteq> NothingBorrowed" using SendMsg_not_borrowed r by fastforce
  from SendMsg_borrowed [OF r this] write_package_outcome obtain bz where
    m: "Marshal K (NewPayloadPackage x payload (payloadCompressType compressMsg)) = Inr bz"
    and w: "written = Some (frame K bz)" by metis
  have sb: "sendable maxSlice bz" using fits w by blast
  have "fst (receiveStreamHandlerLoop u maxSlice s) = [bz]"
    by (rule receive_one_frame [OF K u max sb]) (use s w in simp)
  moreover have "run_pipeline K maxSlice pm (bz, me) = Returns (map_option (\<lambda>f. (f, me, payload)) (Handler pm x))"
    using pipeline_of_marshalled [OF K m sb, of pm me] x by (simp add: NewPayloadPackage_def)
  ultimately show ?thesis by simp
qed

theorem sent_message_reaches_handler_witness:
  "\<exists>bz. map (\<lambda>x. run_pipeline sample_codec 1000 (protocolMgr (sample_host [])\<lparr>pm_handlers := [''/chat'' \<mapsto> Some 7]\<rparr>) (x, ''me''))
     (fst (receiveStreamHandlerLoop sample_u64 1000
        [Chunk (take 4 (frame sample_codec bz)), Chunk (drop 4 (frame sample_codec bz))])) =
     [Returns (Some (7, ''me'', ''hi''))]"
proof -
  obtain bz where m: "Marshal sample_codec (NewPayloadPackage ''/chat'' ''hi'' CompressTypeNone) = Inr bz"
    and l: "length bz = 24" by (rule sample_package)
  let ?s = "[Chunk (take 4 (frame sample_codec bz)), Chunk (drop 4 (frame sample_codec bz))]"
  have "\<forall>b. Some (frame sample_codec bz) = Some (frame sample_codec b) \<longrightarrow> sendable 1000 b"
  proof (intro allI impI)
    fix b assume "Some (frame sample_codec bz) = Some (frame sample_codec b)"
    then have "length (frame sample_codec bz) = length (frame sample_codec b)" by simp
    then show "sendable 1000 b" using l by (simp add: frame_def sample_codec_def sendable_def)
  qed
  from sent_message_reaches_handler [OF sample_codec_laws sample_length_law _ _ sample_sent [OF m] this,
      of ?s "protocolMgr (sample_host [])\<lparr>pm_handlers := [''/chat'' \<mapsto> Some 7]\<rparr>" "''me''"]
  show ?thesis by (intro exI [of _ bz]) (simp add: Handler_def)
qed

text \<open>
  When the connection is closed while \<open>Accept\<close> waits, the accept loop ends without the cleanup:
  after any number of rounds it has handled exactly the streams accepted so far, in order, closed
  the connection once per failed round, and then it breaks off without \<open>handleClosingConn\<close>, so that
  the connection stays registered. Only a connection found closed at the top of a round is cleaned up.
\<close>

theorem connection_closed_during_accept_is_not_cleaned_up:
  assumes "list_all carries_on rounds" and "\<not> ar_hostClosed i" and "\<not> ar_connClosed i"
  shows "(ar_accept i = Inl err \<and> ar_connClosedAfter i \<longrightarrow>
      acceptReceiveStreamLoop (rounds @ i # rest) =
        (accepted_streams rounds, failed_rounds rounds, StoppedWithoutCleanup)) \<and>
    acceptReceiveStreamLoop (rounds @ i\<lparr>ar_connClosed := True\<rparr> # rest) =
      (accepted_streams rounds, failed_rounds rounds, CleanedUp)"
  using assms by (simp add: accept_loop_carries_on CheckClosed_conn)

theorem connection_closed_during_accept_is_not_cleaned_up_witness:
  "acceptReceiveStreamLoop
     [\<lparr>ar_hostClosed = False, ar_connClosed = False, ar_accept = Inr 5, ar_connClosedAfter = False\<rparr>,
      \<lparr>ar_hostClosed = False, ar_connClosed = False, ar_accept = Inl \<lparr>err_text = ''EOF'', err_net = None\<rparr>,
       ar_connClosedAfter = True\<rparr>] = ([5], 0, StoppedWithoutCleanup)"
proof -
  let ?a = "\<lparr>ar_hostClosed = False, ar_connClosed = False, ar_accept = Inr 5, ar_connClosedAfter = False\<rparr>"
  let ?b = "\<lparr>ar_hostClosed = False, ar_connClosed = False, ar_accept = Inl \<lparr>err_text = ''EOF'', err_net = None\<rparr>,
    ar_connClosedAfter = True\<rparr>"
  have "list_all carries_on [?a]" by (simp add: carries_on_def)
  from connection_closed_during_accept_is_not_cleaned_up [OF this, of ?b "\<lparr>err_text = ''EOF'', err_net = None\<rparr>" "[]"]
  show ?thesis by (simp add: accepted_streams_def failed_rounds_def)
qed

end
