(* ===== verification/Concurrent_Sends.thy ===== *)
theory Concurrent_Sends
  imports Host_Messages
begin

text \<open>
  \<open>SendMsg\<close> of \<open>host.go\<close> called by many goroutines at once, over one pool of \<open>components/send_stream_pool.go\<close> with
  its expand loop: the critical sections of \<open>BorrowStream\<close>, the marshalling, the write, which puts its bytes on
  the stream in portions, and the deferred call that returns or drops the stream. What the other side reads of such
  a stream is then handed to the receive loop and the pipeline.
\<close>

section \<open>The steps of a sender\<close>

text \<open>
  Where a call of \<open>SendMsg\<close> is, from the moment it has chosen the pool. \<open>SendWriting h bz n\<close>: the frame of
  \<open>bz\<close> is being written to \<open>h\<close>, and \<open>n\<close> bytes of it are on the wire. \<open>SendGiveBack\<close> is the deferred function.
\<close>

datatype send_pc =
    SendBorrow
  | SendBorrowAgain
  | SendTrigger handle
  | SendMarshal handle
  | SendWriting handle bytes nat
  | SendGiveBack handle "send_error option"
  | SendDone "send_error option"

type_synonym message = "protocol_id \<times> bytes"

text \<open>
  \<open>sd_wire\<close> is what was written to each stream. \<open>sd_sent\<close> records the messages whose frames are on a stream
  completely, with their packages,
  \<open>sd_closed\<close> the streams that were closed, and \<open>sd_broken\<close> those on which a frame was cut off and the connection
  was taken for closed.
\<close>

record send_sys =
  sd_pool :: send_stream_pool
  sd_senders :: "thread \<rightharpoonup> message \<times> send_pc"
  sd_wire :: "handle \<Rightarrow> bytes"
  sd_sent :: "handle \<Rightarrow> (message \<times> bytes) list"
  sd_closed :: "handle set"
  sd_broken :: "handle set"

definition set_sender :: "send_sys \<Rightarrow> thread \<Rightarrow> message \<Rightarrow> send_pc \<Rightarrow> send_sys" where
  "set_sender s t m pc = s\<lparr>sd_senders := (sd_senders s)(t \<mapsto> (m, pc))\<rparr>"

definition drops :: "send_error option \<Rightarrow> bool" where
  "drops err \<longleftrightarrow> err = Some ErrSendStreamWriteFailed \<or> err = Some ErrWriteMsgIncompletely"

definition message_package :: "bool \<Rightarrow> message \<Rightarrow> payload_pkg" where
  "message_package compressMsg m = NewPayloadPackage (fst m) (snd m) (payloadCompressType compressMsg)"

text \<open>
  A failed write after which the stream is kept: the network was closed, or \<open>CheckClosedConnectionWithErr\<close> takes the
  connection for closed, which it also does after a timeout.
\<close>

definition taken_for_closed :: "send_world \<Rightarrow> io_error option \<Rightarrow> bool" where
  "taken_for_closed W err \<longleftrightarrow> err \<noteq> None \<and> (sw_nwClosed W \<or> CheckClosedConnectionWithErr (sw_connClosed W) err = Returns True)"

text \<open>
  \<open>msgs\<close> are the messages the goroutines may be given. A step of the pool in which nothing is lent or given back
  belongs to another goroutine: \<open>InitStreams\<close>, the expand loop, \<open>Close\<close>. At the end of a write the error that
  \<open>Write\<close> answers, and what the network and the connection say of themselves, decide through \<open>write_package\<close>; a
  count below the length with no error is possible.
\<close>

inductive send_step :: "codec \<Rightarrow> bool \<Rightarrow> message set \<Rightarrow> opener \<Rightarrow> send_sys \<Rightarrow> send_sys \<Rightarrow> bool" for K compressMsg msgs opens where
  send_begin: "sd_senders s t = None \<Longrightarrow> m \<in> msgs \<Longrightarrow> send_step K compressMsg msgs opens s (set_sender s t m SendBorrow)"
| send_borrow: "sd_senders s t = Some (m, SendBorrow) \<Longrightarrow> BorrowStream_first p (sd_pool s) = (pool, r)
    \<Longrightarrow> send_step K compressMsg msgs opens s (set_sender (s\<lparr>sd_pool := pool\<rparr>) t m
          (case r of Borrowed h \<Rightarrow> SendTrigger h | BorrowFailed e \<Rightarrow> SendDone (Some (ErrBorrow e)) | BorrowAgain \<Rightarrow> SendBorrowAgain))"
| send_borrow_again: "sd_senders s t = Some (m, SendBorrowAgain) \<Longrightarrow> BorrowStream_second p (sd_pool s) = (pool, r)
    \<Longrightarrow> send_step K compressMsg msgs opens s (set_sender (s\<lparr>sd_pool := pool\<rparr>) t m
          (case r of Borrowed h \<Rightarrow> SendMarshal h | BorrowFailed e \<Rightarrow> SendDone (Some (ErrBorrow e)) | BorrowAgain \<Rightarrow> SendBorrow))"
| send_trigger: "sd_senders s t = Some (m, SendTrigger h)
    \<Longrightarrow> send_step K compressMsg msgs opens s (set_sender (s\<lparr>sd_pool := triggerExpand p (sd_pool s)\<rparr>) t m (SendMarshal h))"
| send_marshal: "sd_senders s t = Some (m, SendMarshal h)
    \<Longrightarrow> send_step K compressMsg msgs opens s (set_sender s t m
          (case Marshal K (message_package compressMsg m) of
             Inl e \<Rightarrow> SendGiveBack h (Some (ErrMarshal e)) | Inr bz \<Rightarrow> SendWriting h bz 0))"
| send_portion: "sd_senders s t = Some (m, SendWriting h bz n) \<Longrightarrow> n < k \<Longrightarrow> k \<le> length (frame K bz)
    \<Longrightarrow> send_step K compressMsg msgs opens s (set_sender
          (s\<lparr>sd_wire := (sd_wire s)(h := sd_wire s h @ take (k - n) (drop n (frame K bz))),
             sd_sent := (sd_sent s)(h := sd_sent s h @ (if k = length (frame K bz) then [(m, bz)] else []))\<rparr>)
          t m (SendWriting h bz k))"
| send_written: "sd_senders s t = Some (m, SendWriting h bz n) \<Longrightarrow> sw_write W h (frame K bz) = (int n, err)
    \<Longrightarrow> write_package K compressMsg W (fst m) (snd m) h = Returns (e, written)
    \<Longrightarrow> send_step K compressMsg msgs opens s (set_sender
          (s\<lparr>sd_broken := sd_broken s \<union> (if n < length (frame K bz) \<and> taken_for_closed W err then {h} else {})\<rparr>) t m (SendGiveBack h e))"
| send_drop: "sd_senders s t = Some (m, SendGiveBack h e) \<Longrightarrow> drops e \<Longrightarrow> DropStream h (sd_pool s) = (pool, dropped)
    \<Longrightarrow> send_step K compressMsg msgs opens s (set_sender
          (s\<lparr>sd_pool := pool, sd_closed := sd_closed s \<union> set dropped\<rparr>) t m (SendDone e))"
| send_return: "sd_senders s t = Some (m, SendGiveBack h e) \<Longrightarrow> \<not> drops e \<Longrightarrow> ReturnStream p h (sd_pool s) = (pool, perr, closed)
    \<Longrightarrow> send_step K compressMsg msgs opens s (set_sender
          (s\<lparr>sd_pool := pool, sd_closed := sd_closed s \<union> (if closed then {h} else {})\<rparr>) t m (SendDone e))"
| send_pool: "pool_step opens (sd_pool s) pool \<Longrightarrow> sp_borrowed pool = sp_borrowed (sd_pool s)
    \<Longrightarrow> send_step K compressMsg msgs opens s (s\<lparr>sd_pool := pool\<rparr>)"

definition send_start :: "send_stream_pool \<Rightarrow> send_sys" where
  "send_start pool = \<lparr>sd_pool = pool, sd_senders = Map.empty, sd_wire = (\<lambda>_. []), sd_sent = (\<lambda>_. []),
     sd_closed = {}, sd_broken = {}\<rparr>"

inductive send_reachable :: "codec \<Rightarrow> bool \<Rightarrow> message set \<Rightarrow> opener \<Rightarrow> int \<Rightarrow> int \<Rightarrow> send_sys \<Rightarrow> bool"
  for K compressMsg msgs opens initSize maxSize where
  send_reach_new: "NewSendStreamPool initSize maxSize = Returns (Inr pool)
    \<Longrightarrow> send_reachable K compressMsg msgs opens initSize maxSize (send_start pool)"
| send_reach_step: "send_reachable K compressMsg msgs opens initSize maxSize s \<Longrightarrow> send_step K compressMsg msgs opens s s'
    \<Longrightarrow> send_reachable K compressMsg msgs opens initSize maxSize s'"

lemma set_sender_fields [simp]:
  "sd_pool (set_sender s t m pc) = sd_pool s" "sd_wire (set_sender s t m pc) = sd_wire s"
  "sd_sent (set_sender s t m pc) = sd_sent s" "sd_closed (set_sender s t m pc) = sd_closed s"
  "sd_broken (set_sender s t m pc) = sd_broken s"
  "sd_senders (set_sender s t m pc) = (sd_senders s)(t \<mapsto> (m, pc))"
  by (simp_all add: set_sender_def)

lemma send_sys_same [simp]:
  "s\<lparr>sd_pool := sd_pool s\<rparr> = s" "s\<lparr>sd_pool := p, sd_closed := sd_closed s\<rparr> = s\<lparr>sd_pool := p\<rparr>"
  by simp_all

section \<open>Streams of the pool\<close>

definition pool_streams :: "send_stream_pool \<Rightarrow> handle set" where
  "pool_streams p = set (sp_poolC p @ sp_borrowed p)"

text \<open>A step of the pool knows no streams but those before it and new ones.\<close>

definition new_streams_only :: "opener \<Rightarrow> send_stream_pool \<Rightarrow> send_stream_pool \<Rightarrow> bool" where
  "new_streams_only opens p p' \<longleftrightarrow> sp_calls p \<le> sp_calls p' \<and>
     pool_streams p' \<subseteq> pool_streams p \<union> {h. \<exists>k\<ge>sp_calls p. opens k = Inr h}"

lemma new_streams_refl [simp]: "new_streams_only opens p p"
  by (simp add: new_streams_only_def)

lemma new_streams_trans:
  "new_streams_only opens p q \<Longrightarrow> new_streams_only opens q r \<Longrightarrow> new_streams_only opens p r"
  unfolding new_streams_only_def by (blast intro: order_trans)

lemma new_streams_irrelevant [simp]:
  "new_streams_only opens p (q\<lparr>sp_expandingSignalC := a\<rparr>) = new_streams_only opens p q"
  "new_streams_only opens p (q\<lparr>sp_closeC := a\<rparr>) = new_streams_only opens p q"
  "new_streams_only opens p (q\<lparr>sp_once := a\<rparr>) = new_streams_only opens p q"
  "new_streams_only opens p (q\<lparr>sp_loop := l\<rparr>) = new_streams_only opens p q"
  "new_streams_only opens (p\<lparr>sp_once := a\<rparr>) q = new_streams_only opens p q"
  by (simp_all add: new_streams_only_def pool_streams_def)

lemma openSendStream_new: "openSendStream opens p = Some (p', err) \<Longrightarrow> new_streams_only opens p p'"
  by (auto simp: openSendStream_def new_streams_only_def pool_streams_def Let_def split: sum.splits if_splits)

lemma initLoop_new: "initLoop opens p = Some (p', err) \<Longrightarrow> new_streams_only opens p p'"
proof (induction opens p arbitrary: p' err rule: initLoop.induct)
  case (1 opens p)
  show ?case
  proof (cases "sp_currentSize p < sp_initSize p")
    case True
    with 1(2) obtain q e where q: "openSendStream opens p = Some (q, e)"
      by (subst (asm) initLoop.simps) (auto split: option.splits)
    show ?thesis
    proof (cases e)
      case None
      then have "initLoop opens q = Some (p', err)" using 1(2) True q by (subst (asm) initLoop.simps) simp
      from 1(1) [OF True q refl None this] openSendStream_new [OF q] show ?thesis by (rule new_streams_trans [rotated])
    next
      case (Some x)
      then show ?thesis using 1(2) True q openSendStream_new [OF q] by (subst (asm) initLoop.simps) simp
    qed
  next
    case False
    then show ?thesis using 1(2) by (subst (asm) initLoop.simps) simp
  qed
qed

lemma expandOpen_new: "expandOpen opens c n p = Some (p', r) \<Longrightarrow> new_streams_only opens p p'"
proof (induction n arbitrary: p)
  case (Suc n)
  then obtain q e where q: "openSendStream opens p = Some (q, e)" by (auto split: option.splits)
  note o = openSendStream_new [OF q]
  show ?case
  proof (cases "CheckClosedConnectionWithErr c e")
    case (Returns b)
    show ?thesis
    proof (cases b)
      case True
      then show ?thesis using Suc.prems q Returns o by (auto simp: sp_close_def)
    next
      case False
      then show ?thesis using Suc.IH [of q] Suc.prems q Returns new_streams_trans [OF o] by simp
    qed
  qed (use Suc.prems q o in auto)
qed simp

lemma pool_step_new: "pool_step opens p p' \<Longrightarrow> new_streams_only opens p p'"
proof (induction rule: pool_step.induct)
  case (step_init p p' err)
  then show ?case using initLoop_new [of opens "p\<lparr>sp_once := True\<rparr>"]
    by (auto simp: InitStreams_def split: if_splits option.splits)
next
  case (step_loop_expand p c pr p' pan)
  then show ?case using expandOpen_new [of opens c "nat (expandSize p)" p]
    by (auto simp: expandStream_def triggerExpand_def split: option.splits run.splits bool.splits if_splits)
qed (auto simp: BorrowStream_first_def BorrowStream_second_def triggerExpand_def take_idle_def ReturnStream_def DropStream_def
    sp_close_def new_streams_only_def pool_streams_def Let_def split: if_splits list.splits dest: notin_set_remove1
    intro: set_remove1_subset [THEN subsetD])

text \<open>A stream that was opened once and is no longer in the pool never comes back.\<close>

lemma gone_stays_gone:
  assumes "fresh_streams opens" and "pool_step opens p p'"
    and "h \<in> opened opens (sp_calls p)" and "h \<notin> pool_streams p"
  shows "h \<in> opened opens (sp_calls p') \<and> h \<notin> pool_streams p'"
proof -
  have n: "new_streams_only opens p p'" by (rule pool_step_new [OF assms(2)])
  have "\<not> (\<exists>k\<ge>sp_calls p. opens k = Inr h)"
    using assms(1,3) unfolding opened_def fresh_streams_def by (auto simp: not_less [symmetric])
  then show ?thesis using n assms(3,4) opened_mono [of "sp_calls p" "sp_calls p'" opens]
    by (auto simp: new_streams_only_def)
qed

section \<open>The invariant\<close>

text \<open>Which stream a sender holds.\<close>

fun holds :: "send_pc \<Rightarrow> handle option" where
  "holds (SendTrigger h) = Some h"
| "holds (SendMarshal h) = Some h"
| "holds (SendWriting h bz n) = Some h"
| "holds (SendGiveBack h e) = Some h"
| "holds _ = None"

definition owns :: "send_sys \<Rightarrow> thread \<Rightarrow> handle \<Rightarrow> bool" where
  "owns s t h \<longleftrightarrow> (\<exists>m pc. sd_senders s t = Some (m, pc) \<and> holds pc = Some h)"

definition own_inv :: "opener \<Rightarrow> send_sys \<Rightarrow> bool" where
  "own_inv opens s \<longleftrightarrow> pool_inv opens (sd_pool s) \<and>
     (\<forall>t h. owns s t h \<longrightarrow> h \<in> set (sp_borrowed (sd_pool s))) \<and>
     (\<forall>t u h. owns s t h \<longrightarrow> owns s u h \<longrightarrow> t = u) \<and>
     sd_closed s \<subseteq> opened opens (sp_calls (sd_pool s)) - pool_streams (sd_pool s)"

lemma own_invD:
  assumes "own_inv opens s"
  shows "pool_inv opens (sd_pool s)" and "owns s t h \<Longrightarrow> h \<in> set (sp_borrowed (sd_pool s))"
    and "owns s t h \<Longrightarrow> owns s u h \<Longrightarrow> t = u" and "owns s t h \<Longrightarrow> h \<notin> sd_closed s"
    and "h \<in> sd_closed s \<Longrightarrow> h \<in> opened opens (sp_calls (sd_pool s)) \<and> h \<notin> pool_streams (sd_pool s)"
  using assms by (auto simp: own_inv_def pool_streams_def)

lemma own_invI:
  assumes "pool_inv opens (sd_pool s)" and "\<And>t h. owns s t h \<Longrightarrow> h \<in> set (sp_borrowed (sd_pool s))"
    and "\<And>t u h. owns s t h \<Longrightarrow> owns s u h \<Longrightarrow> t = u"
    and "\<And>h. h \<in> sd_closed s \<Longrightarrow> h \<in> opened opens (sp_calls (sd_pool s)) \<and> h \<notin> pool_streams (sd_pool s)"
  shows "own_inv opens s"
  unfolding own_inv_def using assms by blast

lemma owns_set_sender:
  "owns (set_sender s t m pc) u h \<longleftrightarrow> (if u = t then holds pc = Some h else owns s u h)"
  by (simp add: owns_def)

lemma owns_fields [simp]:
  "owns (s\<lparr>sd_pool := p\<rparr>) = owns s" "owns (s\<lparr>sd_wire := w\<rparr>) = owns s" "owns (s\<lparr>sd_sent := l\<rparr>) = owns s"
  "owns (s\<lparr>sd_closed := c\<rparr>) = owns s" "owns (s\<lparr>sd_broken := b\<rparr>) = owns s"
  by (simp_all add: owns_def fun_eq_iff)

text \<open>Borrowing hands out a stream that was idle.\<close>

lemma borrow_outcome:
  assumes "BorrowStream_first p q = (q', r) \<or> BorrowStream_second p q = (q', r)"
  shows "(\<exists>h rest. r = Borrowed h \<and> sp_poolC q = h # rest \<and> sp_borrowed q' = h # sp_borrowed q) \<or>
    ((\<forall>h. r \<noteq> Borrowed h) \<and> sp_borrowed q' = sp_borrowed q)"
  using assms
  by (auto simp: BorrowStream_first_def BorrowStream_second_def triggerExpand_def take_idle_def split: if_splits list.splits)

text \<open>
  A step of a sender, as far as ownership goes: the pool makes a step, the sender keeps its stream, gives it up, or takes
  one that nobody had borrowed; the streams of the others stay borrowed.
\<close>

lemma own_inv_step:
  assumes fresh: "fresh_streams opens" and inv: "own_inv opens s"
    and pool: "pool_step opens (sd_pool s) p' \<or> p' = sd_pool s"
    and sender: "holds pc' = None \<or> owns s t (the (holds pc')) \<and> the (holds pc') \<in> set (sp_borrowed p') \<or>
      the (holds pc') \<in> set (sp_borrowed p') - set (sp_borrowed (sd_pool s))"
    and others: "\<And>u h. u \<noteq> t \<Longrightarrow> owns s u h \<Longrightarrow> h \<in> set (sp_borrowed p')"
    and closed: "c \<subseteq> opened opens (sp_calls p') - pool_streams p'"
  shows "own_inv opens (set_sender (s\<lparr>sd_pool := p', sd_closed := sd_closed s \<union> c\<rparr>) t m pc')"
proof -
  note D = own_invD [OF inv]
  have "pool_inv opens p'" using pool pool_step_inv [OF fresh _ D(1)] D(1) by blast
  moreover have "h \<in> opened opens (sp_calls p') \<and> h \<notin> pool_streams p'" if "h \<in> sd_closed s" for h
    using gone_stays_gone [OF fresh, of "sd_pool s" p' h] pool D(5) [OF that] by blast
  moreover have "h \<in> set (sp_borrowed p')" if "owns (set_sender s t m pc') u h" for u h
    using that sender others by (auto simp: owns_set_sender split: if_splits)
  moreover have "u = v" if "owns (set_sender s t m pc') u h" "owns (set_sender s t m pc') v h" for u v h
    using that sender D(2,3) by (auto simp: owns_set_sender split: if_splits)
  moreover have "owns (set_sender (s\<lparr>sd_pool := p', sd_closed := sd_closed s \<union> c\<rparr>) t m pc') = owns (set_sender s t m pc')"
    by (simp add: owns_set_sender fun_eq_iff)
  ultimately show ?thesis using closed by (intro own_invI) (simp, simp, metis, auto)
qed

lemma own_inv_pool:
  assumes fresh: "fresh_streams opens" and inv: "own_inv opens s"
    and "pool_step opens (sd_pool s) p'" and "sp_borrowed p' = sp_borrowed (sd_pool s)"
  shows "own_inv opens (s\<lparr>sd_pool := p'\<rparr>)"
proof -
  note D = own_invD [OF inv]
  have "h \<in> opened opens (sp_calls p') \<and> h \<notin> pool_streams p'" if "h \<in> sd_closed s" for h
    using gone_stays_gone [OF fresh assms(3)] D(5) [OF that] by blast
  then show ?thesis using inv assms(4) pool_step_inv [OF fresh assms(3) D(1)] by (auto simp: own_inv_def)
qed

lemma own_inv_cong:
  "sd_pool s = sd_pool s' \<Longrightarrow> sd_senders s = sd_senders s' \<Longrightarrow> sd_closed s = sd_closed s' \<Longrightarrow>
     own_inv opens s = own_inv opens s'"
  by (simp add: own_inv_def owns_def)

text \<open>The rules that leave the closed streams alone, and those that give a stream back.\<close>

lemma own_inv_keep:
  assumes "fresh_streams opens" and "own_inv opens s" and "sd_senders s t = Some (m, pc)"
    and "pool_step opens (sd_pool s) p' \<or> p' = sd_pool s" and "sp_borrowed p' = sp_borrowed (sd_pool s)"
    and "holds pc' = None \<or> holds pc' = holds pc"
  shows "own_inv opens (set_sender (s\<lparr>sd_pool := p'\<rparr>) t m' pc')"
proof -
  have "holds pc' = None \<or> owns s t (the (holds pc')) \<and> the (holds pc') \<in> set (sp_borrowed p')"
  proof (cases "holds pc'")
    case (Some h)
    then have "owns s t h" using assms(3,6) by (auto simp: owns_def)
    then show ?thesis using Some own_invD(2) [OF assms(2)] assms(5) by simp
  qed simp
  then show ?thesis
    using own_inv_step [OF assms(1,2,4), of pc' t "{}" m'] own_invD(2) [OF assms(2)] assms(5) by auto
qed

lemma own_inv_borrow:
  assumes fresh: "fresh_streams opens" and inv: "own_inv opens s" and t: "sd_senders s t = Some (m, pc)"
    and b: "BorrowStream_first p (sd_pool s) = (p', r) \<or> BorrowStream_second p (sd_pool s) = (p', r)"
    and pc': "holds pc' = (case r of Borrowed h \<Rightarrow> Some h | _ \<Rightarrow> None)"
  shows "own_inv opens (set_sender (s\<lparr>sd_pool := p'\<rparr>) t m pc')"
proof -
  have step: "pool_step opens (sd_pool s) p'" using b step_borrow_first step_borrow_second by blast
  from borrow_outcome [OF b] show ?thesis
  proof
    assume "\<exists>h rest. r = Borrowed h \<and> sp_poolC (sd_pool s) = h # rest \<and> sp_borrowed p' = h # sp_borrowed (sd_pool s)"
    then obtain h rest where h: "r = Borrowed h" "sp_poolC (sd_pool s) = h # rest" "sp_borrowed p' = h # sp_borrowed (sd_pool s)"
      by blast
    then have "h \<notin> set (sp_borrowed (sd_pool s))" using own_invD(1) [OF inv] by (auto simp: pool_inv_def)
    then show ?thesis
      using own_inv_step [OF fresh inv, of p' pc' t "{}" m] step pc' h own_invD(2) [OF inv] by auto
  next
    assume "(\<forall>h. r \<noteq> Borrowed h) \<and> sp_borrowed p' = sp_borrowed (sd_pool s)"
    then show ?thesis using own_inv_keep [OF fresh inv t] step pc' by (auto split: borrow_result.splits)
  qed
qed

lemma own_inv_give_back:
  assumes fresh: "fresh_streams opens" and inv: "own_inv opens s" and t: "sd_senders s t = Some (m, SendGiveBack h e)"
    and p': "DropStream h (sd_pool s) = (p', dropped) \<and> c = set dropped \<or>
      ReturnStream p h (sd_pool s) = (p', perr, closed) \<and> c = (if closed then {h} else {})"
  shows "own_inv opens (set_sender (s\<lparr>sd_pool := p', sd_closed := sd_closed s \<union> c\<rparr>) t m (SendDone e))"
proof -
  let ?q = "sd_pool s"
  have o: "owns s t h" using t by (simp add: owns_def)
  note q = own_invD(1) [OF inv] and b = own_invD(2) [OF inv o]
  have d: "distinct (sp_borrowed ?q)" "h \<notin> set (sp_poolC ?q)" "h \<in> opened opens (sp_calls ?q)"
    using q b by (auto simp: pool_inv_def)
  have step: "pool_step opens ?q p'" using p' step_drop [OF b] step_return [OF b] by blast
  have keep: "x \<in> set (sp_borrowed p')" if "x \<in> set (sp_borrowed ?q)" "x \<noteq> h" for x
    using p' that by (auto simp: DropStream_def ReturnStream_def Let_def split: if_splits)
  have "c \<subseteq> opened opens (sp_calls p') - pool_streams p'"
    using p' borrowed_room(1) [OF q b] d
    by (auto simp: DropStream_def ReturnStream_def Let_def pool_streams_def split: if_splits)
  moreover have "x \<in> set (sp_borrowed p')" if "u \<noteq> t" "owns s u x" for u x
    using keep own_invD(2) [OF inv that(2)] own_invD(3) [OF inv o] that by blast
  ultimately show ?thesis using step by (intro own_inv_step [OF fresh inv]) auto
qed

lemma send_step_own:
  assumes fresh: "fresh_streams opens"
  shows "send_step K compressMsg msgs opens s s' \<Longrightarrow> own_inv opens s \<Longrightarrow> own_inv opens s'"
proof (induction rule: send_step.induct)
  case (send_begin s t m)
  then show ?case
    using own_inv_step [OF fresh send_begin(3), of "sd_pool s" SendBorrow t "{}" m] own_invD(2) [OF send_begin(3)] by auto
next
  case (send_borrow s t m p pool r)
  then show ?case by (intro own_inv_borrow [OF fresh]) (auto split: borrow_result.splits)
next
  case (send_borrow_again s t m p pool r)
  then show ?case by (intro own_inv_borrow [OF fresh]) (auto split: borrow_result.splits)
next
  case (send_trigger s t m h p)
  have "sp_borrowed (triggerExpand p (sd_pool s)) = sp_borrowed (sd_pool s)" by (simp add: triggerExpand_def)
  then show ?case using own_inv_keep [OF fresh send_trigger(2,1)] step_trigger by simp
next
  case (send_marshal s t m h)
  have "own_inv opens (set_sender s t m pc)" if "holds pc = Some h" for pc
    using own_inv_keep [OF fresh send_marshal(2,1), of "sd_pool s" pc m] that by simp
  then show ?case by (simp split: sum.split)
next
  case (send_portion s t m h bz n k)
  have "own_inv opens (set_sender s t m (SendWriting h bz k))"
    using own_inv_keep [OF fresh send_portion(4,1), of "sd_pool s" "SendWriting h bz k" m] by simp
  then show ?case by (rule own_inv_cong [THEN iffD1, rotated 3]) simp_all
next
  case (send_written s t m h bz n W err e written)
  have "own_inv opens (set_sender s t m (SendGiveBack h e))"
    using own_inv_keep [OF fresh send_written(4,1), of "sd_pool s" "SendGiveBack h e" m] by simp
  then show ?case by (rule own_inv_cong [THEN iffD1, rotated 3]) simp_all
next
  case (send_drop s t m h e pool dropped)
  then show ?case using own_inv_give_back [OF fresh send_drop(4,1)] by blast
next
  case (send_return s t m h e p pool perr closed)
  then show ?case using own_inv_give_back [OF fresh send_return(4,1)] by blast
next
  case (send_pool s pool)
  then show ?case by (intro own_inv_pool [OF fresh])
qed

section \<open>What is on the wire\<close>

definition marshalled :: "codec \<Rightarrow> bool \<Rightarrow> message set \<Rightarrow> message \<Rightarrow> bytes \<Rightarrow> bool" where
  "marshalled K compressMsg msgs m bz \<longleftrightarrow> m \<in> msgs \<and> Marshal K (message_package compressMsg m) = Inr bz"

definition msg_inv :: "codec \<Rightarrow> bool \<Rightarrow> message set \<Rightarrow> send_sys \<Rightarrow> bool" where
  "msg_inv K compressMsg msgs s \<longleftrightarrow> (\<forall>t m pc. sd_senders s t = Some (m, pc) \<longrightarrow> m \<in> msgs) \<and>
     (\<forall>t m h bz n. sd_senders s t = Some (m, SendWriting h bz n) \<longrightarrow> marshalled K compressMsg msgs m bz \<and> n \<le> length (frame K bz)) \<and>
     (\<forall>h m bz. (m, bz) \<in> set (sd_sent s h) \<longrightarrow> marshalled K compressMsg msgs m bz)"

lemma send_step_msg: "send_step K compressMsg msgs opens s s' \<Longrightarrow> msg_inv K compressMsg msgs s \<Longrightarrow> msg_inv K compressMsg msgs s'"
  by (induction rule: send_step.induct)
    (auto simp: msg_inv_def marshalled_def split: if_splits borrow_result.splits sum.splits)

definition whole :: "codec \<Rightarrow> (message \<times> bytes) list \<Rightarrow> bytes" where
  "whole K ms = concat (map (\<lambda>(_, bz). frame K bz) ms)"

text \<open>The part of a frame that a sender has on the wire while it writes; a complete frame counts as sent.\<close>

definition on_wire :: "codec \<Rightarrow> bytes \<Rightarrow> nat \<Rightarrow> bytes" where
  "on_wire K bz n = (if n < length (frame K bz) then take n (frame K bz) else [])"

fun may_be_cut :: "handle \<Rightarrow> send_pc \<Rightarrow> bool" where
  "may_be_cut h (SendWriting h' bz n) = (h' = h)"
| "may_be_cut h (SendGiveBack h' e) = (h' = h \<and> drops e)"
| "may_be_cut h _ = False"

definition cut_frame :: "codec \<Rightarrow> bool \<Rightarrow> message set \<Rightarrow> bytes \<Rightarrow> bool" where
  "cut_frame K compressMsg msgs part \<longleftrightarrow> part = [] \<or>
     (\<exists>m bz missing. marshalled K compressMsg msgs m bz \<and> frame K bz = part @ missing \<and> missing \<noteq> [])"

definition stream_ok :: "codec \<Rightarrow> bool \<Rightarrow> message set \<Rightarrow> send_sys \<Rightarrow> handle \<Rightarrow> bool" where
  "stream_ok K compressMsg msgs s h \<longleftrightarrow> (\<exists>part. sd_wire s h = whole K (sd_sent s h) @ part \<and> cut_frame K compressMsg msgs part \<and>
     (\<forall>t m bz n. sd_senders s t = Some (m, SendWriting h bz n) \<longrightarrow> part = on_wire K bz n) \<and>
     (part \<noteq> [] \<longrightarrow> h \<in> sd_closed s \<or> (\<exists>t m pc. sd_senders s t = Some (m, pc) \<and> may_be_cut h pc)))"

lemma cut_on_wire: "marshalled K compressMsg msgs m bz \<Longrightarrow> cut_frame K compressMsg msgs (on_wire K bz n)"
  unfolding cut_frame_def on_wire_def
  by (metis append_take_drop_id drop_eq_Nil2 not_less)

text \<open>A sender whose stream is in order moves on without writing.\<close>

lemma stream_ok_moves:
  assumes ok: "stream_ok K compressMsg msgs s h" and s': "sd_senders s' = (sd_senders s)(t \<mapsto> (m', pc'))"
    and same: "sd_wire s' h = sd_wire s h" "sd_sent s' h = sd_sent s h" "h \<in> sd_closed s \<Longrightarrow> h \<in> sd_closed s'"
    and writes: "\<And>bz n. pc' = SendWriting h bz n \<Longrightarrow> sd_wire s h = whole K (sd_sent s h) @ on_wire K bz n"
    and keep: "\<And>m pc. sd_senders s t = Some (m, pc) \<Longrightarrow> may_be_cut h pc \<Longrightarrow>
      h \<in> sd_closed s' \<or> may_be_cut h pc' \<or> sd_wire s h = whole K (sd_sent s h)"
  shows "stream_ok K compressMsg msgs s' h"
proof -
  obtain part where p: "sd_wire s h = whole K (sd_sent s h) @ part" "cut_frame K compressMsg msgs part"
    "\<And>t m bz n. sd_senders s t = Some (m, SendWriting h bz n) \<Longrightarrow> part = on_wire K bz n"
    "part \<noteq> [] \<Longrightarrow> h \<in> sd_closed s \<or> (\<exists>t m pc. sd_senders s t = Some (m, pc) \<and> may_be_cut h pc)"
    using ok unfolding stream_ok_def by blast
  have "part = on_wire K bz n" if "sd_senders s' u = Some (m, SendWriting h bz n)" for u m bz n
    using that p(1,3) writes by (cases "u = t") (auto simp: s')
  moreover have "h \<in> sd_closed s' \<or> (\<exists>t m pc. sd_senders s' t = Some (m, pc) \<and> may_be_cut h pc)" if ne: "part \<noteq> []"
  proof (cases "h \<in> sd_closed s'")
    case False
    with p(4) [OF ne] same(3) obtain u m pc where u: "sd_senders s u = Some (m, pc)" "may_be_cut h pc" by blast
    show ?thesis
    proof (cases "u = t")
      case True
      then have "may_be_cut h pc'" using keep [of m pc] u False p(1) ne by auto
      then show ?thesis by (auto simp: s')
    next
      case False
      then show ?thesis using u by (auto simp: s')
    qed
  qed simp
  ultimately show ?thesis using p(1,2) same unfolding stream_ok_def by metis
qed

text \<open>A stream that is held, but not by one who may have cut a frame off, ends with a whole frame.\<close>

lemma held_stream_whole:
  assumes "own_inv opens s" and "stream_ok K compressMsg msgs s h" and "sd_senders s t = Some (m, pc)"
    and "holds pc = Some h" and "\<not> may_be_cut h pc"
  shows "sd_wire s h = whole K (sd_sent s h)"
proof -
  have o: "owns s t h" using assms(3,4) by (auto simp: owns_def)
  have "\<not> (\<exists>u m pc. sd_senders s u = Some (m, pc) \<and> may_be_cut h pc)"
  proof clarify
    fix u m' pc' assume u: "sd_senders s u = Some (m', pc')" "may_be_cut h pc'"
    then have "holds pc' = Some h" by (cases pc') auto
    with u(1) have "owns s u h" by (auto simp: owns_def)
    then have "u = t" using own_invD(3) [OF assms(1) o] by simp
    then show False using u assms(3,5) by simp
  qed
  then show ?thesis using assms(2) own_invD(4) [OF assms(1) o] by (auto simp: stream_ok_def)
qed

definition wire_inv :: "codec \<Rightarrow> bool \<Rightarrow> message set \<Rightarrow> send_sys \<Rightarrow> bool" where
  "wire_inv K compressMsg msgs s \<longleftrightarrow> (\<forall>h. h \<notin> sd_broken s \<longrightarrow> stream_ok K compressMsg msgs s h)"

lemma writer_wire:
  "stream_ok K compressMsg msgs s h \<Longrightarrow> sd_senders s t = Some (m, SendWriting h bz n) \<Longrightarrow>
     sd_wire s h = whole K (sd_sent s h) @ on_wire K bz n"
  unfolding stream_ok_def by metis

text \<open>A sender that was not writing and does not begin to.\<close>

lemma quiet_move:
  assumes "stream_ok K compressMsg msgs s h" and "\<And>m pc. sd_senders s t = Some (m, pc) \<Longrightarrow> \<not> may_be_cut h pc"
    and "\<And>bz n. pc' \<noteq> SendWriting h bz n" and "sd_wire s' = sd_wire s" "sd_sent s' = sd_sent s" "sd_closed s \<subseteq> sd_closed s'"
    and "sd_senders s' = (sd_senders s)(t \<mapsto> (m', pc'))"
  shows "stream_ok K compressMsg msgs s' h"
  by (rule stream_ok_moves [OF assms(1,7)]) (use assms in auto)

lemma portion_ok:
  assumes ok: "stream_ok K compressMsg msgs s h" and t: "sd_senders s t = Some (m, SendWriting h bz n)"
    and msg: "marshalled K compressMsg msgs m bz" and n: "n < k" "k \<le> length (frame K bz)" and own: "own_inv opens s"
    and s': "s' = set_sender (s\<lparr>sd_wire := (sd_wire s)(h := sd_wire s h @ take (k - n) (drop n (frame K bz))),
             sd_sent := (sd_sent s)(h := sd_sent s h @ (if k = length (frame K bz) then [(m, bz)] else []))\<rparr>) t m (SendWriting h bz k)"
  shows "stream_ok K compressMsg msgs s' h"
proof -
  have "sd_wire s h = whole K (sd_sent s h) @ take n (frame K bz)"
    using writer_wire [OF ok t] n by (simp add: on_wire_def)
  moreover have "take n (frame K bz) @ take (k - n) (drop n (frame K bz)) = take k (frame K bz)"
    using n(1) take_add [of n "k - n" "frame K bz"] by simp
  ultimately have "sd_wire s' h = whole K (sd_sent s' h) @ on_wire K bz k"
    using n(2) by (simp add: s' on_wire_def whole_def)
  moreover have "bz' = bz \<and> n' = k" if "sd_senders s' u = Some (m', SendWriting h bz' n')" for u m' bz' n'
  proof (cases "u = t")
    case False
    then have "owns s u h" "owns s t h" using that t by (auto simp: s' owns_def)
    then show ?thesis using own_invD(3) [OF own] False by blast
  qed (use that in \<open>simp add: s'\<close>)
  moreover have "\<exists>u m pc. sd_senders s' u = Some (m, pc) \<and> may_be_cut h pc"
    by (rule exI [of _ t]) (simp add: s')
  ultimately show ?thesis using cut_on_wire [OF msg, of k] unfolding stream_ok_def by blast
qed

lemma written_ok:
  assumes ok: "stream_ok K compressMsg msgs s h" and t: "sd_senders s t = Some (m, SendWriting h' bz n)"
    and unbroken: "h = h' \<Longrightarrow> \<not> n < length (frame K bz) \<or> drops e"
    and s': "s' = set_sender (s\<lparr>sd_broken := b\<rparr>) t m (SendGiveBack h' e)"
  shows "stream_ok K compressMsg msgs s' h"
proof (rule stream_ok_moves [OF ok, of s' t m "SendGiveBack h' e"])
  fix m1 pc assume pc: "sd_senders s t = Some (m1, pc)" "may_be_cut h pc"
  then have "pc = SendWriting h' bz n" using t by simp
  then have h: "h' = h" using pc(2) by simp
  then have "sd_wire s h = whole K (sd_sent s h) @ on_wire K bz n" using writer_wire [OF ok] t by simp
  then show "h \<in> sd_closed s' \<or> may_be_cut h (SendGiveBack h' e) \<or> sd_wire s h = whole K (sd_sent s h)"
    using unbroken h by (auto simp: on_wire_def)
qed (simp_all add: s')

lemma marshal_ok:
  assumes ok: "stream_ok K compressMsg msgs s h" and t: "sd_senders s t = Some (m, SendMarshal h')" and own: "own_inv opens s"
    and s': "s' = set_sender s t m (case Marshal K (message_package compressMsg m) of
      Inl e \<Rightarrow> SendGiveBack h' (Some (ErrMarshal e)) | Inr bz \<Rightarrow> SendWriting h' bz 0)"
  shows "stream_ok K compressMsg msgs s' h"
proof -
  have "sd_wire s h = whole K (sd_sent s h)" if "h' = h"
    using held_stream_whole [OF own ok t] that by simp
  then show ?thesis
    by (intro stream_ok_moves [OF ok, where t = t and m' = m]) (use t s' in \<open>auto simp: on_wire_def split: sum.splits\<close>)
qed

lemma portion_elsewhere:
  assumes ok: "stream_ok K compressMsg msgs s h" and t: "sd_senders s t = Some (m, SendWriting h' bz n)" and "h \<noteq> h'"
    and s': "s' = set_sender (s\<lparr>sd_wire := (sd_wire s)(h' := w), sd_sent := (sd_sent s)(h' := l)\<rparr>) t m (SendWriting h' bz k)"
  shows "stream_ok K compressMsg msgs s' h"
  by (rule stream_ok_moves [OF ok, where t = t and m' = m]) (use assms(2-4) in auto)

lemma send_step_broken: "send_step K compressMsg msgs opens s s' \<Longrightarrow> sd_broken s \<subseteq> sd_broken s'"
  by (induction rule: send_step.induct) auto

text \<open>A stream on which a frame was cut off is dropped, unless the connection is taken for closed.\<close>

lemma cut_only_if_taken_for_closed:
  assumes "write_package K compressMsg W (fst m) (snd m) h = Returns (e, written)" and K: "codec_laws K"
    and m: "marshalled K compressMsg msgs m bz" and n: "sw_write W h (frame K bz) = (int n, err)" "n < length (frame K bz)"
  shows "drops e \<or> taken_for_closed W err"
proof -
  have "length (frame K bz) = length bz + 8" using K by (simp add: frame_def codec_laws_def)
  moreover have "Marshal K (NewPayloadPackage (fst m) (snd m) (payloadCompressType compressMsg)) = Inr bz"
    using m by (simp add: marshalled_def message_package_def)
  ultimately show ?thesis using assms(1) n
    by (auto simp: write_package_def frame_def [symmetric] Let_def run_bind_Returns_iff drops_def taken_for_closed_def
        split: option.splits if_splits)
qed

lemma send_step_wire:
  assumes K: "codec_laws K" and step: "send_step K compressMsg msgs opens s s'" and own: "own_inv opens s" and msg: "msg_inv K compressMsg msgs s" and wire: "wire_inv K compressMsg msgs s"
  shows "wire_inv K compressMsg msgs s'"
  unfolding wire_inv_def
proof (intro allI impI)
  fix h assume h: "h \<notin> sd_broken s'"
  then have ok: "stream_ok K compressMsg msgs s h" using send_step_broken [OF step] wire by (auto simp: wire_inv_def)
  from step show "stream_ok K compressMsg msgs s' h"
  proof cases
    case (send_portion t m h' bz n k)
    have "marshalled K compressMsg msgs m bz" using msg send_portion(2) unfolding msg_inv_def by blast
    then show ?thesis
      using portion_ok [OF ok _ _ send_portion(3,4) own] portion_elsewhere [OF ok send_portion(2)] send_portion(1,2)
      by (cases "h = h'") simp_all
  next
    case (send_written t m h' bz n W err e written)
    have "marshalled K compressMsg msgs m bz" using msg send_written(2) unfolding msg_inv_def by blast
    note cut = cut_only_if_taken_for_closed [OF send_written(4) K this send_written(3)]
    have "h = h' \<Longrightarrow> \<not> n < length (frame K bz) \<or> drops e" using h cut send_written(1) by (auto split: if_splits)
    then show ?thesis by (rule written_ok [OF ok send_written(2) _ send_written(1)])
  next
    case (send_drop t m h' e pool dropped)
    moreover have "dropped = [h']" using send_drop(4) by (simp add: DropStream_def Let_def split: if_splits)
    ultimately show ?thesis by (intro stream_ok_moves [OF ok, where t = t and m' = m and pc' = "SendDone e"]) auto
  next
    case (send_borrow t m p pool r)
    then show ?thesis
      by (intro quiet_move [OF ok _ _ _ _ _ arg_cong [OF send_borrow(1), of sd_senders, simplified]])
        (simp_all split: borrow_result.split)
  next
    case (send_borrow_again t m p pool r)
    then show ?thesis
      by (intro quiet_move [OF ok _ _ _ _ _ arg_cong [OF send_borrow_again(1), of sd_senders, simplified]])
        (simp_all split: borrow_result.split)
  next
    case (send_trigger t m h' p)
    then show ?thesis by (intro quiet_move [OF ok, where t = t and m' = m and pc' = "SendMarshal h'"]) simp_all
  next
    case (send_return t m h' e p pool perr closed)
    then show ?thesis by (intro quiet_move [OF ok, where t = t and m' = m and pc' = "SendDone e"]) auto
  next
    case (send_begin t m)
    then show ?thesis by (intro quiet_move [OF ok, where t = t and m' = m and pc' = SendBorrow]) simp_all
  next
    case (send_marshal t m h')
    then show ?thesis by (intro marshal_ok [OF ok send_marshal(2) own send_marshal(1)])
  next
    case (send_pool pool)
    then show ?thesis using ok by (simp add: stream_ok_def)
  qed
qed

lemma send_reachable_inv:
  assumes fresh: "fresh_streams opens" and K: "codec_laws K"
  shows "send_reachable K compressMsg msgs opens initSize maxSize s \<Longrightarrow>
    own_inv opens s \<and> msg_inv K compressMsg msgs s \<and> wire_inv K compressMsg msgs s"
proof (induction rule: send_reachable.induct)
  case (send_reach_new pool)
  have "pool_inv opens pool"
    using pool_reachable_inv [OF fresh reach_new [OF send_reach_new]] .
  then show ?case
    by (simp add: send_start_def own_inv_def owns_def msg_inv_def wire_inv_def stream_ok_def whole_def cut_frame_def)
next
  case (send_reach_step s s')
  then show ?case using send_step_own [OF fresh] send_step_msg send_step_wire [OF K] by blast
qed

section \<open>What a successful call means\<close>

definition sent_somewhere :: "send_sys \<Rightarrow> message \<Rightarrow> bool" where
  "sent_somewhere s m \<longleftrightarrow> (\<exists>h bz. (m, bz) \<in> set (sd_sent s h)) \<or> sd_broken s \<noteq> {}"

text \<open>What a sender at a point of its way may rely on.\<close>

fun kept_promise :: "codec \<Rightarrow> send_sys \<Rightarrow> message \<Rightarrow> send_pc \<Rightarrow> bool" where
  "kept_promise K s m (SendWriting h bz n) = (n = length (frame K bz) \<longrightarrow> sent_somewhere s m)"
| "kept_promise K s m (SendGiveBack h e) = (e = None \<longrightarrow> sent_somewhere s m)"
| "kept_promise K s m (SendDone e) = (e = None \<longrightarrow> sent_somewhere s m)"
| "kept_promise K s m _ = True"

lemma sent_somewhere_mono:
  "sent_somewhere s m \<Longrightarrow> (\<And>h. set (sd_sent s h) \<subseteq> set (sd_sent s' h)) \<Longrightarrow> sd_broken s \<subseteq> sd_broken s' \<Longrightarrow>
     sent_somewhere s' m"
  unfolding sent_somewhere_def by blast

lemma kept_promise_mono:
  "kept_promise K s m pc \<Longrightarrow> (\<And>h. set (sd_sent s h) \<subseteq> set (sd_sent s' h)) \<Longrightarrow> sd_broken s \<subseteq> sd_broken s' \<Longrightarrow>
     kept_promise K s' m pc"
  using sent_somewhere_mono [of s m s'] by (cases pc) simp_all

lemma promise_moves:
  assumes "\<forall>t m pc. sd_senders s t = Some (m, pc) \<longrightarrow> kept_promise K s m pc"
    and "sd_senders s' = (sd_senders s)(t \<mapsto> (m', pc'))" and "kept_promise K s' m' pc'"
    and "\<And>h. set (sd_sent s h) \<subseteq> set (sd_sent s' h)" and "sd_broken s \<subseteq> sd_broken s'"
  shows "\<forall>t m pc. sd_senders s' t = Some (m, pc) \<longrightarrow> kept_promise K s' m pc"
proof (intro allI impI)
  fix u m pc assume "sd_senders s' u = Some (m, pc)"
  then show "kept_promise K s' m pc"
    using assms(2,3) kept_promise_mono [OF assms(1) [rule_format] assms(4,5), of u m pc] by (cases "u = t") simp_all
qed

lemma send_step_sent: "send_step K compressMsg msgs opens s s' \<Longrightarrow> set (sd_sent s h) \<subseteq> set (sd_sent s' h)"
  by (induction rule: send_step.induct) auto

lemma send_step_promise:
  assumes K: "codec_laws K" and step: "send_step K compressMsg msgs opens s s'" and msg: "msg_inv K compressMsg msgs s"
    and inv: "\<forall>t m pc. sd_senders s t = Some (m, pc) \<longrightarrow> kept_promise K s m pc"
  shows "\<forall>t m pc. sd_senders s' t = Some (m, pc) \<longrightarrow> kept_promise K s' m pc"
proof -
  note go = promise_moves [OF inv _ _ send_step_sent [OF step] send_step_broken [OF step]]
  have some: "0 < length (frame K bz)" for bz using K by (simp add: frame_def codec_laws_def)
  from step show ?thesis
  proof cases
    case (send_borrow t m p pool r)
    then show ?thesis
      by (intro go [of t m, OF arg_cong [OF send_borrow(1), of sd_senders, simplified]]) (simp split: borrow_result.split)
  next
    case (send_borrow_again t m p pool r)
    then show ?thesis
      by (intro go [of t m, OF arg_cong [OF send_borrow_again(1), of sd_senders, simplified]]) (simp split: borrow_result.split)
  next
    case (send_marshal t m h)
    then show ?thesis using some
      by (intro go [of t m, OF arg_cong [OF send_marshal(1), of sd_senders, simplified]]) (simp split: sum.split)
  next
    case (send_portion t m h bz n k)
    have "kept_promise K s m (SendWriting h bz n)" using inv send_portion(2) by blast
    then have "kept_promise K s' m (SendWriting h bz k)" using send_portion(1) by (auto simp: sent_somewhere_def)
    then show ?thesis using send_portion(1) by (intro go [of t m "SendWriting h bz k"]) simp_all
  next
    case (send_written t m h bz n W err e written)
    have "kept_promise K s m (SendWriting h bz n)" using inv send_written(2) by blast
    moreover have n: "n \<le> length (frame K bz)" "marshalled K compressMsg msgs m bz"
      using msg send_written(2) unfolding msg_inv_def by blast+
    moreover note cut_only_if_taken_for_closed [OF send_written(4) K n(2) send_written(3)]
    ultimately have "kept_promise K s' m (SendGiveBack h e)" using send_written(1)
      by (cases "n = length (frame K bz)") (auto simp: sent_somewhere_def drops_def)
    then show ?thesis using send_written(1) by (intro go [of t m "SendGiveBack h e"]) simp_all
  next
    case (send_drop t m h e pool dropped)
    have "kept_promise K s' m (SendDone e)" using send_drop(3) by (auto simp: drops_def)
    then show ?thesis using send_drop(1) by (intro go [of t m "SendDone e"]) simp_all
  next
    case (send_return t m h e p pool perr closed)
    have "kept_promise K s m (SendGiveBack h e)" using inv send_return(2) by blast
    then have "kept_promise K s' m (SendDone e)" unfolding send_return(1) by (simp add: sent_somewhere_def)
    then show ?thesis using send_return(1) by (intro go [of t m "SendDone e"]) simp_all
  next
    case (send_pool pool)
    have "kept_promise K s' m pc" if "kept_promise K s m pc" for m pc
      by (rule kept_promise_mono [OF that send_step_sent [OF step] send_step_broken [OF step]])
    moreover have "sd_senders s' = sd_senders s" using send_pool(1) by simp
    ultimately show ?thesis using inv by metis
  next
    case (send_begin t m)
    then show ?thesis by (intro go [of t m SendBorrow]) simp_all
  next
    case (send_trigger t m h p)
    then show ?thesis by (intro go [of t m "SendMarshal h"]) simp_all
  qed
qed

lemma send_reachable_promise:
  assumes fresh: "fresh_streams opens" and K: "codec_laws K"
  shows "send_reachable K compressMsg msgs opens initSize maxSize s \<Longrightarrow>
    \<forall>t m pc. sd_senders s t = Some (m, pc) \<longrightarrow> kept_promise K s m pc"
proof (induction rule: send_reachable.induct)
  case (send_reach_step s s')
  then show ?case using send_step_promise [OF K] send_reachable_inv [OF fresh K] by blast
qed (simp add: send_start_def)

section \<open>Properties\<close>

lemma idle_stream_whole:
  assumes "own_inv opens s" and "wire_inv K compressMsg msgs s" and "h \<in> set (sp_poolC (sd_pool s))" and "h \<notin> sd_broken s"
  shows "sd_wire s h = whole K (sd_sent s h)"
proof -
  have "distinct (sp_poolC (sd_pool s) @ sp_borrowed (sd_pool s))" and "h \<notin> sd_closed s"
    using assms(1,3) by (auto simp: own_inv_def pool_inv_def pool_streams_def)
  then have "h \<notin> set (sp_borrowed (sd_pool s))" using assms(3) by auto
  then have "holds pc \<noteq> Some h" if "sd_senders s u = Some (m, pc)" for u m pc
    using own_invD(2) [OF assms(1), of u h] that by (auto simp: owns_def)
  moreover have "holds pc = Some h" if "may_be_cut h pc" for pc using that by (cases pc) auto
  ultimately have "\<not> (\<exists>u m pc. sd_senders s u = Some (m, pc) \<and> may_be_cut h pc)" by blast
  moreover have "stream_ok K compressMsg msgs s h" using assms(2,4) by (simp add: wire_inv_def)
  ultimately show ?thesis using \<open>h \<notin> sd_closed s\<close> unfolding stream_ok_def by auto
qed

lemma loop_of_cut_stream:
  assumes K: "codec_laws K" and u: "length_law K u" and max: "8 \<le> maxSlice"
    and fits: "\<forall>m bz. marshalled K compressMsg msgs m bz \<longrightarrow> sendable maxSlice bz"
    and sent: "\<forall>m bz. (m, bz) \<in> set sent \<longrightarrow> marshalled K compressMsg msgs m bz"
    and part: "cut_frame K compressMsg msgs part" and st: "avail st = whole K sent @ part"
  shows "fst (receiveStreamHandlerLoop u maxSlice st) = map snd sent"
proof -
  obtain q missing where q: "sendable maxSlice q" "frame K q = part @ missing" "missing \<noteq> []"
  proof (cases "part = []")
    case True
    have "length (intToBytes K 0) = 8" using K by (simp add: codec_laws_def)
    then have "frame K [] = [] @ intToBytes K 0" "intToBytes K 0 \<noteq> []" by (auto simp: frame_def)
    moreover have "sendable maxSlice []" using max by (simp add: sendable_def)
    ultimately show ?thesis using that [of "[]"] True by simp
  next
    case False
    then show ?thesis using part fits that unfolding cut_frame_def by blast
  qed
  have "avail st = concat (map (frame K) (map snd sent)) @ part"
    using st by (simp add: whole_def comp_def case_prod_unfold)
  moreover have "\<forall>p\<in>set (map snd sent). sendable maxSlice p" using sent fits by fastforce
  ultimately show ?thesis by (simp only: loop_frames [OF K u max _ q] fst_conv)
qed

text \<open>
  C9. Goroutines that send over one pool at once never share a stream, in any interleaving of theirs and of the pool's
  own goroutines: a stream has at most one sender from \<open>BorrowStream\<close> to the deferred call, meanwhile it is lent and
  neither idle nor closed, a closed stream is no longer in the pool, and a stream that is idle ends with a complete
  frame, so that the next sender begins where the last one ended, unless a frame was cut off on it and the connection was
  taken for closed.
\<close>

theorem sends_never_share_a_stream:
  assumes "fresh_streams opens" and "codec_laws K" and "send_reachable K compressMsg msgs opens initSize maxSize s"
  shows "(owns s t h \<longrightarrow> h \<in> set (sp_borrowed (sd_pool s)) \<and> h \<notin> set (sp_poolC (sd_pool s)) \<and> h \<notin> sd_closed s) \<and>
    (owns s t h \<and> owns s u h \<longrightarrow> t = u) \<and>
    (h \<in> sd_closed s \<longrightarrow> h \<notin> pool_streams (sd_pool s)) \<and>
    (h \<in> set (sp_poolC (sd_pool s)) \<and> h \<notin> sd_broken s \<longrightarrow>
       sd_wire s h = concat (map (\<lambda>(_, bz). frame K bz) (sd_sent s h)))"
proof -
  from send_reachable_inv [OF assms] have inv: "own_inv opens s" "wire_inv K compressMsg msgs s" by auto
  have "distinct (sp_poolC (sd_pool s) @ sp_borrowed (sd_pool s))" and c: "h \<in> sd_closed s \<longrightarrow> h \<notin> pool_streams (sd_pool s)"
    using inv(1) by (auto simp: own_inv_def pool_inv_def)
  moreover have "owns s t h \<longrightarrow> h \<in> set (sp_borrowed (sd_pool s)) \<and> h \<notin> sd_closed s"
    using own_invD(2,4) [OF inv(1)] by blast
  moreover have "owns s t h \<and> owns s u h \<longrightarrow> t = u" using own_invD(3) [OF inv(1)] by blast
  moreover note idle_stream_whole [OF inv, of h]
  ultimately show ?thesis unfolding whole_def by (auto dest: distinct_append [THEN iffD1])
qed

text \<open>
  C6. Messages sent by many goroutines arrive whole: on every stream of the pool, except those on which a frame
  was cut off and the connection taken for closed, whatever the interleaving and wherever a failing write was cut off,
  the receive loop of the other side, reading what has arrived in any portions, hands on one package for each complete
  frame, in the order of the writes, and the pipeline calls the handler of that message's protocol with its payload. A
  call of \<open>SendMsg\<close> that ended without an error has its message on a stream, if there is no such exception.
\<close>

theorem concurrent_sends_arrive_whole:
  assumes K: "codec_laws K" and u: "length_law K u" and max: "8 \<le> maxSlice" and fresh: "fresh_streams opens"
    and msgs: "\<forall>m\<in>msgs. fst m \<noteq> [] \<and> (\<forall>bz. Marshal K (message_package compressMsg m) = Inr bz \<longrightarrow> sendable maxSlice bz)"
    and reach: "send_reachable K compressMsg msgs opens initSize maxSize s"
    and h: "h \<notin> sd_broken s" and st: "avail st = sd_wire s h"
  shows "map (\<lambda>bz. run_pipeline K maxSlice pm (bz, me)) (fst (receiveStreamHandlerLoop u maxSlice st)) =
      map (\<lambda>((x, payload), _). Returns (map_option (\<lambda>f. (f, me, payload)) (Handler pm x))) (sd_sent s h) \<and>
    (sd_senders s t = Some (m, SendDone None) \<and> sd_broken s = {} \<longrightarrow> (\<exists>h bz. (m, bz) \<in> set (sd_sent s h)))"
proof (rule conjI)
  from send_reachable_inv [OF fresh K reach] have inv: "msg_inv K compressMsg msgs s" "stream_ok K compressMsg msgs s h"
    using h by (auto simp: wire_inv_def)
  have sent: "\<forall>m bz. (m, bz) \<in> set (sd_sent s h) \<longrightarrow> marshalled K compressMsg msgs m bz"
    using inv(1) unfolding msg_inv_def by blast
  have fits: "\<forall>m bz. marshalled K compressMsg msgs m bz \<longrightarrow> sendable maxSlice bz"
    using msgs unfolding marshalled_def by blast
  obtain part where "sd_wire s h = whole K (sd_sent s h) @ part" "cut_frame K compressMsg msgs part"
    using inv(2) unfolding stream_ok_def by blast
  then have r: "fst (receiveStreamHandlerLoop u maxSlice st) = map snd (sd_sent s h)"
    using loop_of_cut_stream [OF K u max fits sent] st by simp
  have "run_pipeline K maxSlice pm (bz, me) = Returns (map_option (\<lambda>f. (f, me, payload)) (Handler pm x))"
    if "((x, payload), bz) \<in> set (sd_sent s h)" for x payload bz
  proof -
    have m: "Marshal K (message_package compressMsg (x, payload)) = Inr bz" "(x, payload) \<in> msgs"
      using sent that by (auto simp: marshalled_def)
    then show ?thesis using pipeline_of_marshalled [OF K m(1), of maxSlice pm me] msgs
      by (auto simp: message_package_def NewPayloadPackage_def)
  qed
  then show "map (\<lambda>bz. run_pipeline K maxSlice pm (bz, me)) (fst (receiveStreamHandlerLoop u maxSlice st)) =
      map (\<lambda>((x, payload), _). Returns (map_option (\<lambda>f. (f, me, payload)) (Handler pm x))) (sd_sent s h)"
    unfolding r by (auto simp: case_prod_unfold)
  show "sd_senders s t = Some (m, SendDone None) \<and> sd_broken s = {} \<longrightarrow> (\<exists>h bz. (m, bz) \<in> set (sd_sent s h))"
    using send_reachable_promise [OF fresh K reach] by (fastforce simp: sent_somewhere_def)
qed

lemma loop_prefix:
  assumes K: "codec_laws K" "length_law K u" and max: "8 \<le> maxSlice"
  shows "avail s = concat (map (frame K) pkgs) @ rest \<Longrightarrow> \<forall>p\<in>set pkgs. sendable maxSlice p \<Longrightarrow>
    \<exists>more. fst (receiveStreamHandlerLoop u maxSlice s) = pkgs @ more"
proof (induction pkgs arbitrary: s)
  case (Cons p pkgs)
  have "avail s = frame K p @ (concat (map (frame K) pkgs) @ rest)" using Cons.prems(1) by simp
  from loop_frame [OF K _ max this] Cons.prems(2) obtain s2 where
    s2: "avail s2 = concat (map (frame K) pkgs) @ rest"
      "receiveStreamHandlerLoop u maxSlice s = (let (pushed, e) = receiveStreamHandlerLoop u maxSlice s2 in (p # pushed, e))"
    by auto
  then show ?case using Cons.IH [OF s2(1)] Cons.prems(2) by (auto simp: case_prod_unfold)
qed simp

lemma mixed_length:
  assumes K: "codec_laws K" and n: "8 \<le> n" "n \<le> length (frame K bz)" "length (frame K bz) \<le> n + length (frame K bz')"
  shows "length (take (n - 8) bz @ take (length (frame K bz) - n) (frame K bz')) = length bz"
proof -
  have "length (frame K bz) = length bz + 8" using K by (simp add: frame_def codec_laws_def)
  then show ?thesis using n by simp
qed

text \<open>A frame that is cut off behind its length, with another frame behind it, reads as one frame of the wrong package.\<close>

lemma cut_frame_reads_on:
  assumes K: "codec_laws K" and n: "8 \<le> n" "n \<le> length (frame K bz)" "length (frame K bz) \<le> n + length (frame K bz')"
  shows "take n (frame K bz) @ frame K bz' =
    frame K (take (n - 8) bz @ take (length (frame K bz) - n) (frame K bz')) @ drop (length (frame K bz) - n) (frame K bz')"
proof -
  have l: "length (intToBytes K (int (length bz))) = 8" using K by (simp add: codec_laws_def)
  have "take n (frame K bz) = intToBytes K (int (length bz)) @ take (n - 8) bz" using n(1) l by (simp add: frame_def)
  then show ?thesis using mixed_length [OF assms] by (simp add: frame_def [of K "take (n - 8) bz @ _"])
qed

lemma timed_out_write_steps:
  fixes W :: send_world
  assumes t: "sd_senders s t = Some (m, SendWriting h bz n)" and n: "n < length (frame K bz)" and msg: "marshalled K compressMsg msgs m bz"
    and w: "sw_write W h (frame K bz) = (int n, Some e)" "IsNetErrorTimeout (Some e)" "\<not> sw_nwClosed W"
    and pool: "\<not> sp_closeC (sd_pool s)" "\<not> pool_full (sd_pool s)"
    and s1: "s1 = set_sender (s\<lparr>sd_broken := insert h (sd_broken s)\<rparr>) t m (SendGiveBack h (Some (ErrWrite e)))"
    and s2: "s2 = set_sender (s1\<lparr>sd_pool := fst (ReturnStream True h (sd_pool s))\<rparr>) t m (SendDone (Some (ErrWrite e)))"
  shows "send_step K compressMsg msgs opens s s1" and "send_step K compressMsg msgs opens s1 s2"
proof -
  have c: "CheckClosedConnectionWithErr (sw_connClosed W) (Some e) = Returns True"
    using w(2) by (simp add: CheckClosedConnectionWithErr_def)
  have "write_package K compressMsg W (fst m) (snd m) h = Returns (Some (ErrWrite e), Some (frame K bz))"
    using msg w c by (simp add: write_package_def marshalled_def message_package_def frame_def [symmetric])
  from send_written [OF t w(1) this, of msgs opens] show "send_step K compressMsg msgs opens s s1"
    using n c w(3) by (simp add: s1 taken_for_closed_def)
  have "sd_senders s1 t = Some (m, SendGiveBack h (Some (ErrWrite e)))" "\<not> drops (Some (ErrWrite e))"
    by (simp_all add: s1 drops_def)
  moreover obtain p err where r: "ReturnStream True h (sd_pool s1) = (p, err, False)" "fst (ReturnStream True h (sd_pool s)) = p"
    using pool by (auto simp: ReturnStream_def s1)
  ultimately show "send_step K compressMsg msgs opens s1 s2"
    using send_return [of s1 t m h "Some (ErrWrite e)" True p err False K compressMsg msgs opens] by (simp add: s2)
qed

text \<open>
  C32. A write that times out halfway spoils the stream for the next message. The timeout counts as a closed
  connection, although neither the network nor the connection is closed; \<open>SendMsg\<close> therefore answers the error of the
  write and returns the stream to the pool, where it is idle, with the beginning of its frame on it. If that part
  contains at least the length, and any frame long enough follows it, the receive loop of the other side hands on the
  earlier packages of the stream and then a package that nobody sent: the beginning of the first one continued with
  the bytes of the second frame.
\<close>

theorem timed_out_write_mixes_messages:
  fixes W :: send_world
  assumes K: "codec_laws K" and u: "length_law K u" and max: "8 \<le> maxSlice" and fresh: "fresh_streams opens"
    and msgs: "\<forall>m\<in>msgs. \<forall>bz. Marshal K (message_package compressMsg m) = Inr bz \<longrightarrow> sendable maxSlice bz"
    and reach: "send_reachable K compressMsg msgs opens initSize maxSize s" and h: "h \<notin> sd_broken s"
    and t: "sd_senders s t = Some (m, SendWriting h bz n)" and n: "8 \<le> n" "n < length (frame K bz)"
    and w: "sw_write W h (frame K bz) = (int n, Some e)" "IsNetErrorTimeout (Some e)" "\<not> sw_nwClosed W" "\<not> sw_connClosed W"
    and pool: "\<not> sp_closeC (sd_pool s)" and next_frame: "length (frame K bz) \<le> n + length (frame K bz')"
  shows "\<exists>s'. send_reachable K compressMsg msgs opens initSize maxSize s' \<and>
      sd_senders s' t = Some (m, SendDone (Some (ErrWrite e))) \<and>
      h \<in> set (sp_poolC (sd_pool s')) \<and> h \<notin> sd_closed s' \<and>
      (\<forall>st. avail st = sd_wire s' h @ frame K bz' \<longrightarrow> (\<exists>more. fst (receiveStreamHandlerLoop u maxSlice st) =
         map snd (sd_sent s' h) @ [take (n - 8) bz @ take (length (frame K bz) - n) (frame K bz')] @ more))"
proof -
  define s1 where "s1 = set_sender (s\<lparr>sd_broken := insert h (sd_broken s)\<rparr>) t m (SendGiveBack h (Some (ErrWrite e)))"
  define s2 where "s2 = set_sender (s1\<lparr>sd_pool := fst (ReturnStream True h (sd_pool s))\<rparr>) t m (SendDone (Some (ErrWrite e)))"
  from send_reachable_inv [OF fresh K reach] have own: "own_inv opens s" and msg: "msg_inv K compressMsg msgs s"
    and ok: "stream_ok K compressMsg msgs s h" using h by (auto simp: wire_inv_def)
  have fits: "\<And>m bz. marshalled K compressMsg msgs m bz \<Longrightarrow> sendable maxSlice bz" using msgs unfolding marshalled_def by blast
  have m: "marshalled K compressMsg msgs m bz" using msg t unfolding msg_inv_def by blast
  have "owns s t h" using t by (simp add: owns_def)
  then have lent: "0 < length (sp_borrowed (sd_pool s))" and open_h: "h \<notin> sd_closed s"
    using own_invD(2,4) [OF own] by (auto intro: length_pos_if_in_set simp del: length_greater_0_conv)
  then have full: "\<not> pool_full (sd_pool s)"
    using own by (auto simp: own_inv_def pool_inv_def pool_full_def simp del: length_greater_0_conv)
  note steps = timed_out_write_steps [OF t n(2) m w(1-3) pool full s1_def s2_def]
  have wire: "sd_wire s h = concat (map (frame K) (map snd (sd_sent s h))) @ take n (frame K bz)"
    using writer_wire [OF ok t] n(2) by (simp add: on_wire_def whole_def comp_def case_prod_unfold)
  let ?mixed = "take (n - 8) bz @ take (length (frame K bz) - n) (frame K bz')"
  have "sendable maxSlice ?mixed"
    using fits [OF m] mixed_length [OF K n(1) _ next_frame] n(2) unfolding sendable_def by simp
  moreover have "\<forall>p\<in>set (map snd (sd_sent s h)). sendable maxSlice p" using msg fits unfolding msg_inv_def by fastforce
  ultimately have all: "\<forall>p\<in>set (map snd (sd_sent s h) @ [?mixed]). sendable maxSlice p" by auto
  have "\<exists>more. fst (receiveStreamHandlerLoop u maxSlice st) = (map snd (sd_sent s h) @ [?mixed]) @ more"
    if "avail st = sd_wire s h @ frame K bz'" for st
  proof (rule loop_prefix [OF K u max _ all])
    show "avail st = concat (map (frame K) (map snd (sd_sent s h) @ [?mixed])) @ drop (length (frame K bz) - n) (frame K bz')"
      using that wire cut_frame_reads_on [OF K n(1) _ next_frame] n(2) by simp
  qed
  moreover have "h \<in> set (sp_poolC (sd_pool s2))" using pool full by (simp add: s2_def ReturnStream_def)
  ultimately show ?thesis using send_reach_step [OF send_reach_step [OF reach steps(1)] steps(2)] open_h
    by (intro exI [of _ s2]) (simp add: s2_def s1_def)
qed

definition sample_message :: message where
  "sample_message = (''/chat'', ''hi'')"

abbreviation sample_reachable :: "send_sys \<Rightarrow> bool" where
  "sample_reachable \<equiv> send_reachable sample_codec False {sample_message} (\<lambda>n. Inr n) 2 4"

text \<open>Goroutine 3 has borrowed stream 0 of a pool with two streams.\<close>

lemma sample_borrowed:
  obtains s where "sample_reachable s" "sd_senders s 3 = Some (sample_message, SendMarshal 0)"
    "sd_wire s 0 = []" "sd_sent s 0 = []" "sd_broken s = {}" "\<not> sp_closeC (sd_pool s)"
proof -
  define new where "new = send_start \<lparr>sp_initSize = 2, sp_maxSize = 4, sp_idleSize = 0, sp_currentSize = 0,
         sp_poolC = [], sp_expandingSignalC = False, sp_closeC = False, sp_once = False,
         sp_loop = LoopNotRunning, sp_calls = 0, sp_borrowed = []\<rparr>"
  have new: "sample_reachable new" unfolding new_def by (rule send_reach_new) (simp add: NewSendStreamPool_def)
  define a where "a = new\<lparr>sd_pool := sample_pool False LoopWaiting [0, 1] []\<rparr>"
  have a: "sample_reachable a" unfolding a_def
    by (rule send_reach_step [OF new send_pool])
      (use step_init [OF sample_pool_init] in \<open>simp_all add: new_def send_start_def sample_pool_def\<close>)
  define b where "b = set_sender a 3 sample_message SendBorrow"
  have b: "sample_reachable b" unfolding b_def
    by (rule send_reach_step [OF a send_begin]) (simp_all add: a_def new_def send_start_def)
  define c where "c = set_sender (b\<lparr>sd_pool := sample_pool False LoopWaiting [1] [0]\<rparr>) 3 sample_message (SendTrigger 0)"
  have "BorrowStream_first True (sd_pool b) = (sample_pool False LoopWaiting [1] [0], Borrowed 0)"
    by (simp add: b_def a_def BorrowStream_first_def take_idle_def sample_pool_def)
  then have c: "sample_reachable c" unfolding c_def
    using send_reach_step [OF b send_borrow [of b 3 sample_message True _ "Borrowed 0"]] by (simp add: b_def)
  define d where "d = set_sender (c\<lparr>sd_pool := triggerExpand True (sd_pool c)\<rparr>) 3 sample_message (SendMarshal 0)"
  have "sample_reachable d" unfolding d_def by (rule send_reach_step [OF c send_trigger]) (simp add: c_def)
  then show thesis
    by (rule that) (simp_all add: d_def c_def b_def a_def new_def send_start_def sample_pool_def triggerExpand_def)
qed

lemma sample_marshal:
  obtains bz where "Marshal sample_codec (message_package False sample_message) = Inr bz" "length bz = 24"
    "length (frame sample_codec bz) = 32"
proof -
  obtain bz where "Marshal sample_codec (NewPayloadPackage ''/chat'' ''hi'' CompressTypeNone) = Inr bz" "length bz = 24"
    by (rule sample_package)
  then show thesis
    by (intro that) (simp_all add: message_package_def payloadCompressType_def sample_message_def frame_def sample_codec_def)
qed

lemma sample_send:
  obtains s bz where "sample_reachable s"
    "Marshal sample_codec (message_package False sample_message) = Inr bz" "length bz = 24"
    "sd_wire s 0 = frame sample_codec bz" "sd_sent s 0 = [(sample_message, bz)]" "sd_broken s = {}" "owns s 3 0"
proof -
  obtain bz where m: "Marshal sample_codec (message_package False sample_message) = Inr bz" and bz: "length bz = 24"
    and l: "length (frame sample_codec bz) = 32" by (rule sample_marshal)
  obtain d where d: "sample_reachable d" "sd_senders d 3 = Some (sample_message, SendMarshal 0)"
    "sd_wire d 0 = []" "sd_sent d 0 = []" "sd_broken d = {}" by (rule sample_borrowed)
  define e where "e = set_sender d 3 sample_message (SendWriting 0 bz 0)"
  have e: "sample_reachable e" unfolding e_def using send_reach_step [OF d(1) send_marshal [OF d(2)]] m by simp
  define f where "f = set_sender (e\<lparr>sd_wire := (sd_wire e)(0 := frame sample_codec bz),
    sd_sent := (sd_sent e)(0 := [(sample_message, bz)])\<rparr>) 3 sample_message (SendWriting 0 bz 32)"
  have f: "sample_reachable f" unfolding f_def
    using send_reach_step [OF e send_portion [of e 3 sample_message 0 bz 0 32]] l d(3,4) by (simp add: e_def)
  define g where "g = set_sender (f\<lparr>sd_broken := {}\<rparr>) 3 sample_message (SendGiveBack 0 None)"
  have "write_package sample_codec False (sample_world None) ''/chat'' ''hi'' 0 = Returns (None, Some (frame sample_codec bz))"
    using m by (simp add: write_package_def message_package_def sample_message_def sample_world_def frame_def
      sample_codec_def Let_def)
  then have "sample_reachable g" unfolding g_def
    using send_reach_step [OF f send_written [of f 3 sample_message 0 bz 32 "sample_world None" sample_codec None False None]] l d(5)
    by (simp add: f_def e_def sample_world_def sample_message_def)
  then show thesis using that [of g bz] m bz d(5) by (simp add: g_def f_def e_def owns_def)
qed

theorem sends_never_share_a_stream_witness:
  "\<exists>s. owns s 3 0 \<and> (owns s (7 :: nat) 0 \<longrightarrow> (3 :: nat) = 7) \<and> 0 \<notin> set (sp_poolC (sd_pool s))"
proof -
  obtain s bz where s: "sample_reachable s" "owns s 3 0"
    by (rule sample_send)
  have "fresh_streams (\<lambda>n. Inr n)" by (simp add: fresh_streams_def)
  from sends_never_share_a_stream [OF this sample_codec_laws s(1), of 3 0 7] s(2) show ?thesis by blast
qed

theorem concurrent_sends_arrive_whole_witness:
  "\<exists>bz. map (\<lambda>x. run_pipeline sample_codec 1000 (protocolMgr (sample_host [])\<lparr>pm_handlers := [''/chat'' \<mapsto> Some 7]\<rparr>) (x, ''me''))
     (fst (receiveStreamHandlerLoop sample_u64 1000
        [Chunk (take 4 (frame sample_codec bz)), Chunk (drop 4 (frame sample_codec bz))])) =
     [Returns (Some (7, ''me'', ''hi''))]"
proof -
  obtain s bz where s: "sample_reachable s"
    "Marshal sample_codec (message_package False sample_message) = Inr bz" "length bz = 24"
    "sd_wire s 0 = frame sample_codec bz" "sd_sent s 0 = [(sample_message, bz)]" "sd_broken s = {}"
    by (rule sample_send)
  let ?s = "[Chunk (take 4 (frame sample_codec bz)), Chunk (drop 4 (frame sample_codec bz))]"
  have f: "fresh_streams (\<lambda>n. Inr n)" by (simp add: fresh_streams_def)
  have "\<forall>m\<in>{sample_message}. fst m \<noteq> [] \<and>
      (\<forall>b. Marshal sample_codec (message_package False m) = Inr b \<longrightarrow> sendable 1000 b)"
    using s(2,3) by (simp add: sendable_def sample_message_def)
  from concurrent_sends_arrive_whole [OF sample_codec_laws sample_length_law _ f this s(1), of 0 ?s
      "protocolMgr (sample_host [])\<lparr>pm_handlers := [''/chat'' \<mapsto> Some 7]\<rparr>" "''me''"] s
  show ?thesis by (intro exI [of _ bz]) (simp add: Handler_def sample_message_def)
qed

theorem timed_out_write_mixes_messages_witness:
  "\<exists>(s :: send_sys) bz. 0 \<in> set (sp_poolC (sd_pool s)) \<and> length bz = 24 \<and>
     (\<exists>more. fst (receiveStreamHandlerLoop sample_u64 1000 [Chunk (sd_wire s 0 @ frame sample_codec bz)]) =
        map snd (sd_sent s 0) @ [take 2 bz @ take 22 (frame sample_codec bz)] @ more)"
proof -
  let ?e = "\<lparr>err_text = ''i/o deadline reached'', err_net = Some True\<rparr>"
  let ?W = "(sample_world None)\<lparr>sw_write := (\<lambda>_ _. (10, Some ?e))\<rparr>"
  obtain d where d: "sample_reachable d" "sd_senders d 3 = Some (sample_message, SendMarshal 0)"
    "sd_wire d 0 = []" "sd_sent d 0 = []" "sd_broken d = {}" "\<not> sp_closeC (sd_pool d)" by (rule sample_borrowed)
  obtain bz where bz: "Marshal sample_codec (message_package False sample_message) = Inr bz" "length bz = 24"
    "length (frame sample_codec bz) = 32" by (rule sample_marshal)
  define e where "e = set_sender d 3 sample_message (SendWriting 0 bz 0)"
  have e: "sample_reachable e" unfolding e_def using send_reach_step [OF d(1) send_marshal [OF d(2)]] bz(1) by simp
  have "sd_senders e 3 = Some (sample_message, SendWriting 0 bz 0)" by (simp add: e_def)
  from send_reach_step [OF e send_portion [OF this, of 10]] obtain f where f: "sample_reachable f"
    "sd_senders f 3 = Some (sample_message, SendWriting 0 bz 10)" "0 \<notin> sd_broken f" "\<not> sp_closeC (sd_pool f)"
    using bz(3) d(5,6) by (simp add: e_def)
  have fr: "fresh_streams (\<lambda>n. Inr n)" by (simp add: fresh_streams_def)
  have fits: "\<forall>m\<in>{sample_message}. \<forall>b. Marshal sample_codec (message_package False m) = Inr b \<longrightarrow> sendable 1000 b"
    using bz by (simp add: sendable_def)
  have W: "sw_write ?W 0 (frame sample_codec bz) = (int 10, Some ?e)" "IsNetErrorTimeout (Some ?e)"
    "\<not> sw_nwClosed ?W" "\<not> sw_connClosed ?W" by (simp_all add: sample_world_def IsNetErrorTimeout_def NetError_def)
  have n: "(8::int) \<le> 1000" "8 \<le> (10::nat)" "10 < length (frame sample_codec bz)"
    "length (frame sample_codec bz) \<le> 10 + length (frame sample_codec bz)" using bz(3) by simp_all
  obtain s :: send_sys where s: "0 \<in> set (sp_poolC (sd_pool s))"
    "\<And>st. avail st = sd_wire s 0 @ frame sample_codec bz \<Longrightarrow> \<exists>more. fst (receiveStreamHandlerLoop sample_u64 1000 st) =
       map snd (sd_sent s 0) @ [take (10 - 8) bz @ take (length (frame sample_codec bz) - 10) (frame sample_codec bz)] @ more"
    using timed_out_write_mixes_messages [OF sample_codec_laws sample_length_law n(1) fr fits f(1,3,2) n(2,3) W f(4) n(4)]
    by blast
  have "\<exists>more. fst (receiveStreamHandlerLoop sample_u64 1000 [Chunk (sd_wire s 0 @ frame sample_codec bz)]) =
      map snd (sd_sent s 0) @ [take 2 bz @ take 22 (frame sample_codec bz)] @ more"
    using s(2) [of "[Chunk (sd_wire s 0 @ frame sample_codec bz)]"] bz(3) by simp
  then show ?thesis using s(1) bz(2) by blast
qed

end
