(* ===== verification/Protocol_Exchanger.thy ===== *)
theory Protocol_Exchanger
  imports Protocol_Manager Stream_IO Network_Core "HOL-Library.Char_ord" "HOL-Library.List_Lexorder"
begin

text \<open>
  \<open>components/protocol_exchanger.go\<close>: the exchange of protocols on a new connection, the pushes
  of changed protocols to other peers and the handler that receives them. The protobuf encoding
  of the payload is a parameter with the law that decoding an encoded message gives it back.
  What the connection and the streams answer is an argument of the operation that asks them;
  an operation that waits for ever has the outcome \<open>ExWaits\<close>.
\<close>

section \<open>Payloads\<close>

text \<open>
  The type of a payload is a proto3 enumeration, an \<open>int32\<close> in the generated code: a payload can carry any
  other number, and \<open>proto.Unmarshal\<close> keeps it.
\<close>

datatype exchanger_type = PUSH | PUSH_OK | REQUEST | RESPONSE | Other_payload int

record exchanger_payload =
  ep_pid :: peer_id
  ep_protocols :: "protocol_id list"
  ep_type :: exchanger_type

record proto_codec =
  protoMarshal :: "exchanger_payload \<Rightarrow> string + bytes"
  protoUnmarshal :: "bytes \<Rightarrow> string + exchanger_payload"

definition proto_laws :: "proto_codec \<Rightarrow> bool" where
  "proto_laws C \<longleftrightarrow> (\<forall>m bz. protoMarshal C m = Inr bz \<longrightarrow> protoUnmarshal C bz = Inr m)"

definition ProtocolExchangerProtocolID :: protocol_id where
  "ProtocolExchangerProtocolID = ''/protocol-exchanger/v0.0.1''"

datatype exr_error =
    ErrUnknownConnectionDirection
  | ErrPushProtocolTimeout
  | ErrExchangeProtocolTimeout
  | ErrProtocolOfExchangerMismatch
  | ErrPayloadTypeMismatch
  | ErrStream io_error
  | ErrPackage pkg_error
  | ErrProto string

datatype 'a exr = ExOk 'a | ExErr exr_error | ExWaits | ExPanics panic

text \<open>
  What the exchanger reads of its host: its id and \<open>RegisteredAll\<close>. \<open>sort.Strings\<close> orders byte
  strings lexicographically, which is the order of HOL's lists of characters.
\<close>

definition buildProtocolsPayload ::
  "proto_codec \<Rightarrow> peer_id \<Rightarrow> protocol_id list \<Rightarrow> exchanger_type \<Rightarrow> string + bytes" where
  "buildProtocolsPayload C localPID protocols payloadType =
     protoMarshal C \<lparr>ep_pid = localPID, ep_protocols = sort protocols, ep_type = payloadType\<rparr>"

section \<open>The exchange on a connection\<close>

text \<open>\<open>write\<close> is the error of \<open>sendStream.Write\<close>. The second component is what was written.\<close>

definition sendExchangePayload ::
  "codec \<Rightarrow> proto_codec \<Rightarrow> peer_id \<Rightarrow> protocol_id list \<Rightarrow> (bytes \<Rightarrow> io_error option) \<Rightarrow> exchanger_type
   \<Rightarrow> unit exr \<times> bytes option" where
  "sendExchangePayload K C localPID protocols write payloadType =
     (case buildProtocolsPayload C localPID protocols payloadType of
        Inl e \<Rightarrow> (ExErr (ErrProto e), None)
      | Inr payloadBz \<Rightarrow>
          (case Marshal K (NewPayloadPackage ProtocolExchangerProtocolID payloadBz CompressTypeNone) of
             Inl e \<Rightarrow> (ExErr (ErrPackage e), None)
           | Inr payloadPkgBz \<Rightarrow>
               (let buffer = intToBytes K (int (length payloadPkgBz)) @ payloadPkgBz
                in case write buffer of
                     Some e \<Rightarrow> (ExErr (ErrStream e), Some buffer)
                   | None \<Rightarrow> (ExOk (), Some buffer))))"

definition receiveExchangePayload ::
  "codec \<Rightarrow> proto_codec \<Rightarrow> (bytes \<Rightarrow> 64 word) \<Rightarrow> int \<Rightarrow> stream \<Rightarrow> exchanger_type \<Rightarrow> protocol_id list exr" where
  "receiveExchangePayload K C u maxSlice receiveStream payloadType =
     (case ReadPackageLength u maxSlice receiveStream of
        Failed e _ \<Rightarrow> ExErr (ErrStream e) | Blocked \<Rightarrow> ExWaits | Panicked p \<Rightarrow> ExPanics p
      | Done (dataLength, _) s1 \<Rightarrow>
          (case ReadPackageData maxSlice s1 dataLength of
             Failed e _ \<Rightarrow> ExErr (ErrStream e) | Blocked \<Rightarrow> ExWaits | Panicked p \<Rightarrow> ExPanics p
           | Done dataBz s2 \<Rightarrow>
               (case Unmarshal K maxSlice
                       \<lparr>pkg_protocol = [], pkg_payload = [], pkg_compressType = CompressTypeNone\<rparr> dataBz of
                  Panics p \<Rightarrow> ExPanics p
                | Returns (pkg, Some e) \<Rightarrow> ExErr (ErrPackage e)
                | Returns (pkg, None) \<Rightarrow>
                    if pkg_protocol pkg \<noteq> ProtocolExchangerProtocolID then ExErr ErrProtocolOfExchangerMismatch
                    else (case protoUnmarshal C (pkg_payload pkg) of
                            Inl e \<Rightarrow> ExErr (ErrProto e)
                          | Inr msg \<Rightarrow>
                              if ep_type msg \<noteq> payloadType then ExErr ErrPayloadTypeMismatch
                              else ExOk (ep_protocols msg)))))"

text \<open>
  \<open>accept\<close> and \<open>open_\<close> are the answers of \<open>AcceptReceiveStream\<close> and \<open>OpenSendStream\<close> (\<open>ew_accept\<close>
  is \<open>None\<close> while no stream comes); an accepted stream is what its reads will find. The result is
  the outcome and what was written.
\<close>

record exchange_world =
  ew_accept :: "(io_error + stream) option"
  ew_open :: "io_error option"
  ew_write :: "bytes \<Rightarrow> io_error option"

definition exchangeProtocol ::
  "codec \<Rightarrow> proto_codec \<Rightarrow> (bytes \<Rightarrow> 64 word) \<Rightarrow> int \<Rightarrow> peer_id \<Rightarrow> protocol_id list \<Rightarrow> exchange_world \<Rightarrow> direction
   \<Rightarrow> protocol_id list exr \<times> bytes option" where
  "exchangeProtocol K C u maxSlice localPID protocols W dir =
     (let send = sendExchangePayload K C localPID protocols (ew_write W);
          receive = receiveExchangePayload K C u maxSlice
      in case dir of
        Inbound \<Rightarrow>
          (case ew_accept W of
             None \<Rightarrow> (ExWaits, None) | Some (Inl e) \<Rightarrow> (ExErr (ErrStream e), None)
           | Some (Inr receiveStream) \<Rightarrow>
               (case receive receiveStream REQUEST of
                  ExErr e \<Rightarrow> (ExErr e, None) | ExWaits \<Rightarrow> (ExWaits, None) | ExPanics p \<Rightarrow> (ExPanics p, None)
                | ExOk ps \<Rightarrow>
                    (case ew_open W of
                       Some e \<Rightarrow> (ExErr (ErrStream e), None)
                     | None \<Rightarrow>
                         (case send RESPONSE of
                            (ExErr e, written) \<Rightarrow> (ExErr e, written) | (ExWaits, written) \<Rightarrow> (ExWaits, written)
                          | (ExPanics p, written) \<Rightarrow> (ExPanics p, written)
                          | (ExOk _, written) \<Rightarrow> (ExOk ps, written)))))
      | Outbound \<Rightarrow>
          (case ew_open W of
             Some e \<Rightarrow> (ExErr (ErrStream e), None)
           | None \<Rightarrow>
               (case send REQUEST of
                  (ExErr e, written) \<Rightarrow> (ExErr e, written) | (ExWaits, written) \<Rightarrow> (ExWaits, written)
                | (ExPanics p, written) \<Rightarrow> (ExPanics p, written)
                | (ExOk _, written) \<Rightarrow>
                    (case ew_accept W of
                       None \<Rightarrow> (ExWaits, written) | Some (Inl e) \<Rightarrow> (ExErr (ErrStream e), written)
                     | Some (Inr receiveStream) \<Rightarrow> (receive receiveStream RESPONSE, written))))
      | Unknown \<Rightarrow> (ExErr ErrUnknownConnectionDirection, None))"

text \<open>
  \<open>ExchangeProtocol\<close> waits for the goroutine or for the timeout. A goroutine that waits for ever
  or panics (the panic is recovered by \<open>LoggerGo\<close>) never signals its end.
\<close>

definition ExchangeProtocol :: "bool \<Rightarrow> protocol_id list exr \<Rightarrow> exr_error + protocol_id list" where
  "ExchangeProtocol timedOut r =
     (if timedOut then Inl ErrExchangeProtocolTimeout
      else case r of
        ExOk ps \<Rightarrow> Inr ps | ExErr e \<Rightarrow> Inl e
      | ExWaits \<Rightarrow> Inl ErrExchangeProtocolTimeout | ExPanics _ \<Rightarrow> Inl ErrExchangeProtocolTimeout)"

section \<open>The handler\<close>

text \<open>
  \<open>Handle\<close>. \<open>pushSignalC\<close> maps a peer to its channel; \<open>buffered\<close> tells whether the channel's only
  place is taken. \<open>reply\<close> is the error of \<open>SendMsg\<close>, the third component of the result what it is
  asked to send. A handler that blocks on the full channel has the end \<open>HandleBlocked\<close>: it is
  before the protocols are recorded.
\<close>

record ('b, 'h, 'f) exchanger =
  ex_protocolMgr :: "('b, 'h, 'f) protocol_manager"
  ex_pushSignalC :: "peer_id \<rightharpoonup> handle"
  ex_buffered :: "handle \<Rightarrow> bool"

datatype handle_end = HandleDone | HandleBlocked handle

definition exr_Handle ::
  "'b protocol_book_ops \<Rightarrow> (protocol_id list \<Rightarrow> protocol_id list \<Rightarrow> protocol_id list)
   \<Rightarrow> ((protocol_id \<rightharpoonup> 'h option) \<Rightarrow> protocol_id list) \<Rightarrow> proto_codec \<Rightarrow> peer_id \<Rightarrow> peer_id \<Rightarrow> bytes
   \<Rightarrow> ('b, 'h, 'f) exchanger
   \<Rightarrow> ('b, 'h, 'f) exchanger \<times> handle_end \<times> (protocol_id \<times> peer_id \<times> bytes) list \<times> 'f call list" where
  "exr_Handle B ex mapKeys C localPID senderPID msgPayload p =
     (case protoUnmarshal C msgPayload of
        Inl _ \<Rightarrow> (p, HandleDone, [], [])
      | Inr msg \<Rightarrow>
          if senderPID \<noteq> ep_pid msg then (p, HandleDone, [], [])
          else
            (let set_protocols = (\<lambda>p. let (pm, err, calls) =
                   SetSupportedProtocolsOfPeer B ex (ex_protocolMgr p) senderPID (ep_protocols msg)
                 in (p\<lparr>ex_protocolMgr := pm\<rparr>, err, calls))
             in case ep_type msg of
               PUSH \<Rightarrow>
                 (let (p', err, calls) = set_protocols p
                  in case err of
                       Some _ \<Rightarrow> (p', HandleDone, [], calls)
                     | None \<Rightarrow>
                         (case buildProtocolsPayload C localPID (RegisteredAll mapKeys (ex_protocolMgr p')) PUSH_OK of
                            Inl _ \<Rightarrow> (p', HandleDone, [], calls)
                          | Inr payloadBz \<Rightarrow>
                              (p', HandleDone, [(ProtocolExchangerProtocolID, senderPID, payloadBz)], calls)))
             | PUSH_OK \<Rightarrow>
                 (case ex_pushSignalC p senderPID of
                    Some c \<Rightarrow>
                      if ex_buffered p c then (p, HandleBlocked c, [], [])
                      else (let (p', _, calls) = set_protocols (p\<lparr>ex_buffered := (ex_buffered p)(c := True)\<rparr>)
                            in (p', HandleDone, [], calls))
                  | None \<Rightarrow> (let (p', _, calls) = set_protocols p in (p', HandleDone, [], calls)))
             | REQUEST \<Rightarrow> (p, HandleDone, [], [])
             | RESPONSE \<Rightarrow> (p, HandleDone, [], [])
             | Other_payload _ \<Rightarrow> (p, HandleDone, [], [])))"

section \<open>The exchange succeeds\<close>

lemma frame_received:
  assumes K: "codec_laws K" "length_law K u" and max: "8 \<le> maxSlice" and s: "sendable maxSlice bz"
    and a: "avail s = frame K bz"
  shows "\<exists>s1 s2. ReadPackageLength u maxSlice s = Done (of_nat (length bz), intToBytes K (int (length bz))) s1 \<and>
    ReadPackageData maxSlice s1 (of_nat (length bz)) = Done bz s2"
proof -
  let ?l = "intToBytes K (int (length bz))"
  have 8: "length ?l = 8" using K(1) by (simp add: codec_laws_def)
  have u: "u ?l = of_nat (length bz)" using K(2) s by (simp add: length_law_def sendable_def)
  from ReadPackageLength_enough [OF max _ 8, of s bz u] a obtain s1 where
    s1: "ReadPackageLength u maxSlice s = Done (u ?l, ?l) s1" "avail s1 = bz" "after s1 = after s"
    by (auto simp: frame_def)
  have n: "unat (u ?l) = length bz" by (rule framed_length [OF K s])
  have "delivers s1 (length bz) [] (ReadPackageData maxSlice s1 (u ?l))"
    using ReadPackageData_delivers [of "u ?l" maxSlice s1] s by (simp add: n sendable_def)
  from delivers_enough [OF this] s1(2) obtain s2 where "ReadPackageData maxSlice s1 (u ?l) = Done bz s2"
    by auto
  with s1(1) u show ?thesis by auto
qed

lemma sendExchangePayload_ok:
  assumes "sendExchangePayload K C me protos write t = (ExOk (), written)"
  obtains payload bz where
    "protoMarshal C \<lparr>ep_pid = me, ep_protocols = sort protos, ep_type = t\<rparr> = Inr payload"
    "Marshal K (NewPayloadPackage ProtocolExchangerProtocolID payload CompressTypeNone) = Inr bz"
    "written = Some (frame K bz)"
  using assms
  by (auto simp: sendExchangePayload_def buildProtocolsPayload_def frame_def Let_def
      split: sum.splits option.splits)

lemma sent_payload_received:
  assumes K: "codec_laws K" "length_law K u" and C: "proto_laws C" and max: "8 \<le> maxSlice"
    and r: "sendExchangePayload K C me protos write t = (ExOk (), Some (avail s))"
    and fits: "\<forall>bz. avail s = frame K bz \<longrightarrow> sendable maxSlice bz"
  shows "receiveExchangePayload K C u maxSlice s t = ExOk (sort protos)"
proof -
  from sendExchangePayload_ok [OF r] obtain payload bz where
    p: "protoMarshal C \<lparr>ep_pid = me, ep_protocols = sort protos, ep_type = t\<rparr> = Inr payload"
    and m: "Marshal K (NewPayloadPackage ProtocolExchangerProtocolID payload CompressTypeNone) = Inr bz"
    and w: "avail s = frame K bz" by auto
  have sb: "sendable maxSlice bz" using fits w by blast
  from frame_received [OF K max sb w] obtain s1 s2 where
    "ReadPackageLength u maxSlice s = Done (of_nat (length bz), intToBytes K (int (length bz))) s1"
    "ReadPackageData maxSlice s1 (of_nat (length bz)) = Done bz s2" by blast
  moreover have "Unmarshal K maxSlice q bz =
      Returns (NewPayloadPackage ProtocolExchangerProtocolID payload CompressTypeNone, None)" for q
    using payload_round_trip [OF K(1) m, of maxSlice q] sb
    by (simp add: NewPayloadPackage_def sendable_def ProtocolExchangerProtocolID_def)
  moreover have "protoUnmarshal C payload = Inr \<lparr>ep_pid = me, ep_protocols = sort protos, ep_type = t\<rparr>"
    using C p by (simp add: proto_laws_def)
  ultimately show ?thesis by (simp add: receiveExchangePayload_def NewPayloadPackage_def)
qed

lemma sendExchangePayload_done:
  assumes "sendExchangePayload K C me protos write t = (r, Some w)" and "write w = None"
  shows "r = ExOk ()"
  using assms
  by (auto simp: sendExchangePayload_def Let_def split: sum.splits option.splits)

section \<open>Properties\<close>

text \<open>
  C14. The exchange is mutual. When the outbound side of a connection runs the exchange against the
  inbound side, both get their streams, and what each writes arrives at the other in any
  portions, then both succeed and each ends with exactly the sorted registered protocols of the
  other, whether the time is long or short as long as it has not run out.
\<close>

theorem exchange_gives_each_the_others_protocols:
  assumes K: "codec_laws K" "length_law K u" and C: "proto_laws C" and max: "8 \<le> maxSlice"
    and a: "exchangeProtocol K C u maxSlice pidA protosA
        \<lparr>ew_accept = Some (Inr toA), ew_open = None, ew_write = (\<lambda>_. None)\<rparr> Outbound = (rA, Some (avail toB))"
    and b: "exchangeProtocol K C u maxSlice pidB protosB
        \<lparr>ew_accept = Some (Inr toB), ew_open = None, ew_write = (\<lambda>_. None)\<rparr> Inbound = (rB, Some (avail toA))"
    and fits: "\<forall>bz. avail toA = frame K bz \<or> avail toB = frame K bz \<longrightarrow> sendable maxSlice bz"
  shows "ExchangeProtocol False rA = Inr (sort protosB) \<and> ExchangeProtocol False rB = Inr (sort protosA)"
proof -
  let ?sendA = "sendExchangePayload K C pidA protosA (\<lambda>_. None) REQUEST"
  let ?sendB = "sendExchangePayload K C pidB protosB (\<lambda>_. None) RESPONSE"
  have "snd ?sendA = Some (avail toB)"
    using a by (auto simp: exchangeProtocol_def Let_def split: exr.splits prod.splits)
  then have A: "?sendA = (ExOk (), Some (avail toB))"
    using sendExchangePayload_done [of K C pidA protosA "\<lambda>_. None" REQUEST "fst ?sendA"]
    by (metis prod.collapse)
  have toB: "receiveExchangePayload K C u maxSlice toB REQUEST = ExOk (sort protosA)"
    by (rule sent_payload_received [OF K C max A]) (use fits in blast)
  have "snd ?sendB = Some (avail toA)"
    using b by (auto simp: exchangeProtocol_def toB Let_def split: exr.splits prod.splits)
  then have B: "?sendB = (ExOk (), Some (avail toA))"
    using sendExchangePayload_done [of K C pidB protosB "\<lambda>_. None" RESPONSE "fst ?sendB"]
    by (metis prod.collapse)
  have toA: "receiveExchangePayload K C u maxSlice toA RESPONSE = ExOk (sort protosB)"
    by (rule sent_payload_received [OF K C max B]) (use fits in blast)
  show ?thesis using a b by (auto simp: exchangeProtocol_def A B toA toB ExchangeProtocol_def)
qed

text \<open>
  A protobuf codec for the examples: the type, then the id and the protocols, each ended by a
  zero byte; a string that holds a zero byte and a type without a name are refused. The first byte
  of what is decoded can be any other than the four of the named types.
\<close>

fun sample_fields :: "bytes \<Rightarrow> bytes \<Rightarrow> bytes list" where
  "sample_fields acc [] = []"
| "sample_fields acc (c # cs) =
     (if c = CHR 0x00 then rev acc # sample_fields [] cs else sample_fields (c # acc) cs)"

fun named_type :: "exchanger_type \<Rightarrow> bool" where
  "named_type (Other_payload n) = False"
| "named_type t = True"

definition type_char :: "exchanger_type \<Rightarrow> char" where
  "type_char t = (case t of PUSH \<Rightarrow> CHR ''0'' | PUSH_OK \<Rightarrow> CHR ''1'' | REQUEST \<Rightarrow> CHR ''2'' | RESPONSE \<Rightarrow> CHR ''3''
     | Other_payload n \<Rightarrow> CHR 0x00)"

definition char_type :: "char \<Rightarrow> exchanger_type" where
  "char_type c = (if c = CHR ''0'' then PUSH else if c = CHR ''1'' then PUSH_OK
     else if c = CHR ''2'' then REQUEST else if c = CHR ''3'' then RESPONSE else Other_payload (of_char c))"

definition sample_proto :: proto_codec where
  "sample_proto =
     \<lparr>protoMarshal = (\<lambda>m. if named_type (ep_type m) \<and> list_all (\<lambda>s. CHR 0x00 \<notin> set s) (ep_pid m # ep_protocols m)
        then Inr (type_char (ep_type m) # concat (map (\<lambda>s. s @ [CHR 0x00]) (ep_pid m # ep_protocols m)))
        else Inl ''refused''),
      protoUnmarshal = (\<lambda>bz. case bz of [] \<Rightarrow> Inl ''EOF''
        | t # r \<Rightarrow> (case sample_fields [] r of [] \<Rightarrow> Inl ''EOF''
            | pid # ps \<Rightarrow> Inr \<lparr>ep_pid = pid, ep_protocols = ps, ep_type = char_type t\<rparr>))\<rparr>"

lemma sample_fields_append:
  "CHR 0x00 \<notin> set s \<Longrightarrow> sample_fields acc (s @ CHR 0x00 # t) = (rev acc @ s) # sample_fields [] t"
  by (induction s arbitrary: acc) auto

lemma sample_fields_concat:
  "list_all (\<lambda>s. CHR 0x00 \<notin> set s) ss \<Longrightarrow> sample_fields [] (concat (map (\<lambda>s. s @ [CHR 0x00]) ss)) = ss"
  by (induction ss) (simp_all add: sample_fields_append)

lemma sample_proto_laws: "proto_laws sample_proto"
proof -
  have "char_type (type_char t) = t" if "named_type t" for t using that by (cases t) (simp_all add: char_type_def type_char_def)
  moreover have "sample_fields [] (s @ CHR 0x00 # concat (map (\<lambda>s. s @ [CHR 0x00]) ss)) = s # ss"
    if "list_all (\<lambda>s. CHR 0x00 \<notin> set s) (s # ss)" for s ss
    using that sample_fields_concat [of ss] by (simp add: sample_fields_append)
  ultimately show ?thesis by (simp add: proto_laws_def sample_proto_def)
qed

lemma sample_exchange_sent:
  assumes "p = ''/x'' \<or> p = ''/y''" and "named_type t"
  shows "\<exists>w. sendExchangePayload sample_codec sample_proto ''a'' [p] (\<lambda>_. None) t = (ExOk (), Some w) \<and>
    (\<forall>bz. w = frame sample_codec bz \<longrightarrow> sendable 1000 bz)"
proof -
  obtain bz where bz: "Marshal sample_codec (NewPayloadPackage ProtocolExchangerProtocolID
      (type_char t # ''a'' @ CHR 0x00 # p @ [CHR 0x00]) CompressTypeNone) = Inr bz" and l: "length bz < 60"
    using assms by (auto simp: Marshal_def finalPayload_def sample_codec_def NewPayloadPackage_def
        ProtocolExchangerProtocolID_def)
  have "sendable 1000 bz'" if "frame sample_codec bz = frame sample_codec bz'" for bz'
  proof -
    have "length (frame sample_codec bz) = length (frame sample_codec bz')" using that by simp
    then show ?thesis using l by (simp add: frame_def sample_codec_def sendable_def)
  qed
  moreover have "sendExchangePayload sample_codec sample_proto ''a'' [p] (\<lambda>_. None) t =
      (ExOk (), Some (frame sample_codec bz))"
    using assms bz by (auto simp: sendExchangePayload_def buildProtocolsPayload_def sample_proto_def frame_def)
  ultimately show ?thesis by blast
qed

theorem exchange_gives_each_the_others_protocols_witness:
  "\<exists>toA toB rA rB.
     exchangeProtocol sample_codec sample_proto sample_u64 1000 ''a'' [''/x'']
       \<lparr>ew_accept = Some (Inr toA), ew_open = None, ew_write = (\<lambda>_. None)\<rparr> Outbound = (rA, Some (avail toB)) \<and>
     ExchangeProtocol False rA = Inr [''/y''] \<and> ExchangeProtocol False rB = Inr [''/x'']"
proof -
  obtain a where a: "sendExchangePayload sample_codec sample_proto ''a'' [''/x''] (\<lambda>_. None) REQUEST = (ExOk (), Some a)"
    and fa: "\<forall>bz. a = frame sample_codec bz \<longrightarrow> sendable 1000 bz" using sample_exchange_sent by (metis named_type.simps)
  obtain b where b: "sendExchangePayload sample_codec sample_proto ''a'' [''/y''] (\<lambda>_. None) RESPONSE = (ExOk (), Some b)"
    and fb: "\<forall>bz. b = frame sample_codec bz \<longrightarrow> sendable 1000 bz" using sample_exchange_sent by (metis named_type.simps)
  note L = sample_codec_laws sample_length_law sample_proto_laws
  have "receiveExchangePayload sample_codec sample_proto sample_u64 1000 [Chunk a] REQUEST = ExOk (sort [''/x''])"
    by (rule sent_payload_received [OF L]) (use a fa in simp_all)
  then have B: "exchangeProtocol sample_codec sample_proto sample_u64 1000 ''a'' [''/y'']
      \<lparr>ew_accept = Some (Inr [Chunk a]), ew_open = None, ew_write = (\<lambda>_. None)\<rparr> Inbound =
      (ExOk [''/x''], Some (avail [Chunk b]))"
    using b by (simp add: exchangeProtocol_def)
  have "receiveExchangePayload sample_codec sample_proto sample_u64 1000 [Chunk b] RESPONSE = ExOk (sort [''/y''])"
    by (rule sent_payload_received [OF L]) (use b fb in simp_all)
  then have A: "exchangeProtocol sample_codec sample_proto sample_u64 1000 ''a'' [''/x'']
      \<lparr>ew_accept = Some (Inr [Chunk b]), ew_open = None, ew_write = (\<lambda>_. None)\<rparr> Outbound =
      (ExOk [''/y''], Some (avail [Chunk a]))"
    using a by (simp add: exchangeProtocol_def)
  have "ExchangeProtocol False (ExOk [''/y'']) = Inr (sort [''/y'']) \<and>
      ExchangeProtocol False (ExOk [''/x'']) = Inr (sort [''/x''])"
    by (rule exchange_gives_each_the_others_protocols [OF L _ A B]) (use fa fb in auto)
  then show ?thesis
    by (intro exI [of _ "[Chunk b]"] exI [of _ "[Chunk a]"] exI [of _ "ExOk [''/y'']"]
        exI [of _ "ExOk [''/x'']"] conjI A) simp_all
qed

end
