(* ===== verification/Exchanger_Pushes.thy ===== *)
theory Exchanger_Pushes
  imports Protocol_Exchanger
begin

text \<open>
  \<open>components/protocol_exchanger.go\<close>, continued: the goroutines that push protocols to other peers
  and that handle the answers, interleaved, and what the handler does with a payload.
\<close>

section \<open>Concurrent pushes\<close>

text \<open>
  \<open>PushProtocols\<close> and the handlers of \<open>PUSH_OK\<close> run in goroutines of their own; each region under
  the exchanger's lock is one step. Every push makes a fresh channel with one place
  (\<open>pg_buffered\<close>); a handler first looks the channel up and then sends on it, which is possible
  only while the place is free. \<open>PushRetry\<close> is the round that finds a push of the same peer in
  progress, sleeps and calls \<open>PushProtocols\<close> again.
\<close>

datatype push_pc =
    PushCheck
  | PushInsert
  | PushSend handle
  | PushWait handle
  | PushCleanup handle "exr_error option"
  | PushDone "exr_error option"

datatype handler_pc = HandlerSend handle | HandlerPast

record push_sys =
  pg_signalC :: "peer_id \<rightharpoonup> handle"
  pg_buffered :: "handle \<Rightarrow> bool"
  pg_next :: handle
  pg_pushers :: "thread \<rightharpoonup> peer_id \<times> push_pc"
  pg_handlers :: "thread \<rightharpoonup> handler_pc"

definition push_init :: push_sys where
  "push_init = \<lparr>pg_signalC = Map.empty, pg_buffered = (\<lambda>_. False), pg_next = 0,
     pg_pushers = Map.empty, pg_handlers = Map.empty\<rparr>"

datatype push_event =
    StartPush thread peer_id
  | StepPush thread
  | SentPush thread "exr_error option"
  | ReceiveSignal thread
  | PushTimeout thread
  | LookupChannel thread peer_id
  | SendSignal thread

definition set_pusher :: "push_sys \<Rightarrow> thread \<Rightarrow> peer_id \<Rightarrow> push_pc \<Rightarrow> push_sys" where
  "set_pusher s t pid pc = s\<lparr>pg_pushers := (pg_pushers s)(t \<mapsto> (pid, pc))\<rparr>"

fun push_exec :: "push_event \<Rightarrow> push_sys \<Rightarrow> push_sys option" where
  "push_exec (StartPush t pid) s =
     (if pg_pushers s t = None then Some (set_pusher s t pid PushCheck) else None)"
| "push_exec (StepPush t) s =
     (case pg_pushers s t of
        Some (pid, PushCheck) \<Rightarrow>
          Some (if pg_signalC s pid = None then set_pusher s t pid PushInsert else s)
      | Some (pid, PushInsert) \<Rightarrow>
          Some (set_pusher (s\<lparr>pg_signalC := (pg_signalC s)(pid \<mapsto> pg_next s), pg_next := Suc (pg_next s)\<rparr>)
                  t pid (PushSend (pg_next s)))
      | Some (pid, PushCleanup c err) \<Rightarrow>
          Some (set_pusher (s\<lparr>pg_signalC := (pg_signalC s)(pid := None)\<rparr>) t pid (PushDone err))
      | _ \<Rightarrow> None)"
| "push_exec (SentPush t err) s =
     (case pg_pushers s t of
        Some (pid, PushSend c) \<Rightarrow>
          Some (set_pusher s t pid (if err = None then PushWait c else PushCleanup c err))
      | _ \<Rightarrow> None)"
| "push_exec (ReceiveSignal t) s =
     (case pg_pushers s t of
        Some (pid, PushWait c) \<Rightarrow>
          if pg_buffered s c
          then Some (set_pusher (s\<lparr>pg_buffered := (pg_buffered s)(c := False)\<rparr>) t pid (PushCleanup c None))
          else None
      | _ \<Rightarrow> None)"
| "push_exec (PushTimeout t) s =
     (case pg_pushers s t of
        Some (pid, PushWait c) \<Rightarrow> Some (set_pusher s t pid (PushCleanup c (Some ErrPushProtocolTimeout)))
      | _ \<Rightarrow> None)"
| "push_exec (LookupChannel h pid) s =
     (if pg_handlers s h = None
      then Some (s\<lparr>pg_handlers := (pg_handlers s)(h \<mapsto>
             (case pg_signalC s pid of Some c \<Rightarrow> HandlerSend c | None \<Rightarrow> HandlerPast))\<rparr>)
      else None)"
| "push_exec (SendSignal h) s =
     (case pg_handlers s h of
        Some (HandlerSend c) \<Rightarrow>
          if pg_buffered s c then None
          else Some (s\<lparr>pg_buffered := (pg_buffered s)(c := True),
                       pg_handlers := (pg_handlers s)(h \<mapsto> HandlerPast)\<rparr>)
      | _ \<Rightarrow> None)"

fun push_run :: "push_event list \<Rightarrow> push_sys \<Rightarrow> push_sys option" where
  "push_run [] s = Some s"
| "push_run (e # es) s = (case push_exec e s of None \<Rightarrow> None | Some s' \<Rightarrow> push_run es s')"

text \<open>The channels a push still uses, and what is known of all channels.\<close>

fun uses_channel :: "push_pc \<Rightarrow> handle \<Rightarrow> bool" where
  "uses_channel (PushSend c) d = (c = d)"
| "uses_channel (PushWait c) d = (c = d)"
| "uses_channel _ d = False"

definition push_inv :: "push_sys \<Rightarrow> bool" where
  "push_inv s \<longleftrightarrow>
     (\<forall>pid c. pg_signalC s pid = Some c \<longrightarrow> c < pg_next s) \<and>
     (\<forall>c. pg_buffered s c \<longrightarrow> c < pg_next s) \<and>
     (\<forall>h c. pg_handlers s h = Some (HandlerSend c) \<longrightarrow> c < pg_next s) \<and>
     (\<forall>t pid pc c. pg_pushers s t = Some (pid, pc) \<longrightarrow> uses_channel pc c \<longrightarrow> c < pg_next s) \<and>
     (\<forall>t u p q pc qc c. pg_pushers s t = Some (p, pc) \<longrightarrow> pg_pushers s u = Some (q, qc) \<longrightarrow>
        uses_channel pc c \<longrightarrow> uses_channel qc c \<longrightarrow> t = u)"

lemma push_invD:
  assumes "push_inv s"
  shows "pg_signalC s pid = Some c \<Longrightarrow> c < pg_next s"
    and "pg_buffered s c \<Longrightarrow> c < pg_next s"
    and "pg_handlers s h = Some (HandlerSend c) \<Longrightarrow> c < pg_next s"
    and "pg_pushers s t = Some (p, pc) \<Longrightarrow> uses_channel pc c \<Longrightarrow> c < pg_next s"
    and "pg_pushers s t = Some (p, pc) \<Longrightarrow> pg_pushers s u = Some (q, qc) \<Longrightarrow>
      uses_channel pc c \<Longrightarrow> uses_channel qc c \<Longrightarrow> t = u"
  using assms unfolding push_inv_def by blast+

lemma push_invI:
  assumes "\<And>pid c. pg_signalC s pid = Some c \<Longrightarrow> c < pg_next s"
    and "\<And>c. pg_buffered s c \<Longrightarrow> c < pg_next s"
    and "\<And>h c. pg_handlers s h = Some (HandlerSend c) \<Longrightarrow> c < pg_next s"
    and "\<And>t p pc c. pg_pushers s t = Some (p, pc) \<Longrightarrow> uses_channel pc c \<Longrightarrow> c < pg_next s"
    and "\<And>t u p q pc qc c. pg_pushers s t = Some (p, pc) \<Longrightarrow> pg_pushers s u = Some (q, qc) \<Longrightarrow>
      uses_channel pc c \<Longrightarrow> uses_channel qc c \<Longrightarrow> t = u"
  shows "push_inv s"
  using assms unfolding push_inv_def by blast

lemma push_inv_init: "push_inv push_init"
  by (simp add: push_inv_def push_init_def)

lemma set_pusher_fields [simp]:
  "pg_signalC (set_pusher s t pid pc) = pg_signalC s" "pg_buffered (set_pusher s t pid pc) = pg_buffered s"
  "pg_next (set_pusher s t pid pc) = pg_next s" "pg_handlers (set_pusher s t pid pc) = pg_handlers s"
  "pg_pushers (set_pusher s t pid pc) = (pg_pushers s)(t \<mapsto> (pid, pc))"
  by (simp_all add: set_pusher_def)

lemma push_inv_set:
  assumes "push_inv s"
    and "\<And>c. uses_channel pc c \<Longrightarrow> c < pg_next s \<and>
      (\<forall>u q qc. pg_pushers s u = Some (q, qc) \<longrightarrow> uses_channel qc c \<longrightarrow> u = t)"
  shows "push_inv (set_pusher s t pid pc)"
proof -
  have "u = v" if "((pg_pushers s)(t \<mapsto> (pid, pc))) u = Some (p, pa)" "((pg_pushers s)(t \<mapsto> (pid, pc))) v = Some (q, qa)"
    "uses_channel pa c" "uses_channel qa c" for u v p q pa qa c
  proof (cases "u = t"; cases "v = t")
    assume "u \<noteq> t" "v \<noteq> t"
    with that push_invD(5) [OF assms(1), of u p pa v q qa c] show ?thesis by simp
  next
    assume "u \<noteq> t" "v = t"
    with that assms(2) [of c] show ?thesis by (metis fun_upd_apply option.inject prod.inject)
  next
    assume "u = t" "v \<noteq> t"
    with that assms(2) [of c] show ?thesis by (metis fun_upd_apply option.inject prod.inject)
  qed simp
  moreover have "c < pg_next s" if "((pg_pushers s)(t \<mapsto> (pid, pc))) u = Some (p, pa)" "uses_channel pa c" for u p pa c
    using that assms(2) [of c] push_invD(4) [OF assms(1), of u p pa c] by (cases "u = t") simp_all
  ultimately show ?thesis
    by (intro push_invI) (unfold set_pusher_fields, (blast intro: push_invD(1-3) [OF assms(1)])+)
qed

lemma push_inv_upd:
  assumes "push_inv s"
  shows "push_inv (s\<lparr>pg_signalC := (pg_signalC s)(pid := None)\<rparr>)"
    and "c < pg_next s \<Longrightarrow> push_inv (s\<lparr>pg_buffered := (pg_buffered s)(c := b)\<rparr>)"
    and "(\<And>c. pc = HandlerSend c \<Longrightarrow> c < pg_next s) \<Longrightarrow> push_inv (s\<lparr>pg_handlers := (pg_handlers s)(h \<mapsto> pc)\<rparr>)"
    and "push_inv (s\<lparr>pg_signalC := (pg_signalC s)(pid \<mapsto> pg_next s), pg_next := Suc (pg_next s)\<rparr>)"
proof -
  note D = push_invD [OF assms]
  show "push_inv (s\<lparr>pg_signalC := (pg_signalC s)(pid := None)\<rparr>)"
    by (rule push_invI) (simp_all split: if_splits, (erule D; assumption?)+)
  show "c < pg_next s \<Longrightarrow> push_inv (s\<lparr>pg_buffered := (pg_buffered s)(c := b)\<rparr>)"
    by (rule push_invI) (simp_all split: if_splits, (erule D; assumption?)+)
  show "(\<And>c. pc = HandlerSend c \<Longrightarrow> c < pg_next s) \<Longrightarrow> push_inv (s\<lparr>pg_handlers := (pg_handlers s)(h \<mapsto> pc)\<rparr>)"
    by (rule push_invI) (simp_all split: if_splits, (erule D; assumption?)+)
  show "push_inv (s\<lparr>pg_signalC := (pg_signalC s)(pid \<mapsto> pg_next s), pg_next := Suc (pg_next s)\<rparr>)"
    by (rule push_invI) (simp_all split: if_splits, (rule less_SucI, erule D; assumption?)+, (erule D; assumption?))
qed

lemma step_push_inv:
  assumes inv: "push_inv s" and r: "push_exec (StepPush t) s = Some s'"
  shows "push_inv s'"
proof -
  from r obtain pid pc where p: "pg_pushers s t = Some (pid, pc)" by (auto split: option.splits)
  then show ?thesis
  proof (cases pc)
    case PushCheck
    then show ?thesis using r p inv by (auto intro!: push_inv_set split: if_splits)
  next
    case PushInsert
    have "u = t" if "pg_pushers s u = Some (q, qc)" "uses_channel qc (pg_next s)" for u q qc
      using push_invD(4) [OF inv that] by simp
    then show ?thesis using r p PushInsert push_inv_upd(4) [OF inv, of pid]
      by (auto intro!: push_inv_set)
  next
    case (PushCleanup c err)
    then show ?thesis using r p push_inv_upd(1) [OF inv, of pid] by (auto intro!: push_inv_set)
  qed (use r in auto)
qed

lemma push_exec_inv:
  assumes inv: "push_inv s" and r: "push_exec e s = Some s'"
  shows "push_inv s'"
proof (cases e)
  case (StartPush t pid)
  then show ?thesis using r inv by (auto intro!: push_inv_set split: if_splits)
next
  case (StepPush t)
  then show ?thesis using step_push_inv [OF inv] r by blast
next
  case (SentPush t err)
  with r obtain pid c where p: "pg_pushers s t = Some (pid, PushSend c)"
    and s': "s' = set_pusher s t pid (if err = None then PushWait c else PushCleanup c err)"
    by (auto split: option.splits push_pc.splits)
  show ?thesis unfolding s'
    using push_invD(4) [OF inv p] push_invD(5) [OF inv p] by (intro push_inv_set [OF inv]) (auto split: if_splits)
next
  case (ReceiveSignal t)
  with r obtain pid c where p: "pg_pushers s t = Some (pid, PushWait c)" and
    s': "s' = set_pusher (s\<lparr>pg_buffered := (pg_buffered s)(c := False)\<rparr>) t pid (PushCleanup c None)"
    by (auto split: option.splits push_pc.splits if_splits)
  show ?thesis unfolding s'
    using push_invD(4) [OF inv p] by (intro push_inv_set push_inv_upd(2) [OF inv]) auto
next
  case (PushTimeout t)
  then show ?thesis using r inv by (auto intro!: push_inv_set split: option.splits push_pc.splits)
next
  case (LookupChannel h pid)
  then show ?thesis using r push_invD(1) [OF inv]
    by (auto intro!: push_inv_upd(3) [OF inv] split: if_splits option.splits)
next
  case (SendSignal h)
  with r obtain c where h: "pg_handlers s h = Some (HandlerSend c)" and
    s': "s' = s\<lparr>pg_buffered := (pg_buffered s)(c := True), pg_handlers := (pg_handlers s)(h \<mapsto> HandlerPast)\<rparr>"
    by (auto split: option.splits handler_pc.splits if_splits)
  have "push_inv (s\<lparr>pg_buffered := (pg_buffered s)(c := True)\<rparr>)"
    using push_inv_upd(2) [OF inv] push_invD(3) [OF inv h] by simp
  from push_inv_upd(3) [OF this, of HandlerPast h] show ?thesis by (simp add: s')
qed

interpretation push_runs: safe_runs push_exec push_run push_inv
  by unfold_locales (simp_all add: push_exec_inv)

text \<open>A handler stuck on the full channel of a push that is over.\<close>

definition stuck_handler :: "thread \<Rightarrow> handle \<Rightarrow> push_sys \<Rightarrow> bool" where
  "stuck_handler h c s \<longleftrightarrow> pg_handlers s h = Some (HandlerSend c) \<and> pg_buffered s c \<and>
     (\<forall>t pid pc. pg_pushers s t = Some (pid, pc) \<longrightarrow> \<not> uses_channel pc c)"

lemma stuck_exec:
  assumes inv: "push_inv s" and st: "stuck_handler h c s" and r: "push_exec e s = Some s'"
  shows "stuck_handler h c s'"
proof -
  have c: "pg_handlers s h = Some (HandlerSend c)" "pg_buffered s c" "c < pg_next s"
    and u: "\<And>t pid pc. pg_pushers s t = Some (pid, pc) \<Longrightarrow> \<not> uses_channel pc c"
    using st push_invD(2) [OF inv] by (auto simp: stuck_handler_def)
  show ?thesis
    using r c u unfolding stuck_handler_def
    by (cases e) (auto split: if_splits option.splits push_pc.splits handler_pc.splits, fastforce+)
qed

text \<open>A push whose channel nobody can reach any more.\<close>

definition doomed_push :: "thread \<Rightarrow> peer_id \<Rightarrow> handle \<Rightarrow> push_sys \<Rightarrow> bool" where
  "doomed_push t pid c s \<longleftrightarrow> \<not> pg_buffered s c \<and> c < pg_next s \<and> (\<forall>q. pg_signalC s q \<noteq> Some c) \<and>
     (\<forall>h. pg_handlers s h \<noteq> Some (HandlerSend c)) \<and>
     pg_pushers s t \<in> {Some (pid, PushWait c), Some (pid, PushCleanup c (Some ErrPushProtocolTimeout)),
       Some (pid, PushDone (Some ErrPushProtocolTimeout))}"

lemma doomed_exec:
  assumes "doomed_push t pid c s" and r: "push_exec e s = Some s'"
  shows "doomed_push t pid c s'"
  using assms unfolding doomed_push_def
  by (cases e) (auto split: if_splits option.splits push_pc.splits handler_pc.splits)

lemma stuck_run:
  "push_inv s \<Longrightarrow> stuck_handler h c s \<Longrightarrow> push_run es s = Some s' \<Longrightarrow> stuck_handler h c s'"
  using push_runs.run_safe_with [where J = "stuck_handler h c"] stuck_exec by blast

lemma doomed_run: "doomed_push t pid c s \<Longrightarrow> push_run es s = Some s' \<Longrightarrow> doomed_push t pid c s'"
  by (rule push_runs.run_invariant [where I = "doomed_push t pid c"]) (rule doomed_exec)

section \<open>Properties of the handler and of pushes\<close>

text \<open>
  C34. \<open>Handle\<close> believes a payload only about its sender. A payload that cannot be decoded, that names
  another peer, or whose type is neither \<open>PUSH\<close> nor \<open>PUSH_OK\<close> (the types of the exchange on a
  new connection and numbers that no type has) changes nothing and is not answered. Otherwise the
  sender's protocols become exactly those of the payload, with the notifications of that change, and nothing
  else of the exchanger or its protocol manager changes except that a \<open>PUSH_OK\<close> signals the push in
  progress; a push is answered with one \<open>PUSH_OK\<close> that carries the sorted registered protocols. If
  the push in progress has a signal pending, the handler of a \<open>PUSH_OK\<close> blocks before it records anything.
\<close>

theorem handler_believes_only_the_sender:
  assumes Q: "set_laws Q"
    and r: "exr_Handle (basic_book_ops Q) ex mapKeys C me sender bz p = (p', e, sent, calls)"
  shows "(q \<noteq> sender \<longrightarrow> SupportedByPeer (basic_book_ops Q) (ex_protocolMgr p') q x =
      SupportedByPeer (basic_book_ops Q) (ex_protocolMgr p) q x) \<and>
    (case protoUnmarshal C bz of
       Inl _ \<Rightarrow> p' = p \<and> e = HandleDone \<and> sent = [] \<and> calls = []
     | Inr msg \<Rightarrow>
         if ep_pid msg \<noteq> sender \<or> ep_type msg \<notin> {PUSH, PUSH_OK}
         then p' = p \<and> e = HandleDone \<and> sent = [] \<and> calls = []
         else if ep_type msg = PUSH_OK \<and> (\<exists>c. ex_pushSignalC p sender = Some c \<and> ex_buffered p c)
         then p' = p \<and> e = HandleBlocked (the (ex_pushSignalC p sender)) \<and> sent = [] \<and> calls = []
         else e = HandleDone \<and>
           (SupportedByPeer (basic_book_ops Q) (ex_protocolMgr p') sender x \<longleftrightarrow> x \<in> set (ep_protocols msg)) \<and>
           (\<exists>b. p' = p\<lparr>ex_protocolMgr := (ex_protocolMgr p)\<lparr>pm_protocolBook := b\<rparr>,
                ex_buffered := (\<lambda>c. ex_buffered p c \<or> ep_type msg = PUSH_OK \<and> ex_pushSignalC p sender = Some c)\<rparr> \<and>
              book_protos Q b = (book_protos Q (pm_protocolBook (ex_protocolMgr p)))(sender := set (ep_protocols msg)) \<and>
              pb_localPID b = pb_localPID (pm_protocolBook (ex_protocolMgr p))) \<and>
           calls = notifyIfChanged (basic_book_ops Q) ex (ex_protocolMgr p) sender (ep_protocols msg) \<and>
           sent = (if ep_type msg = PUSH_OK then []
             else case protoMarshal C \<lparr>ep_pid = me,
                 ep_protocols = sort (RegisteredAll mapKeys (ex_protocolMgr p)), ep_type = PUSH_OK\<rparr> of
               Inl _ \<Rightarrow> [] | Inr b \<Rightarrow> [(ProtocolExchangerProtocolID, sender, b)]))"
proof -
  have book: "book_protos Q (fst (SetProtocols Q b pid ids)) = (book_protos Q b)(pid := set ids)" for b ids pid
    using basic_book.set_law [OF Q, of b pid ids] by simp
  have sup: "SupportedByPeer (basic_book_ops Q) pm q x = (x \<in> book_protos Q (pm_protocolBook pm) q)"
    for pm :: "('a basic_protocol_book, 'b, 'c) protocol_manager" and q x
    using basic_book.contains_law [OF Q] by (simp add: SupportedByPeer_def)
  show ?thesis
  proof (cases "protoUnmarshal C bz")
    case (Inl s)
    then show ?thesis using r by (auto simp: exr_Handle_def)
  next
    case (Inr msg)
    let ?b = "fst (SetProtocols Q (pm_protocolBook (ex_protocolMgr p)) sender (ep_protocols msg))"
    have b: "pb_localPID (fst (SetProtocols Q b pid ids)) = pb_localPID b" for b pid ids by (simp add: SetProtocols_def)
    show ?thesis using Inr r
      by (cases p; cases "ep_type msg")
         (auto simp: exr_Handle_def Let_def basic_book.SetSupported_state [OF Q] sup book b fun_eq_iff
            buildProtocolsPayload_def RegisteredAll_def intro!: exI [of _ ?b]
            split: if_splits option.splits sum.splits)
  qed
qed

text \<open>The exchanger of \<open>me\<close>, with a push to \<open>you\<close> in progress on channel 3 when \<open>pending\<close> is some flag.\<close>

definition sample_exchanger :: "bool option \<Rightarrow> (string list basic_protocol_book, nat, bool) exchanger" where
  "sample_exchanger pending =
     \<lparr>ex_protocolMgr = sample_manager [],
      ex_pushSignalC = (if pending = None then Map.empty else [''you'' \<mapsto> 3]),
      ex_buffered = (\<lambda>_. pending = Some True)\<rparr>"

theorem handler_believes_only_the_sender_witness:
  "\<exists>p' b calls. exr_Handle (basic_book_ops list_set) slice_exclude_all (\<lambda>_. [''/x'']) sample_proto ''me'' ''you''
       (CHR ''0'' # ''you'' @ CHR 0x00 # ''/chat'' @ [CHR 0x00]) (sample_exchanger None) =
       (p', HandleDone, [(ProtocolExchangerProtocolID, ''you'', b)], calls) \<and>
     SupportedByPeer (basic_book_ops list_set) (ex_protocolMgr p') ''you'' ''/chat''"
proof -
  let ?bz = "CHR ''0'' # ''you'' @ CHR 0x00 # ''/chat'' @ [CHR 0x00]"
  obtain p' e sent calls where r: "exr_Handle (basic_book_ops list_set) slice_exclude_all (\<lambda>_. [''/x''])
      sample_proto ''me'' ''you'' ?bz (sample_exchanger None) = (p', e, sent, calls)"
    using prod_cases4 by blast
  have u: "protoUnmarshal sample_proto ?bz =
      Inr \<lparr>ep_pid = ''you'', ep_protocols = [''/chat''], ep_type = PUSH\<rparr>"
    by (simp add: sample_proto_def char_type_def)
  have m: "\<exists>b. protoMarshal sample_proto \<lparr>ep_pid = ''me'', ep_protocols = sort (RegisteredAll (\<lambda>_. [''/x''])
      (ex_protocolMgr (sample_exchanger None))), ep_type = PUSH_OK\<rparr> = Inr b"
    by (simp add: sample_proto_def RegisteredAll_def)
  from handler_believes_only_the_sender [OF list_set_laws r, of "''you''" "''/chat''"] u m r
  show ?thesis by auto
qed

text \<open>
  A handler can block for ever. The channel of a push has room for one signal and is read
  once, so when a peer answers a push with three \<open>PUSH_OK\<close>s, one handler is left sending on the
  full channel after the push is over. From then on, whatever goroutine runs, it never gets on: no
  later push ever reads that channel.
\<close>

theorem surplus_push_ok_blocks_its_handler:
  assumes "push_run es push_init = Some s" and "pg_handlers s h = Some (HandlerSend c)"
    and "pg_buffered s c" and "\<forall>t pid pc. pg_pushers s t = Some (pid, pc) \<longrightarrow> \<not> uses_channel pc c"
    and "push_run fs s = Some s'"
  shows "pg_handlers s' h = Some (HandlerSend c) \<and> push_exec (SendSignal h) s' = None"
proof -
  have "stuck_handler h c s'"
    using stuck_run [OF push_runs.run_safe [OF push_inv_init assms(1)] _ assms(5)] assms(2-4)
    by (simp add: stuck_handler_def)
  then show ?thesis by (simp add: stuck_handler_def)
qed

theorem surplus_push_ok_blocks_its_handler_witness:
  "\<exists>s. push_run ([StartPush 0 ''you'', StepPush 0, StepPush 0, SentPush 0 None, LookupChannel 1 ''you'',
       LookupChannel 2 ''you'', LookupChannel 3 ''you'', SendSignal 1, ReceiveSignal 0, SendSignal 2, StepPush 0])
       push_init = Some s \<and> pg_handlers s 3 = Some (HandlerSend 0) \<and> push_exec (SendSignal 3) s = None"
    (is "\<exists>s. push_run ?es _ = _ \<and> _ \<and> _")
proof -
  obtain s where s: "push_run ?es push_init = Some s" "pg_handlers s 3 = Some (HandlerSend 0)" "pg_buffered s 0"
    "pg_pushers s = [0 \<mapsto> (''you'', PushDone None)]"
    by (simp add: push_init_def set_pusher_def)
  have "\<forall>t pid pc. pg_pushers s t = Some (pid, pc) \<longrightarrow> \<not> uses_channel pc 0" by (simp add: s(4))
  from surplus_push_ok_blocks_its_handler [OF s(1-3) this, of "[]" s] s(1) show ?thesis by (metis push_run.simps(1))
qed

text \<open>
  Two pushes to one peer can get in each other's way, because \<open>PushProtocols\<close> looks for a push
  in progress and enters its own channel in two separate regions. A push whose channel another one
  has replaced, before any answer found it, never succeeds: whatever the peer answers, it
  can only end with the timeout.
\<close>

theorem replaced_push_only_times_out:
  assumes "push_run es push_init = Some s" and "pg_pushers s t = Some (pid, PushWait c)"
    and "\<forall>q. pg_signalC s q \<noteq> Some c" and "\<not> pg_buffered s c"
    and "\<forall>h. pg_handlers s h \<noteq> Some (HandlerSend c)" and "push_run fs s = Some s'"
  shows "pg_pushers s' t \<in> {Some (pid, PushWait c),
    Some (pid, PushCleanup c (Some ErrPushProtocolTimeout)), Some (pid, PushDone (Some ErrPushProtocolTimeout))}"
proof -
  have "c < pg_next s"
    using push_invD(4) [OF push_runs.run_safe [OF push_inv_init assms(1)] assms(2)] by simp
  then have "doomed_push t pid c s" using assms(2-5) by (simp add: doomed_push_def)
  from doomed_run [OF this assms(6)] show ?thesis by (simp add: doomed_push_def)
qed

theorem replaced_push_only_times_out_witness:
  "\<exists>s s'. push_run [StartPush 0 ''you'', StartPush 1 ''you'', StepPush 0, StepPush 1, StepPush 0, StepPush 1,
       SentPush 0 None, SentPush 1 None] push_init = Some s \<and>
     push_run [LookupChannel 5 ''you'', SendSignal 5, ReceiveSignal 1, StepPush 1] s = Some s' \<and>
     pg_pushers s' 1 = Some (''you'', PushDone None) \<and>
     pg_pushers s' 0 \<in> {Some (''you'', PushWait 0), Some (''you'', PushCleanup 0 (Some ErrPushProtocolTimeout)),
       Some (''you'', PushDone (Some ErrPushProtocolTimeout))}"
    (is "\<exists>s s'. push_run ?es _ = _ \<and> push_run ?fs _ = _ \<and> _")
proof -
  obtain s where s: "push_run ?es push_init = Some s" "pg_pushers s = [0 \<mapsto> (''you'', PushWait 0), 1 \<mapsto> (''you'', PushWait 1)]"
    "pg_signalC s = [''you'' \<mapsto> 1]" "pg_buffered s = (\<lambda>_. False)" "pg_handlers s = Map.empty"
    by (simp add: push_init_def set_pusher_def)
  have 0: "pg_pushers s 0 = Some (''you'', PushWait 0)" by (simp add: s(2))
  obtain s' where s': "push_run ?fs s = Some s'" "pg_pushers s' 1 = Some (''you'', PushDone None)"
    by (simp add: s(2-5) set_pusher_def)
  have "\<forall>q. pg_signalC s q \<noteq> Some 0" "\<not> pg_buffered s 0" "\<forall>h. pg_handlers s h \<noteq> Some (HandlerSend 0)"
    by (simp_all add: s(3-5))
  from replaced_push_only_times_out [OF s(1) 0 this s'(1)] s(1) s' show ?thesis by blast
qed

end
