(* ===== verification/Service_Discovery.thy ===== *)
theory Service_Discovery
  imports Host_Messages
begin

text \<open>
  \<open>service/discovery/protocol_discovery.go\<close>: announcing services, searching peers that support
  them and answering such searches, on top of the host. The protobuf encoding, the parser of
  multiaddresses, \<open>SliceUnionBy\<close> and \<open>SliceShuffle\<close> are parameters. Messages an operation sends
  are part of its result, in order. Times are in nanoseconds.
\<close>

section \<open>\<open>strings.TrimSpace\<close>\<close>

text \<open>The white space of Unicode in its UTF-8 encoding.\<close>

definition unicode_spaces :: "string list" where
  "unicode_spaces =
     [[CHR 0x09], [CHR 0x0A], [CHR 0x0B], [CHR 0x0C], [CHR 0x0D], [CHR 0x20],
      [CHR 0xC2, CHR 0x85], [CHR 0xC2, CHR 0xA0], [CHR 0xE1, CHR 0x9A, CHR 0x80],
      [CHR 0xE2, CHR 0x80, CHR 0x80], [CHR 0xE2, CHR 0x80, CHR 0x81], [CHR 0xE2, CHR 0x80, CHR 0x82],
      [CHR 0xE2, CHR 0x80, CHR 0x83], [CHR 0xE2, CHR 0x80, CHR 0x84], [CHR 0xE2, CHR 0x80, CHR 0x85],
      [CHR 0xE2, CHR 0x80, CHR 0x86], [CHR 0xE2, CHR 0x80, CHR 0x87], [CHR 0xE2, CHR 0x80, CHR 0x88],
      [CHR 0xE2, CHR 0x80, CHR 0x89], [CHR 0xE2, CHR 0x80, CHR 0x8A], [CHR 0xE2, CHR 0x80, CHR 0xA8],
      [CHR 0xE2, CHR 0x80, CHR 0xA9], [CHR 0xE2, CHR 0x80, CHR 0xAF], [CHR 0xE2, CHR 0x81, CHR 0x9F],
      [CHR 0xE3, CHR 0x80, CHR 0x80]]"

function trim_front :: "string list \<Rightarrow> string \<Rightarrow> string" where
  "trim_front ws s =
     (case find (\<lambda>w. w \<noteq> [] \<and> has_prefix w s) ws of
        None \<Rightarrow> s
      | Some w \<Rightarrow> if s = [] then s else trim_front ws (drop (length w) s))"
  by auto
termination
  by (relation "measure (\<lambda>(ws, s). length s)") (auto simp: find_Some_iff)

declare trim_front.simps [simp del]

definition TrimSpace :: "string \<Rightarrow> string" where
  "TrimSpace s = rev (trim_front (map rev unicode_spaces) (rev (trim_front unicode_spaces s)))"

section \<open>State and messages\<close>

datatype discovery_type = Announce_msg | SearchReq_msg | SearchRes_msg | Other_msg int

record discovery_msg =
  dm_type :: discovery_type
  dm_pInfos :: "(peer_id \<times> string list) list"
  dm_size :: "32 word"

record discovery_codec =
  dmMarshal :: "discovery_msg \<Rightarrow> string + bytes"
  dmUnmarshal :: "bytes \<Rightarrow> string + discovery_msg"

record 'd discovery =
  pd_svcS :: 'd
  pd_searchingM :: "string \<rightharpoonup> handle"
  pd_maxSearchSize :: int
  pd_asksForPeers :: int
  pd_searchTimeout :: int
  pd_searchInterval :: int

datatype discovery_option =
    WithMaxSearchSize int
  | WithSearchAsksForNumberOfPeers int
  | WithSearchTimeout int
  | WithSearchInterval int

fun apply_discovery_option :: "discovery_option \<Rightarrow> 'd discovery \<Rightarrow> 'd discovery" where
  "apply_discovery_option (WithMaxSearchSize m) pd = pd\<lparr>pd_maxSearchSize := m\<rparr>"
| "apply_discovery_option (WithSearchAsksForNumberOfPeers n) pd = pd\<lparr>pd_asksForPeers := n\<rparr>"
| "apply_discovery_option (WithSearchTimeout t) pd = pd\<lparr>pd_searchTimeout := t\<rparr>"
| "apply_discovery_option (WithSearchInterval i) pd = pd\<lparr>pd_searchInterval := i\<rparr>"

definition second :: int where "second = 1000000000"

definition NewProtocolDiscovery :: "(string, 'd) set_ops \<Rightarrow> discovery_option list \<Rightarrow> 'd discovery" where
  "NewProtocolDiscovery D opts =
     foldl (\<lambda>pd opt. apply_discovery_option opt pd)
       \<lparr>pd_svcS = set_new D, pd_searchingM = Map.empty, pd_maxSearchSize = 10, pd_asksForPeers = 3,
        pd_searchTimeout = -1, pd_searchInterval = 60 * second\<rparr> opts"

definition createProtocolIDWithServiceName :: "string \<Rightarrow> protocol_id" where
  "createProtocolIDWithServiceName serviceName = ''/protocol-discovery/v0.0.1/'' @ serviceName"

text \<open>A message handed to \<open>SendMsg\<close>.\<close>

type_synonym sent = "protocol_id \<times> peer_id \<times> bytes"

section \<open>Announcing\<close>

text \<open>
  The handler that is registered for a service is the pair of the service and its protocol
  (\<open>discovery_handle\<close> below says what it does). The messages are sent by goroutines of their own.
\<close>

definition Announce ::
  "('s, 'n, 'm) host_env \<Rightarrow> ('m, 'c) addr_ops \<Rightarrow> (string, 'd) set_ops \<Rightarrow> discovery_codec
   \<Rightarrow> (string \<times> protocol_id \<Rightarrow> 'h) \<Rightarrow> 'm list \<Rightarrow> string
   \<Rightarrow> 'd discovery \<Rightarrow> ('s, 'n, 'm, 'h) host \<times> nat
   \<Rightarrow> 'd discovery \<times> (('s, 'n, 'm, 'h) host \<times> nat) \<times> (pm_error + string) option \<times> sent list" where
  "Announce E A D C handler localAddrs name pd hs =
     (let serviceName = TrimSpace name;
          protocolID = createProtocolIDWithServiceName serviceName;
          (pd1, hs1, err) =
            (if \<not> set_exist D (pd_svcS pd) serviceName
             then (case host_RegisterMsgPayloadHandler E hs protocolID (Some (handler (serviceName, protocolID))) of
                     (hs', Some e) \<Rightarrow> (pd, hs', Some e)
                   | (hs', None) \<Rightarrow> (pd\<lparr>pd_svcS := fst (set_put D (pd_svcS pd) serviceName)\<rparr>, hs', None))
             else (pd, hs, None))
      in case err of
           Some e \<Rightarrow> (pd1, hs1, Some (Inl e), [])
         | None \<Rightarrow>
             (let allPeers = PeerProtocols E (fst hs1) [protocolID];
                  localAddresses = ExcludeUnspecifiedAndLoopBack A localAddrs;
                  me = host_ID (fst hs1)
              in if length allPeers = 0 then (pd1, hs1, None, [])
                 else if length localAddresses = 0 then (pd1, hs1, None, [])
                 else (case dmMarshal C \<lparr>dm_type = Announce_msg,
                              dm_pInfos = [(me, map (\<lambda>a. he_str E (PIDAndNetAddrToMultiAddr A me (Some a))) localAddresses)],
                              dm_size = 0\<rparr> of
                         Inl e \<Rightarrow> (pd1, hs1, Some (Inr e), [])
                       | Inr bz \<Rightarrow> (pd1, hs1, None, map (\<lambda>rp. (protocolID, fst rp, bz)) allPeers))))"

section \<open>Answering a search\<close>

text \<open>The loop over the peers found; \<open>known\<close> is the set of the asker and the peers it named.\<close>

fun search_loop ::
  "('m \<Rightarrow> string) \<Rightarrow> (peer_id \<Rightarrow> 'm list) \<Rightarrow> (peer_id \<Rightarrow> bool) \<Rightarrow> int \<Rightarrow> peer_id list
   \<Rightarrow> (peer_id \<times> string list) list \<Rightarrow> (peer_id \<times> string list) list" where
  "search_loop str addrs known limit [] pInfoList = pInfoList"
| "search_loop str addrs known limit (pid # pids) pInfoList =
     (if known pid then search_loop str addrs known limit pids pInfoList
      else
        (let netAddresses = addrs pid
         in if length netAddresses = 0 then search_loop str addrs known limit pids pInfoList
            else
              (let pInfoList' = pInfoList @ [(pid, map str netAddresses)]
               in if int (length pInfoList') \<ge> limit then pInfoList'
                  else search_loop str addrs known limit pids pInfoList')))"

definition handleSearchReq ::
  "('s, 'n, 'm) host_env \<Rightarrow> (peer_id, 's) set_ops \<Rightarrow> discovery_codec \<Rightarrow> peer_id list \<Rightarrow> 'd discovery
   \<Rightarrow> ('s, 'n, 'm, 'h) host \<Rightarrow> peer_id \<Rightarrow> discovery_msg \<Rightarrow> protocol_id \<Rightarrow> sent list" where
  "handleSearchReq E P C order pd h senderPID msg protocol =
     (let knownPeers = foldl (\<lambda>s info. fst (set_put P s (fst info)))
            (fst (set_put P (set_new P) senderPID)) (dm_pInfos msg);
          asked = uint (dm_size msg);
          searchSize = (if asked > pd_maxSearchSize pd then pd_maxSearchSize pd else asked);
          peersFound = PeersSupportingAllProtocols (he_S E) order (pm_protocolBook (protocolMgr h)) [protocol];
          pInfoList = search_loop (he_str E) (GetAddresses (addresses h)) (set_exist P knownPeers)
            searchSize peersFound []
      in case dmMarshal C \<lparr>dm_type = SearchRes_msg, dm_pInfos = pInfoList, dm_size = 0\<rparr> of
           Inl _ \<Rightarrow> []
         | Inr bz \<Rightarrow> [(protocol, senderPID, bz)])"

section \<open>Receiving an answer\<close>

text \<open>
  \<open>parse\<close> is \<open>ma.NewMultiaddr\<close>. The result are the address lists sent to the channel of the search;
  each of these sends waits for the receiver (see below). An address that does not parse ends the
  handling of the whole message.
\<close>

fun parse_addrs :: "(string \<Rightarrow> string + 'm) \<Rightarrow> string list \<Rightarrow> 'm list option" where
  "parse_addrs parse [] = Some []"
| "parse_addrs parse (s # ss) =
     (case parse s of Inl _ \<Rightarrow> None | Inr a \<Rightarrow> map_option ((#) a) (parse_addrs parse ss))"

fun search_results ::
  "('s, 'n, 'm) host_env \<Rightarrow> ('m, 'c) addr_ops \<Rightarrow> (string \<Rightarrow> string + 'm) \<Rightarrow> (('m \<Rightarrow> string) \<Rightarrow> 'm list \<Rightarrow> 'm list)
   \<Rightarrow> ('s, 'n, 'm, 'h) host \<Rightarrow> handle option \<Rightarrow> (peer_id \<times> string list) list \<Rightarrow> (handle \<times> 'm list) list" where
  "search_results E A parse unionBy h channel [] = []"
| "search_results E A parse unionBy h channel ((pid, ss) # infos) =
     (if Connected (he_N E) (connMgr h) pid \<or> \<not> Allowed (he_S E) (he_N E) (connMgr h) pid \<or> host_ID h = pid
      then search_results E A parse unionBy h channel infos
      else (case parse_addrs parse ss of
              None \<Rightarrow> []
            | Some as \<Rightarrow>
                (let addrs = unionBy (he_str E) (map (\<lambda>a. PIDAndNetAddrToMultiAddr A pid (Some a)) as)
                 in case channel of
                      None \<Rightarrow> []
                    | Some c \<Rightarrow> (c, addrs) # search_results E A parse unionBy h channel infos)))"

definition handleSearchRes ::
  "('s, 'n, 'm) host_env \<Rightarrow> ('m, 'c) addr_ops \<Rightarrow> (string \<Rightarrow> string + 'm) \<Rightarrow> (('m \<Rightarrow> string) \<Rightarrow> 'm list \<Rightarrow> 'm list)
   \<Rightarrow> 'd discovery \<Rightarrow> ('s, 'n, 'm, 'h) host \<Rightarrow> string \<Rightarrow> discovery_msg \<Rightarrow> (handle \<times> 'm list) list" where
  "handleSearchRes E A parse unionBy pd h serviceName msg =
     (if length (dm_pInfos msg) = 0 then []
      else search_results E A parse unionBy h (pd_searchingM pd serviceName) (dm_pInfos msg))"

section \<open>The handler of a service\<close>

text \<open>The host afterwards, the messages sent, the address lists given to the search's channel.\<close>

definition discovery_handle ::
  "('s, 'n, 'm) host_env \<Rightarrow> (peer_id, 's) set_ops \<Rightarrow> ('m, 'c) addr_ops \<Rightarrow> (string \<Rightarrow> string + 'm)
   \<Rightarrow> (('m \<Rightarrow> string) \<Rightarrow> 'm list \<Rightarrow> 'm list) \<Rightarrow> discovery_codec \<Rightarrow> peer_id list \<Rightarrow> 'd discovery
   \<Rightarrow> string \<times> protocol_id \<Rightarrow> peer_id \<Rightarrow> bytes \<Rightarrow> ('s, 'n, 'm, 'h) host
   \<Rightarrow> ('s, 'n, 'm, 'h) host \<times> sent list \<times> (handle \<times> 'm list) list" where
  "discovery_handle E P A parse unionBy C order pd svc senderPID msgPayload h =
     (let (serviceName, protocolID) = svc
      in case dmUnmarshal C msgPayload of
           Inl _ \<Rightarrow> (h, [], [])
         | Inr msg \<Rightarrow>
             (case dm_type msg of
                Announce_msg \<Rightarrow>
                  if length (dm_pInfos msg) = 0 then (h, [], [])
                  else
                    (let pid = fst (dm_pInfos msg ! 0)
                     in if GetFirstAddress (addresses h) pid \<noteq> None
                        then (let (b, _) = AddProtocol (he_S E) (pm_protocolBook (protocolMgr h)) pid [protocolID]
                              in (h\<lparr>protocolMgr := (protocolMgr h)\<lparr>pm_protocolBook := b\<rparr>\<rparr>, [], []))
                        else (h, [], []))
              | SearchReq_msg \<Rightarrow> (h, handleSearchReq E P C order pd h senderPID msg protocolID, [])
              | SearchRes_msg \<Rightarrow> (h, [], handleSearchRes E A parse unionBy pd h serviceName msg)
              | Other_msg _ \<Rightarrow> (h, [], [])))"

section \<open>Searching\<close>

text \<open>
  \<open>sendSearchReqToOthers\<close>: \<open>sendErr\<close> tells for which peers \<open>SendMsg\<close> fails. The result are the
  messages attempted.
\<close>

fun ask_loop :: "(peer_id \<Rightarrow> bool) \<Rightarrow> int \<Rightarrow> protocol_id \<Rightarrow> bytes \<Rightarrow> nat \<Rightarrow> peer_id list \<Rightarrow> sent list" where
  "ask_loop sendErr asksForPeers protocolID bz i [] = []"
| "ask_loop sendErr asksForPeers protocolID bz i (pid # pids) =
     (if 0 < asksForPeers \<and> int i = asksForPeers then []
      else if sendErr pid then [(protocolID, pid, bz)]
      else (protocolID, pid, bz) # ask_loop sendErr asksForPeers protocolID bz (Suc i) pids)"

definition sendSearchReqToOthers ::
  "('s, 'n, 'm) host_env \<Rightarrow> discovery_codec \<Rightarrow> peer_id list \<Rightarrow> (peer_id list \<Rightarrow> peer_id list) \<Rightarrow> (peer_id \<Rightarrow> bool)
   \<Rightarrow> 'd discovery \<Rightarrow> ('s, 'n, 'm, 'h) host \<Rightarrow> protocol_id \<Rightarrow> sent list" where
  "sendSearchReqToOthers E C order shuffle sendErr pd h protocolID =
     (let peersFound = PeersSupportingAllProtocols (he_S E) order (pm_protocolBook (protocolMgr h)) [protocolID]
      in if length peersFound = 0 then []
         else (case dmMarshal C \<lparr>dm_type = SearchReq_msg, dm_pInfos = map (\<lambda>p. (p, [])) peersFound,
                      dm_size = of_int (pd_maxSearchSize pd)\<rparr> of
                 Inl _ \<Rightarrow> []
               | Inr bz \<Rightarrow> ask_loop sendErr (pd_asksForPeers pd) protocolID bz 0 (shuffle peersFound)))"

text \<open>
  The loop of \<open>searchTask\<close> in time. It waits for the ticker (first after a second, then after the
  interval), for a timer that \<open>time.After\<close> starts afresh in every round, and for the end of the
  context, here a point in time. \<open>None\<close>: it has not ended after \<open>fuel\<close> rounds. The result is when it
  ended, and when it sent requests. If two are ready at once Go may choose either: the timer
  and the context win here.
\<close>

fun search_task :: "nat \<Rightarrow> int option \<Rightarrow> int \<Rightarrow> int \<Rightarrow> int \<Rightarrow> int \<Rightarrow> (int \<times> int list) option" where
  "search_task 0 ctxDone timeout interval now tick = None"
| "search_task (Suc fuel) ctxDone timeout interval now tick =
     (let timer = (if 0 < timeout then Some (now + timeout) else None);
          ends = (case (timer, ctxDone) of
                    (None, None) \<Rightarrow> None | (Some t, None) \<Rightarrow> Some t | (None, Some d) \<Rightarrow> Some (max now d)
                  | (Some t, Some d) \<Rightarrow> Some (min t (max now d)))
      in case ends of
           Some e \<Rightarrow>
             if e \<le> tick then Some (e, [])
             else map_option (\<lambda>(at, sent). (at, tick # sent))
                    (search_task fuel ctxDone timeout interval tick (tick + interval))
         | None \<Rightarrow>
             map_option (\<lambda>(at, sent). (at, tick # sent))
               (search_task fuel ctxDone timeout interval tick (tick + interval)))"

definition searchTask :: "nat \<Rightarrow> int option \<Rightarrow> 'd discovery \<Rightarrow> (int \<times> int list) option" where
  "searchTask fuel ctxDone pd =
     search_task fuel ctxDone (pd_searchTimeout pd) (pd_searchInterval pd) 0 second"

section \<open>Lemmas\<close>

lemma search_loop_take:
  "length acc < nat (max 1 limit) \<Longrightarrow>
     search_loop str addrs known limit pids acc =
       acc @ take (nat (max 1 limit) - length acc)
         (map (\<lambda>p. (p, map str (addrs p))) (filter (\<lambda>p. \<not> known p \<and> addrs p \<noteq> []) pids))"
proof (induction pids arbitrary: acc)
  case (Cons p pids)
  let ?n = "nat (max 1 limit)" and ?acc = "acc @ [(p, map str (addrs p))]"
  show ?case
  proof (cases "known p \<or> addrs p = []")
    case True
    then show ?thesis using Cons by auto
  next
    case False
    show ?thesis
    proof (cases "int (length ?acc) \<ge> limit")
      case True
      then have "?n - length acc = 1" using Cons.prems by auto
      then show ?thesis using False True by (simp add: Let_def)
    next
      case 2: False
      then have n: "length ?acc < ?n" "?n - length acc = Suc (?n - length ?acc)" by auto
      show ?thesis using Cons.IH [OF n(1)] False 2 n(2) by (simp add: Let_def)
    qed
  qed
qed simp

lemma put_infos:
  "set_laws P \<Longrightarrow> elems P (foldl (\<lambda>s info. fst (set_put P s (fst info))) s infos) = elems P s \<union> fst ` set infos"
  by (induction infos arbitrary: s) (auto simp: set_simps)

lemma search_task_runs_on:
  assumes "0 < interval" and "interval < timeout"
  shows "tick - now < timeout \<Longrightarrow> search_task fuel None timeout interval now tick = None"
  using assms by (induction fuel arbitrary: now tick) auto

section \<open>Properties\<close>

text \<open>
  The answer to a search. \<open>handleSearchReq\<close> answers the asker only, with peers that support the
  service, none of them the local peer, the asker or a peer the asker named, each once and with all
  its stored addresses; there are at most as many as asked for and allowed, but at least one is
  offered even to a request for none, and below the limit no such peer is left out.
\<close>

theorem search_answer_exact:
  assumes Q: "set_laws (he_S E)" and P: "set_laws P"
    and order: "distinct order" "set order = dom (pb_book (pm_protocolBook (protocolMgr h)))"
    and limit: "limit = max 1 (min (uint (dm_size msg)) (pd_maxSearchSize pd))"
    and candidates: "candidates = {p. p \<noteq> pb_localPID (pm_protocolBook (protocolMgr h)) \<and> x \<in> host_protos E h p \<and>
      GetAddresses (addresses h) p \<noteq> [] \<and> p \<noteq> asker \<and> p \<notin> fst ` set (dm_pInfos msg)}"
  shows "\<exists>infos. handleSearchReq E P C order pd h asker msg x =
      (case dmMarshal C \<lparr>dm_type = SearchRes_msg, dm_pInfos = infos, dm_size = 0\<rparr> of
         Inl _ \<Rightarrow> [] | Inr bz \<Rightarrow> [(x, asker, bz)]) \<and>
    distinct (map fst infos) \<and> int (length infos) \<le> limit \<and> fst ` set infos \<subseteq> candidates \<and>
    (\<forall>(p, as)\<in>set infos. as = map (he_str E) (GetAddresses (addresses h) p)) \<and>
    (int (length infos) < limit \<longrightarrow> fst ` set infos = candidates)"
proof -
  let ?b = "pm_protocolBook (protocolMgr h)" and ?addrs = "GetAddresses (addresses h)"
  define known where "known = set_exist P (foldl (\<lambda>s info. fst (set_put P s (fst info)))
    (fst (set_put P (set_new P) asker)) (dm_pInfos msg))"
  define found where "found = PeersSupportingAllProtocols (he_S E) order ?b [x]"
  define cs where "cs = filter (\<lambda>p. \<not> known p \<and> ?addrs p \<noteq> []) found"
  define infos where "infos = take (nat limit) (map (\<lambda>p. (p, map (he_str E) (?addrs p))) cs)"
  have k: "known p \<longleftrightarrow> p = asker \<or> p \<in> fst ` set (dm_pInfos msg)" for p
    by (auto simp: known_def set_exist_iff [OF P] put_infos [OF P] elems_put [OF P] set_range_new [OF P])
  have f: "distinct found" "set found = {p. p \<noteq> pb_localPID ?b \<and> x \<in> host_protos E h p}"
    using order
    by (auto simp: found_def set_exist_iff [OF Q] PeersSupportingAllProtocols_eq book_protos_def split: option.splits)
  have cs: "distinct cs" "set cs = candidates" using f k by (auto simp: cs_def candidates)
  have fst_infos: "map fst infos = take (nat limit) cs" by (simp add: infos_def take_map o_def)
  have "nat (max 1 (if uint (dm_size msg) > pd_maxSearchSize pd then pd_maxSearchSize pd else uint (dm_size msg)))
      = nat limit" by (simp add: limit min_def)
  then have req: "handleSearchReq E P C order pd h asker msg x =
      (case dmMarshal C \<lparr>dm_type = SearchRes_msg, dm_pInfos = infos, dm_size = 0\<rparr> of
         Inl _ \<Rightarrow> [] | Inr bz \<Rightarrow> [(x, asker, bz)])"
    by (simp add: handleSearchReq_def search_loop_take Let_def infos_def cs_def known_def found_def
        del: fst_conv split: sum.split)
  have d: "distinct (map fst infos)" using cs(1) by (simp add: fst_infos)
  have "1 \<le> limit" "length infos \<le> nat limit" by (simp_all add: infos_def limit)
  then have n: "int (length infos) \<le> limit" by linarith
  have sub: "fst ` set infos \<subseteq> candidates"
    using cs(2) set_take_subset [of "nat limit" cs] arg_cong [OF fst_infos, of set] by simp
  have all: "\<forall>(p, as)\<in>set infos. as = map (he_str E) (?addrs p)"
    by (auto simp: infos_def dest: in_set_takeD)
  have "fst ` set infos = candidates" if "int (length infos) < limit"
  proof -
    have "length cs \<le> nat limit" using that by (simp add: infos_def min_def split: if_splits)
    then show ?thesis using cs(2) arg_cong [OF fst_infos, of set] by simp
  qed
  then show ?thesis using req d n sub all by blast
qed

text \<open>A host that knows the addresses and the service of \<open>you\<close>, and a codec that encodes one message.\<close>

definition searched_host :: "(string list, handle list, string, nat) host" where
  "searched_host =
     (let h = sample_host []
      in h\<lparr>protocolMgr := (protocolMgr h)\<lparr>pm_protocolBook := \<lparr>pb_book = [''you'' \<mapsto> [''/s'']], pb_localPID = ''me''\<rparr>\<rparr>,
           addresses := [''you'' \<mapsto> [''/ip4/2'']]\<rparr>)"

definition one_message :: "discovery_msg \<Rightarrow> discovery_codec" where
  "one_message m =
     \<lparr>dmMarshal = (\<lambda>n. if n = m then Inr ''m'' else Inl ''error''),
      dmUnmarshal = (\<lambda>bz. if bz = ''m'' then Inr m else Inl ''error'')\<rparr>"

theorem search_answer_exact_witness:
  "\<exists>infos. handleSearchReq sample_env list_set
       (one_message \<lparr>dm_type = SearchRes_msg, dm_pInfos = [(''you'', [''/ip4/2''])], dm_size = 0\<rparr>) [''you'']
       (NewProtocolDiscovery list_set []) searched_host ''asker''
       \<lparr>dm_type = SearchReq_msg, dm_pInfos = [], dm_size = 0\<rparr> ''/s'' =
     (case dmMarshal (one_message \<lparr>dm_type = SearchRes_msg, dm_pInfos = [(''you'', [''/ip4/2''])], dm_size = 0\<rparr>)
        \<lparr>dm_type = SearchRes_msg, dm_pInfos = infos, dm_size = 0\<rparr> of
        Inl _ \<Rightarrow> [] | Inr bz \<Rightarrow> [(''/s'', ''asker'', bz)]) \<and> int (length infos) \<le> 1"
proof -
  have "set [''you''] = dom (pb_book (pm_protocolBook (protocolMgr searched_host)))"
    by (simp add: searched_host_def sample_host_def)
  from search_answer_exact [OF _ list_set_laws _ this refl refl, where E = sample_env and
      msg = "\<lparr>dm_type = SearchReq_msg, dm_pInfos = [], dm_size = 0\<rparr>" and pd = "NewProtocolDiscovery list_set []"
      and C = "one_message \<lparr>dm_type = SearchRes_msg, dm_pInfos = [(''you'', [''/ip4/2''])], dm_size = 0\<rparr>"
      and asker = "''asker''" and x = "''/s''"]
  show ?thesis by (auto simp: sample_env_def list_set_laws NewProtocolDiscovery_def)
qed

text \<open>
  An announcement is believed whoever sends it: the handler looks only at the peer the message
  names. For a peer with a stored address the service's protocol is added to what that peer is
  recorded to support, on the word of any sender; for other peers nothing changes, nothing
  is sent, and a peer without an address is ignored.
\<close>

theorem announcement_believed_from_anyone:
  assumes Q: "set_laws (he_S E)"
    and m: "dmUnmarshal C bz = Inr \<lparr>dm_type = Announce_msg, dm_pInfos = (p, as) # infos, dm_size = n\<rparr>"
    and r: "discovery_handle E P A parse unionBy C order pd (svc, x) sender bz h = (h', sent, found)"
  shows "discovery_handle E P A parse unionBy C order pd (svc, x) anyone bz h = (h', sent, found) \<and>
    sent = [] \<and> found = [] \<and>
    host_protos E h' q = (if q = p \<and> GetAddresses (addresses h) p \<noteq> [] then insert x (host_protos E h p)
      else host_protos E h q)"
proof -
  have a: "GetFirstAddress (addresses h) p = None \<longleftrightarrow> GetAddresses (addresses h) p = []"
    by (auto simp: GetFirstAddress_def GetAddresses_def addr_Size_def addr_List_def split: option.splits list.splits)
  have b: "book_protos (he_S E) (fst (AddProtocol (he_S E) (pm_protocolBook (protocolMgr h)) p [x])) =
      (host_protos E h)(p := host_protos E h p \<union> {x})"
    using basic_book.add_law [OF Q, of "pm_protocolBook (protocolMgr h)" p "[x]"] by simp
  show ?thesis
  proof (cases "GetAddresses (addresses h) p = []")
    case True
    then show ?thesis using r a by (auto simp: discovery_handle_def m)
  next
    case False
    then obtain y where "GetFirstAddress (addresses h) p = Some y" using a by auto
    then show ?thesis using r b False by (auto simp: discovery_handle_def m Let_def case_prod_unfold)
  qed
qed

theorem announcement_believed_from_anyone_witness:
  "\<forall>A parse unionBy. \<exists>h'. discovery_handle sample_env list_set A parse unionBy
       (one_message \<lparr>dm_type = Announce_msg, dm_pInfos = [(''you'', [])], dm_size = 0\<rparr>) []
       (NewProtocolDiscovery list_set []) (''t'', ''/t'') ''liar'' ''m'' searched_host = (h', [], []) \<and>
     host_protos sample_env h' ''you'' = {''/s'', ''/t''}"
proof (intro allI)
  fix A parse unionBy
  let ?pd = "NewProtocolDiscovery list_set [] :: string list discovery"
  let ?C = "one_message \<lparr>dm_type = Announce_msg, dm_pInfos = [(''you'', [])], dm_size = 0\<rparr>"
  obtain h' sent found where r: "discovery_handle sample_env list_set A parse unionBy ?C [] ?pd
      (''t'', ''/t'') ''liar'' ''m'' searched_host = (h', sent, found)" using prod_cases3 by blast
  have "set_laws (he_S sample_env)" by (simp add: sample_env_def list_set_laws)
  moreover have "dmUnmarshal ?C ''m'' = Inr \<lparr>dm_type = Announce_msg, dm_pInfos = (''you'', []) # [], dm_size = 0\<rparr>"
    by (simp add: one_message_def)
  ultimately have "sent = [] \<and> found = [] \<and> host_protos sample_env h' ''you'' = {''/s'', ''/t''}"
    using announcement_believed_from_anyone [OF _ _ r, of "''you''" "[]" "[]" 0 "''x''" "''you''"]
    by (auto simp: searched_host_def sample_host_def sample_env_def book_protos_def GetAddresses_def addr_List_def)
  with r show "\<exists>h'. discovery_handle sample_env list_set A parse unionBy ?C [] ?pd
      (''t'', ''/t'') ''liar'' ''m'' searched_host = (h', [], []) \<and>
      host_protos sample_env h' ''you'' = {''/s'', ''/t''}" by blast
qed

text \<open>
  The search timeout is a timeout between two requests, not of the search. As the timer is started
  again with every tick, a timeout longer than the interval (and than the first second) never
  strikes: the search goes on for ever unless its context ends. A shorter one ends the search after
  no request or after the first.
\<close>

theorem search_timeout_restarts_with_every_request:
  assumes "0 < pd_searchInterval pd" and "0 < pd_searchTimeout pd"
  shows "if pd_searchTimeout pd \<le> second
    then searchTask (Suc fuel) None pd = Some (pd_searchTimeout pd, [])
    else if pd_searchTimeout pd \<le> pd_searchInterval pd
    then searchTask (Suc (Suc fuel)) None pd = Some (second + pd_searchTimeout pd, [second])
    else searchTask fuel None pd = None"
  using assms search_task_runs_on [of "pd_searchInterval pd" "pd_searchTimeout pd" second 0 fuel]
  by (auto simp: searchTask_def)

theorem search_timeout_restarts_with_every_request_witness:
  "searchTask 1000 None (NewProtocolDiscovery list_set
     [WithSearchTimeout (300 * second), WithSearchInterval (60 * second)]) = None"
    (is "searchTask 1000 None ?pd = None")
proof -
  have t: "pd_searchTimeout ?pd = 300000000000" "pd_searchInterval ?pd = 60000000000"
    by (simp_all add: NewProtocolDiscovery_def second_def)
  have "0 < pd_searchInterval ?pd" "0 < pd_searchTimeout ?pd" unfolding t by simp_all
  note r = search_timeout_restarts_with_every_request [OF this, of 1000]
  have "\<not> pd_searchTimeout ?pd \<le> second" "\<not> pd_searchTimeout ?pd \<le> pd_searchInterval ?pd"
    unfolding t by (simp_all add: second_def)
  with r show ?thesis by (simp only: if_False)
qed

end
