(* ===== verification/Discovery_Search.thy ===== *)
theory Discovery_Search
  imports RB_Prelude
begin

text \<open>
  \<open>service/discovery/protocol_discovery.go\<close>, continued: the goroutines that share the map of running
  searches under one read-write lock. Callers of \<open>SearchPeers\<close> look the service up in one critical
  region and enter their channel in another; the task of a search removes it at its end; the
  handler of an answer keeps the read lock while it sends the addresses to the channel, which has
  no buffer. The receiver of a channel may stop receiving at any time. What a goroutine does
  between two regions is no step. Pending writers, which in Go hold back new readers, are not
  modelled, so the model has every behaviour of the code and more.
\<close>

section \<open>Goroutines and steps\<close>

datatype caller_pc = CallCheck | CallInsert | CallRefused | CallReturned handle

datatype task_pc = TaskRunning | TaskCleanup | TaskOver | TaskPanicked

record search_sys =
  ss_searchingM :: "string \<rightharpoonup> handle"
  ss_next :: handle
  ss_closed :: "handle \<Rightarrow> bool"
  ss_abandoned :: "handle \<Rightarrow> bool"
  ss_callers :: "nat \<rightharpoonup> string \<times> caller_pc"
  ss_tasks :: "nat \<rightharpoonup> string \<times> task_pc"
  ss_sending :: "nat \<rightharpoonup> handle"

definition search_init :: search_sys where
  "search_init = \<lparr>ss_searchingM = Map.empty, ss_next = 0, ss_closed = (\<lambda>_. False),
     ss_abandoned = (\<lambda>_. False), ss_callers = Map.empty, ss_tasks = Map.empty, ss_sending = Map.empty\<rparr>"

text \<open>
  \<open>InsertSearch\<close> and \<open>CleanTask\<close> need the write lock: no handler may hold the read lock. The task of
  a search has the number of its caller. Closing the channel of a search that is no longer in
  the map closes a nil channel, which panics; the deferred unlock runs all the same.
\<close>

datatype search_event =
    StartSearch nat string
  | CheckSearch nat
  | InsertSearch nat
  | EndTask nat
  | CleanTask nat
  | ReceiveAnswer nat string
  | DeliverAnswer nat
  | AbandonChannel handle

fun search_exec :: "search_event \<Rightarrow> search_sys \<Rightarrow> search_sys option" where
  "search_exec (StartSearch t svc) s =
     (if ss_callers s t = None then Some (s\<lparr>ss_callers := (ss_callers s)(t \<mapsto> (svc, CallCheck))\<rparr>) else None)"
| "search_exec (CheckSearch t) s =
     (case ss_callers s t of
        Some (svc, CallCheck) \<Rightarrow>
          Some (s\<lparr>ss_callers := (ss_callers s)(t \<mapsto>
             (svc, if ss_searchingM s svc = None then CallInsert else CallRefused))\<rparr>)
      | _ \<Rightarrow> None)"
| "search_exec (InsertSearch t) s =
     (case ss_callers s t of
        Some (svc, CallInsert) \<Rightarrow>
          if ss_sending s \<noteq> Map.empty then None
          else Some (s\<lparr>ss_searchingM := (ss_searchingM s)(svc \<mapsto> ss_next s), ss_next := Suc (ss_next s),
                 ss_callers := (ss_callers s)(t \<mapsto> (svc, CallReturned (ss_next s))),
                 ss_tasks := (ss_tasks s)(t \<mapsto> (svc, TaskRunning))\<rparr>)
      | _ \<Rightarrow> None)"
| "search_exec (EndTask t) s =
     (case ss_tasks s t of
        Some (svc, TaskRunning) \<Rightarrow> Some (s\<lparr>ss_tasks := (ss_tasks s)(t \<mapsto> (svc, TaskCleanup))\<rparr>)
      | _ \<Rightarrow> None)"
| "search_exec (CleanTask t) s =
     (case ss_tasks s t of
        Some (svc, TaskCleanup) \<Rightarrow>
          if ss_sending s \<noteq> Map.empty then None
          else (case ss_searchingM s svc of
                  None \<Rightarrow> Some (s\<lparr>ss_tasks := (ss_tasks s)(t \<mapsto> (svc, TaskPanicked))\<rparr>)
                | Some c \<Rightarrow>
                    Some (s\<lparr>ss_closed := (ss_closed s)(c := True),
                       ss_searchingM := (ss_searchingM s)(svc := None),
                       ss_tasks := (ss_tasks s)(t \<mapsto> (svc, TaskOver))\<rparr>))
      | _ \<Rightarrow> None)"
| "search_exec (ReceiveAnswer h svc) s =
     (if ss_sending s h \<noteq> None then None
      else (case ss_searchingM s svc of
              None \<Rightarrow> Some s
            | Some c \<Rightarrow> Some (s\<lparr>ss_sending := (ss_sending s)(h \<mapsto> c)\<rparr>)))"
| "search_exec (DeliverAnswer h) s =
     (case ss_sending s h of
        None \<Rightarrow> None
      | Some c \<Rightarrow> if ss_abandoned s c then None else Some (s\<lparr>ss_sending := (ss_sending s)(h := None)\<rparr>))"
| "search_exec (AbandonChannel c) s = Some (s\<lparr>ss_abandoned := (ss_abandoned s)(c := True)\<rparr>)"

fun search_run :: "search_event list \<Rightarrow> search_sys \<Rightarrow> search_sys option" where
  "search_run [] s = Some s"
| "search_run (e # es) s = (case search_exec e s of None \<Rightarrow> None | Some s' \<Rightarrow> search_run es s')"

section \<open>Invariants\<close>

text \<open>Only channels that were made are in the map, and no two services share one.\<close>

definition search_inv :: "search_sys \<Rightarrow> bool" where
  "search_inv s \<longleftrightarrow>
     (\<forall>svc c. ss_searchingM s svc = Some c \<longrightarrow> c < ss_next s \<and> \<not> ss_closed s c) \<and>
     (\<forall>svc svc' c. ss_searchingM s svc = Some c \<longrightarrow> ss_searchingM s svc' = Some c \<longrightarrow> svc = svc') \<and>
     (\<forall>c. ss_closed s c \<longrightarrow> c < ss_next s)"

lemma search_invD:
  assumes "search_inv s"
  shows "ss_searchingM s svc = Some c \<Longrightarrow> c < ss_next s"
    and "ss_searchingM s svc = Some c \<Longrightarrow> \<not> ss_closed s c"
    and "ss_searchingM s svc = Some c \<Longrightarrow> ss_searchingM s svc' = Some c \<Longrightarrow> svc = svc'"
    and "ss_closed s c \<Longrightarrow> c < ss_next s"
  using assms unfolding search_inv_def by blast+

lemma search_inv_cong:
  "search_inv s \<Longrightarrow> ss_searchingM s' = ss_searchingM s \<Longrightarrow> ss_next s' = ss_next s \<Longrightarrow>
     ss_closed s' = ss_closed s \<Longrightarrow> search_inv s'"
  by (simp only: search_inv_def)

lemma search_exec_inv:
  assumes inv: "search_inv s" and r: "search_exec e s = Some s'"
  shows "search_inv s'"
proof (cases "(\<exists>t. e = InsertSearch t) \<or> (\<exists>t. e = CleanTask t)")
  case False
  then have "ss_searchingM s' = ss_searchingM s \<and> ss_next s' = ss_next s \<and> ss_closed s' = ss_closed s"
    using r by (cases e) (auto split: option.splits caller_pc.splits task_pc.splits if_splits)
  then show ?thesis using search_inv_cong [OF inv] by blast
next
  case True
  then show ?thesis
  proof
    assume "\<exists>t. e = InsertSearch t"
    then obtain t svc where s': "ss_searchingM s' = (ss_searchingM s)(svc \<mapsto> ss_next s)"
        "ss_next s' = Suc (ss_next s)" "ss_closed s' = ss_closed s"
      using r by (auto split: option.splits caller_pc.splits if_splits)
    have "\<not> ss_closed s (ss_next s)" "\<And>svc. ss_searchingM s svc \<noteq> Some (ss_next s)"
      using search_invD(1,4) [OF inv] less_irrefl by blast+
    then show ?thesis unfolding search_inv_def s'
      using search_invD [OF inv] by (auto split: if_splits intro: less_SucI)
  next
    assume "\<exists>t. e = CleanTask t"
    then obtain t where e: "e = CleanTask t" by blast
    show ?thesis
    proof (cases "ss_searchingM s' = ss_searchingM s \<and> ss_next s' = ss_next s \<and> ss_closed s' = ss_closed s")
      case True
      then show ?thesis using search_inv_cong [OF inv] by blast
    next
      case False
      then obtain svc c where c: "ss_searchingM s svc = Some c"
        and s': "ss_searchingM s' = (ss_searchingM s)(svc := None)"
          "ss_next s' = ss_next s" "ss_closed s' = (ss_closed s)(c := True)"
        using r by (auto simp: e split: option.splits task_pc.splits if_splits)
      show ?thesis unfolding search_inv_def s'
        using search_invD [OF inv] c by (auto split: if_splits)
    qed
  qed
qed

text \<open>A handler that sends holds the read lock, so its channel stays in the map.\<close>

definition sending_inv :: "search_sys \<Rightarrow> bool" where
  "sending_inv s \<longleftrightarrow> (\<forall>h c. ss_sending s h = Some c \<longrightarrow> (\<exists>svc. ss_searchingM s svc = Some c))"

lemma search_exec_sending:
  "sending_inv s \<Longrightarrow> search_exec e s = Some s' \<Longrightarrow> sending_inv s'"
  by (cases e) (auto simp: sending_inv_def split: option.splits caller_pc.splits task_pc.splits if_splits)

interpretation search_runs: safe_runs search_exec search_run "\<lambda>s. search_inv s \<and> sending_inv s"
  by unfold_locales (auto dest: search_exec_inv search_exec_sending simp del: search_exec.simps)

lemma search_init_inv: "search_inv search_init \<and> sending_inv search_init"
  by (simp add: search_inv_def sending_inv_def search_init_def)

text \<open>A handler that sends to a channel nobody receives from.\<close>

definition stuck_sender :: "nat \<Rightarrow> handle \<Rightarrow> search_sys \<Rightarrow> bool" where
  "stuck_sender h c s \<longleftrightarrow> ss_sending s h = Some c \<and> ss_abandoned s c"

lemma stuck_sender_exec:
  assumes "stuck_sender h c s" and "search_exec e s = Some s'"
  shows "stuck_sender h c s' \<and> ss_searchingM s' = ss_searchingM s \<and> ss_closed s' = ss_closed s"
proof -
  have "ss_sending s \<noteq> Map.empty" using assms(1) by (auto simp: stuck_sender_def)
  then show ?thesis using assms
    by (cases e) (auto simp: stuck_sender_def split: option.splits caller_pc.splits task_pc.splits if_splits)
qed

lemma stuck_sender_run:
  assumes "stuck_sender h c s" and "search_run es s = Some s'"
  shows "stuck_sender h c s' \<and> ss_searchingM s' = ss_searchingM s \<and> ss_closed s' = ss_closed s"
  by (rule search_runs.run_invariant [where I = "\<lambda>t. stuck_sender h c t \<and> ss_searchingM t = ss_searchingM s \<and>
        ss_closed t = ss_closed s", OF _ _ assms(2)])
    (use stuck_sender_exec assms(1) in fastforce)+

lemma replaced_channel_run:
  assumes "c < ss_next s" and "\<forall>svc. ss_searchingM s svc \<noteq> Some c" and "\<not> ss_closed s c" and "search_run es s = Some s'"
  shows "\<not> ss_closed s' c"
proof -
  let ?I = "\<lambda>s. c < ss_next s \<and> (\<forall>svc. ss_searchingM s svc \<noteq> Some c) \<and> \<not> ss_closed s c"
  have step: "?I t'" if "?I t" "search_exec e t = Some t'" for e t t'
    using that by (cases e) (auto split: option.splits caller_pc.splits task_pc.splits if_splits)
  have "?I s'"
    by (rule search_runs.run_invariant [where I = ?I, OF _ _ assms(4)]) (rule step, assumption, assumption, simp add: assms(1-3))
  then show ?thesis by simp
qed

section \<open>Properties\<close>

text \<open>
  Whatever searches, answers and ends of searches are interleaved, no handler ever sends on a closed
  channel, every channel in the map is open, so that closing it cannot panic, and no two services
  share a channel.
\<close>

theorem search_channels_are_open:
  assumes "search_run es search_init = Some s"
  shows "\<not> (\<exists>h c. ss_sending s h = Some c \<and> ss_closed s c) \<and>
    \<not> (\<exists>svc c. ss_searchingM s svc = Some c \<and> ss_closed s c) \<and> inj_on (ss_searchingM s) (dom (ss_searchingM s))"
proof -
  have i: "search_inv s" "sending_inv s" using search_runs.run_safe [OF search_init_inv assms] by simp_all
  have "inj_on (ss_searchingM s) (dom (ss_searchingM s))"
    by (rule inj_onI) (use search_invD(3) [OF i(1)] in auto)
  then show ?thesis using search_invD(2) [OF i(1)] i(2) unfolding sending_inv_def by blast
qed

theorem search_channels_are_open_witness:
  "\<exists>s. search_run [StartSearch 0 ''s'', CheckSearch 0, InsertSearch 0, ReceiveAnswer 1 ''s'', DeliverAnswer 1,
       EndTask 0, CleanTask 0] search_init = Some s \<and> ss_closed s 0 \<and>
     \<not> (\<exists>svc c. ss_searchingM s svc = Some c \<and> ss_closed s c)"
proof -
  obtain s where s: "search_run [StartSearch 0 ''s'', CheckSearch 0, InsertSearch 0, ReceiveAnswer 1 ''s'',
      DeliverAnswer 1, EndTask 0, CleanTask 0] search_init = Some s" "ss_closed s 0"
    by (simp add: search_init_def)
  with search_channels_are_open [OF s(1)] show ?thesis by blast
qed

text \<open>
  An abandoned search locks discovery. If the receiver of a search stops receiving while a handler is
  sending it an answer, the handler keeps the read lock for ever: from then on, whatever runs, no
  search of any service can be entered or removed, no channel is closed, and the cancelled search's
  own task never ends.
\<close>

theorem abandoned_search_locks_discovery:
  assumes "ss_sending s h = Some c" and "ss_abandoned s c" and "search_run es s = Some s'"
  shows "ss_searchingM s' = ss_searchingM s \<and> ss_closed s' = ss_closed s \<and> ss_sending s' h = Some c \<and>
    search_exec (InsertSearch t) s' = None \<and> search_exec (CleanTask t) s' = None"
proof -
  have s': "stuck_sender h c s'" "ss_searchingM s' = ss_searchingM s" "ss_closed s' = ss_closed s"
    using stuck_sender_run [of h c s, OF _ assms(3)] assms(1,2) by (simp_all add: stuck_sender_def)
  then have "ss_sending s' \<noteq> Map.empty" by (auto simp: stuck_sender_def)
  then show ?thesis using s' by (auto simp: stuck_sender_def split: option.splits caller_pc.splits task_pc.splits)
qed

theorem abandoned_search_locks_discovery_witness:
  "\<exists>s s'. search_run [StartSearch 0 ''s'', CheckSearch 0, InsertSearch 0, ReceiveAnswer 1 ''s'',
       AbandonChannel 0] search_init = Some s \<and>
     search_run [EndTask 0] s = Some s' \<and> search_exec (CleanTask 0) s' = None"
proof -
  obtain s where s: "search_run [StartSearch 0 ''s'', CheckSearch 0, InsertSearch 0, ReceiveAnswer 1 ''s'',
       AbandonChannel 0] search_init = Some s" "ss_sending s 1 = Some 0" "ss_abandoned s 0"
    "ss_tasks s = [0 \<mapsto> (''s'', TaskRunning)]"
    by (simp add: search_init_def)
  obtain s' where s': "search_run [EndTask 0] s = Some s'" using s(4) by simp
  from abandoned_search_locks_discovery [OF s(2,3) s', of 0] s(1) s' show ?thesis by blast
qed

text \<open>
  Two simultaneous searches for one service both get a channel, because \<open>SearchPeers\<close> checks
  and enters in two separate regions. The channel that was replaced in the map is never closed: its
  receiver waits for ever, also after both searches have been cancelled.
\<close>

theorem replaced_search_channel_is_never_closed:
  assumes "search_run es search_init = Some s" and "c < ss_next s"
    and "\<forall>svc. ss_searchingM s svc \<noteq> Some c" and "\<not> ss_closed s c" and "search_run fs s = Some s'"
  shows "\<not> ss_closed s' c \<and> \<not> (\<exists>svc d. ss_searchingM s' svc = Some d \<and> ss_closed s' d)"
proof -
  have "search_inv s'"
    using search_runs.run_safe [OF search_runs.run_safe [OF search_init_inv assms(1)] assms(5)] by simp
  then show ?thesis using replaced_channel_run [OF assms(2-5)] search_invD(2) by blast
qed

theorem replaced_search_channel_is_never_closed_witness:
  "\<exists>s s'. search_run [StartSearch 0 ''s'', StartSearch 1 ''s'', CheckSearch 0, CheckSearch 1, InsertSearch 0,
       InsertSearch 1] search_init = Some s \<and> ss_callers s 0 = Some (''s'', CallReturned 0) \<and>
     search_run [EndTask 0, CleanTask 0, EndTask 1, CleanTask 1] s = Some s' \<and>
     ss_tasks s' 1 = Some (''s'', TaskPanicked) \<and> \<not> ss_closed s' 0"
proof -
  obtain s where s: "search_run [StartSearch 0 ''s'', StartSearch 1 ''s'', CheckSearch 0, CheckSearch 1,
      InsertSearch 0, InsertSearch 1] search_init = Some s" "ss_callers s 0 = Some (''s'', CallReturned 0)"
    "ss_next s = 2" "ss_searchingM s = [''s'' \<mapsto> 1]" "ss_closed s = (\<lambda>_. False)" "ss_sending s = Map.empty"
    "ss_tasks s = [0 \<mapsto> (''s'', TaskRunning), 1 \<mapsto> (''s'', TaskRunning)]"
    by (simp add: search_init_def)
  obtain s' where s': "search_run [EndTask 0, CleanTask 0, EndTask 1, CleanTask 1] s = Some s'"
    "ss_tasks s' 1 = Some (''s'', TaskPanicked)"
    by (simp add: s(3-7))
  have "0 < ss_next s" "\<forall>svc. ss_searchingM s svc \<noteq> Some 0" "\<not> ss_closed s 0" by (simp_all add: s(3-5))
  from replaced_search_channel_is_never_closed [OF s(1) this s'(1)] s(1,2) s' show ?thesis by blast
qed

end
