(* ===== verification/Discovery_Exchange.thy ===== *)
theory Discovery_Exchange
  imports Service_Discovery
begin

text \<open>
  \<open>service/discovery/protocol_discovery.go\<close>, two hosts together: the asker's \<open>sendSearchReqToOthers\<close>, the answer of
  the host that is asked, and what the asker's handler gives to the channel of the search.
\<close>

section \<open>Messages of a search\<close>

lemma ask_loop_messages: "m \<in> set (ask_loop sendErr n x bz i pids) \<Longrightarrow> \<exists>pid\<in>set pids. m = (x, pid, bz)"
  by (induction sendErr n x bz i pids rule: ask_loop.induct) (auto split: if_splits)

lemma request_names_known_peers:
  assumes Q: "set_laws (he_S E)" and order: "distinct order" "set order = dom (pb_book (pm_protocolBook (protocolMgr h)))"
    and m: "(y, pid, bz) \<in> set (sendSearchReqToOthers E C order shuffle sendErr pd h x)"
  obtains infos where "y = x" and "dmMarshal C \<lparr>dm_type = SearchReq_msg, dm_pInfos = infos,
      dm_size = of_int (pd_maxSearchSize pd)\<rparr> = Inr bz"
    and "fst ` set infos = {p. p \<noteq> pb_localPID (pm_protocolBook (protocolMgr h)) \<and> x \<in> host_protos E h p}"
proof -
  let ?b = "pm_protocolBook (protocolMgr h)"
  define found where "found = PeersSupportingAllProtocols (he_S E) order ?b [x]"
  have f: "set found = {p. p \<noteq> pb_localPID ?b \<and> x \<in> host_protos E h p}"
    using order
    by (auto simp: found_def set_exist_iff [OF Q] PeersSupportingAllProtocols_eq book_protos_def split: option.splits)
  have s: "fst ` set (map (\<lambda>p. (p, [] :: string list)) found) = set found" by (simp add: image_image)
  from m show ?thesis
    using that [of "map (\<lambda>p. (p, [])) found"] f s
    by (auto simp: sendSearchReqToOthers_def found_def Let_def split: if_splits sum.splits dest: ask_loop_messages)
qed

lemma parse_addrs_str: "(\<And>a. parse (str a) = Inr a) \<Longrightarrow> parse_addrs parse (map str as) = Some as"
  by (induction as) simp_all

text \<open>What the asker gives to the channel for a peer that was offered with some addresses.\<close>

definition offer :: "('m, 'c) addr_ops \<Rightarrow> (('m \<Rightarrow> string) \<Rightarrow> 'm list \<Rightarrow> 'm list) \<Rightarrow> ('m \<Rightarrow> string) \<Rightarrow> peer_id \<Rightarrow> 'm list \<Rightarrow> 'm list" where
  "offer A unionBy str pid as = unionBy str (map (\<lambda>a. PIDAndNetAddrToMultiAddr A pid (Some a)) as)"

definition wanted_peer :: "('s, 'n, 'm) host_env \<Rightarrow> ('s, 'n, 'm, 'h) host \<Rightarrow> peer_id \<Rightarrow> bool" where
  "wanted_peer E h pid \<longleftrightarrow> \<not> Connected (he_N E) (connMgr h) pid \<and> Allowed (he_S E) (he_N E) (connMgr h) pid \<and> host_ID h \<noteq> pid"

lemma search_results_offers:
  assumes "\<And>a. parse (he_str E a) = Inr a"
  shows "search_results E A parse unionBy h (Some c) (map (\<lambda>p. (p, map (he_str E) (addrs p))) pids) =
    map (\<lambda>p. (c, offer A unionBy (he_str E) p (addrs p))) (filter (wanted_peer E h) pids)"
  by (induction pids) (auto simp: parse_addrs_str [where parse = parse, OF assms] offer_def wanted_peer_def Let_def)

section \<open>Property\<close>

text \<open>
  C38. A search finds the peers others know. When a host sends a search request for a service, the host that is asked
  answers without any change of its own, and the answer gives the channel of the search, one list each, the addresses of
  peers that the answering host knows to support the service, that are neither itself nor the asker nor known to the asker
  already, with the peer's id joined to every stored address; peers the asker is connected to or does not
  allow are dropped. Below the limit (the asker's and the answering host's, at least one; the asker's
  travels as 32 bits) no such peer is missing.
\<close>

theorem search_finds_what_others_know:
  assumes Q: "set_laws (he_S E)" and P: "set_laws P"
    and C: "\<forall>m bz. dmMarshal C m = Inr bz \<longrightarrow> dmUnmarshal C bz = Inr m"
    and parse: "\<forall>a. parse (he_str E a) = Inr a"
    and orderA: "distinct orderA" "set orderA = dom (pb_book (pm_protocolBook (protocolMgr a)))"
    and orderB: "distinct orderB" "set orderB = dom (pb_book (pm_protocolBook (protocolMgr b)))"
    and req: "(x, bPID, bz) \<in> set (sendSearchReqToOthers E C orderA shuffle sendErr pdA a x)"
    and ans: "discovery_handle E P A parse unionBy C orderB pdB (svc, x) aPID bz b = (b', sent, found)"
      "(y, pid, bz') \<in> set sent"
    and chan: "pd_searchingM pdA' svc = Some c"
    and candidates: "candidates = {p. p \<noteq> pb_localPID (pm_protocolBook (protocolMgr b)) \<and> x \<in> host_protos E b p \<and>
      GetAddresses (addresses b) p \<noteq> [] \<and> p \<noteq> aPID \<and>
      \<not> (p \<noteq> pb_localPID (pm_protocolBook (protocolMgr a)) \<and> x \<in> host_protos E a p)}"
    and limit: "limit = max 1 (min (uint (of_int (pd_maxSearchSize pdA) :: 32 word)) (pd_maxSearchSize pdB))"
  shows "b' = b \<and> found = [] \<and> (y, pid) = (x, aPID) \<and>
    (\<exists>pids. distinct pids \<and> int (length pids) \<le> limit \<and> set pids \<subseteq> candidates \<and>
      (int (length pids) < limit \<longrightarrow> set pids = candidates) \<and>
      discovery_handle E P A parse unionBy C orderA' pdA' (svc, x) bPID bz' a' =
        (a', [], map (\<lambda>p. (c, offer A unionBy (he_str E) p (GetAddresses (addresses b) p))) (filter (wanted_peer E a') pids)))"
proof -
  obtain known where m: "dmMarshal C \<lparr>dm_type = SearchReq_msg, dm_pInfos = known, dm_size = of_int (pd_maxSearchSize pdA)\<rparr> = Inr bz"
    and known: "fst ` set known = {p. p \<noteq> pb_localPID (pm_protocolBook (protocolMgr a)) \<and> x \<in> host_protos E a p}"
    by (rule request_names_known_peers [OF Q orderA req]) blast
  let ?req = "\<lparr>dm_type = SearchReq_msg, dm_pInfos = known, dm_size = of_int (pd_maxSearchSize pdA)\<rparr>"
  have r: "b' = b" "found = []" "sent = handleSearchReq E P C orderB pdB b aPID ?req x"
    using ans(1) C m by (auto simp: discovery_handle_def)
  have "candidates = {p. p \<noteq> pb_localPID (pm_protocolBook (protocolMgr b)) \<and> x \<in> host_protos E b p \<and>
      GetAddresses (addresses b) p \<noteq> [] \<and> p \<noteq> aPID \<and> p \<notin> fst ` set (dm_pInfos ?req)}"
    unfolding candidates by (simp add: known)
  moreover have "limit = max 1 (min (uint (dm_size ?req)) (pd_maxSearchSize pdB))" by (simp add: limit)
  ultimately obtain infos where s: "sent = (case dmMarshal C \<lparr>dm_type = SearchRes_msg, dm_pInfos = infos, dm_size = 0\<rparr> of
       Inl _ \<Rightarrow> [] | Inr bz \<Rightarrow> [(x, aPID, bz)])"
    and i: "distinct (map fst infos)" "int (length infos) \<le> limit" "fst ` set infos \<subseteq> candidates"
      "\<forall>(p, as)\<in>set infos. as = map (he_str E) (GetAddresses (addresses b) p)"
      "int (length infos) < limit \<longrightarrow> fst ` set infos = candidates"
    using search_answer_exact [OF Q P orderB, of limit ?req pdB candidates x aPID C] unfolding r(3) by blast
  have m': "dmMarshal C \<lparr>dm_type = SearchRes_msg, dm_pInfos = infos, dm_size = 0\<rparr> = Inr bz'" "(y, pid) = (x, aPID)"
    using ans(2) unfolding s by (auto split: sum.splits)
  have "infos = map (\<lambda>p. (p, map (he_str E) (GetAddresses (addresses b) p))) (map fst infos)"
    using i(4) by (intro nth_equalityI) (auto simp: case_prod_beta dest: nth_mem intro: prod_eqI)
  then have "search_results E A parse unionBy a' (Some c) infos =
      map (\<lambda>p. (c, offer A unionBy (he_str E) p (GetAddresses (addresses b) p))) (filter (wanted_peer E a') (map fst infos))"
    using search_results_offers [of parse E A unionBy a' c "GetAddresses (addresses b)" "map fst infos"] parse by simp
  then have "discovery_handle E P A parse unionBy C orderA' pdA' (svc, x) bPID bz' a' =
      (a', [], map (\<lambda>p. (c, offer A unionBy (he_str E) p (GetAddresses (addresses b) p))) (filter (wanted_peer E a') (map fst infos)))"
    using C m'(1) chan by (auto simp: discovery_handle_def handleSearchRes_def)
  then show ?thesis using r(1,2) m'(2) i by (intro conjI exI [of _ "map fst infos"]) simp_all
qed

text \<open>
  The host \<open>a\<close> knows that \<open>b\<close> supports the service, \<open>b\<close> knows that \<open>you\<close> does, and where; the codec encodes the two
  messages that are exchanged.
\<close>

definition book_host :: "peer_id \<Rightarrow> peer_id \<Rightarrow> (string list, handle list, string, nat) host" where
  "book_host me known =
     (let h = sample_host []
      in h\<lparr>protocolMgr := (protocolMgr h)\<lparr>pm_lPID := me,
             pm_protocolBook := \<lparr>pb_book = [known \<mapsto> [''/s'']], pb_localPID = me\<rparr>\<rparr>,
           addresses := [known \<mapsto> [''/ip4/2'']]\<rparr>)"

definition request_msg :: discovery_msg where
  "request_msg = \<lparr>dm_type = SearchReq_msg, dm_pInfos = [(''b'', [])], dm_size = 10\<rparr>"

definition answer_msg :: discovery_msg where
  "answer_msg = \<lparr>dm_type = SearchRes_msg, dm_pInfos = [(''you'', [''/ip4/2''])], dm_size = 0\<rparr>"

definition two_messages :: discovery_codec where
  "two_messages =
     \<lparr>dmMarshal = (\<lambda>m. if m = request_msg then Inr ''q'' else if m = answer_msg then Inr ''a'' else Inl ''error''),
      dmUnmarshal = (\<lambda>bz. if bz = ''q'' then Inr request_msg else if bz = ''a'' then Inr answer_msg else Inl ''error'')\<rparr>"

lemma two_messages_exchange:
  "sendSearchReqToOthers sample_env two_messages [''b''] id (\<lambda>_. False) (NewProtocolDiscovery list_set []) (book_host ''a'' ''b'') ''/s'' =
     [(''/s'', ''b'', ''q'')]"
  "discovery_handle sample_env list_set A Inr (\<lambda>_. id) two_messages [''you''] (NewProtocolDiscovery list_set []) (''s'', ''/s'')
     ''a'' ''q'' (book_host ''b'' ''you'') = (book_host ''b'' ''you'', [(''/s'', ''a'', ''a'')], [])"
  by (simp_all add: sendSearchReqToOthers_def discovery_handle_def handleSearchReq_def PeersSupportingAllProtocols_eq
      two_messages_def request_msg_def answer_msg_def book_host_def sample_host_def sample_env_def list_set_def
      NewProtocolDiscovery_def GetAddresses_def addr_List_def Let_def)

theorem search_finds_what_others_know_witness:
  "\<forall>A. discovery_handle sample_env list_set A Inr (\<lambda>_. id) two_messages []
       ((NewProtocolDiscovery list_set [])\<lparr>pd_searchingM := [''s'' \<mapsto> 5]\<rparr>) (''s'', ''/s'') ''b'' ''a'' (book_host ''a'' ''b'') =
     (book_host ''a'' ''b'', [], [(5, [PIDAndNetAddrToMultiAddr A ''you'' (Some ''/ip4/2'')])])"
proof
  fix A :: "(string, 'c) addr_ops"
  let ?pd = "NewProtocolDiscovery list_set [] :: string list discovery"
  let ?pd' = "?pd\<lparr>pd_searchingM := [''s'' \<mapsto> 5]\<rparr>"
  have C: "\<forall>m bz. dmMarshal two_messages m = Inr bz \<longrightarrow> dmUnmarshal two_messages bz = Inr m"
    by (auto simp: two_messages_def request_msg_def answer_msg_def split: if_splits)
  have l: "set_laws (he_S sample_env)" "\<forall>a. Inr a = (Inr (he_str sample_env a) :: string + string)"
    by (simp_all add: sample_env_def list_set_laws)
  have d: "set [''b''] = dom (pb_book (pm_protocolBook (protocolMgr (book_host ''a'' ''b''))))"
    "set [''you''] = dom (pb_book (pm_protocolBook (protocolMgr (book_host ''b'' ''you''))))"
    by (simp_all add: book_host_def sample_host_def)
  have m: "(''/s'', ''b'', ''q'') \<in> set (sendSearchReqToOthers sample_env two_messages [''b''] id (\<lambda>_. False) ?pd (book_host ''a'' ''b'') ''/s'')"
    "(''/s'', ''a'', ''a'') \<in> set [(''/s'', ''a'', ''a'')]"
    by (simp_all add: two_messages_exchange)
  let ?offer = "\<lambda>p. (5 :: nat, offer A (\<lambda>_. id) (he_str sample_env) p (GetAddresses (addresses (book_host ''b'' ''you'')) p))"
  from search_finds_what_others_know [OF l(1) list_set_laws C _ _ d(1) _ d(2) m(1)
      two_messages_exchange(2) [where A = A] m(2) _ refl refl, of ?pd' 5 "[]" "book_host ''a'' ''b''"]
  obtain pids where p: "distinct pids" "set pids \<subseteq> {''you''}" "length pids < 10 \<longrightarrow> set pids = {''you''}"
    "discovery_handle sample_env list_set A Inr (\<lambda>_. id) two_messages [] ?pd'
      (''s'', ''/s'') ''b'' ''a'' (book_host ''a'' ''b'') = (book_host ''a'' ''b'', [],
        map ?offer (filter (wanted_peer sample_env (book_host ''a'' ''b'')) pids))"
    by (auto simp: sample_env_def book_host_def sample_host_def book_protos_def NewProtocolDiscovery_def GetAddresses_def
        addr_List_def split: if_splits)
  have "card (set pids) \<le> 1" using card_mono [OF _ p(2)] by simp
  then have "length pids \<le> 1" using distinct_card [OF p(1)] by simp
  then have "pids = [''you'']" using p(3) by (cases pids) auto
  moreover have "wanted_peer sample_env (book_host ''a'' ''b'') ''you''"
    by (simp add: wanted_peer_def sample_env_def book_host_def sample_host_def Connected_def Allowed_def
        getHighLevelConnections_def getLowLevelConnections_def CountOfPeers_def Let_def)
  ultimately show "discovery_handle sample_env list_set A Inr (\<lambda>_. id) two_messages [] ?pd' (''s'', ''/s'') ''b'' ''a''
      (book_host ''a'' ''b'') = (book_host ''a'' ''b'', [], [(5, [PIDAndNetAddrToMultiAddr A ''you'' (Some ''/ip4/2'')])])"
    using p(4) by (simp add: offer_def book_host_def sample_host_def sample_env_def GetAddresses_def addr_List_def)
qed

end
