(* ===== verification/Group_Multicast.thy ===== *)
theory Group_Multicast
  imports Connection_Manager "HOL-Library.Multiset"
begin

text \<open>
  \<open>service/groupmulticast/group_multicast.go\<close>: named groups of peers and sending to a group. The map
  of groups is \<open>None\<close> when nil: the package has no constructor, so that is what a manager made
  outside of it starts with. What \<open>SendMsg\<close> of the host answers for each peer is an argument.
\<close>

section \<open>Groups\<close>

record group_manager =
  gm_pg :: "(string \<rightharpoonup> peer_id list) option"

definition groups :: "group_manager \<Rightarrow> string \<rightharpoonup> peer_id list" where
  "groups p = (case gm_pg p of None \<Rightarrow> Map.empty | Some m \<Rightarrow> m)"

definition AddPeerToGroup :: "group_manager \<Rightarrow> string \<Rightarrow> peer_id list \<Rightarrow> group_manager run" where
  "AddPeerToGroup p groupName peers =
     (let pg = (case groups p groupName of Some l \<Rightarrow> l | None \<Rightarrow> []) @ peers
      in case gm_pg p of
           None \<Rightarrow> Panics NilMapWrite
         | Some m \<Rightarrow> Returns (p\<lparr>gm_pg := Some (m(groupName \<mapsto> pg))\<rparr>))"

text \<open>\<open>SliceExcludeAll\<close> is the parameter \<open>ex\<close>.\<close>

definition RemovePeerFromGroup ::
  "(peer_id list \<Rightarrow> peer_id list \<Rightarrow> peer_id list) \<Rightarrow> group_manager \<Rightarrow> string \<Rightarrow> peer_id list \<Rightarrow> group_manager" where
  "RemovePeerFromGroup ex p groupName peers =
     (case groups p groupName of
        None \<Rightarrow> p
      | Some pg \<Rightarrow> p\<lparr>gm_pg := Some ((groups p)(groupName \<mapsto> ex pg peers))\<rparr>)"

definition GroupSize :: "group_manager \<Rightarrow> string \<Rightarrow> int" where
  "GroupSize p groupName = int (length (case groups p groupName of Some l \<Rightarrow> l | None \<Rightarrow> []))"

text \<open>\<open>SliceContains\<close> is the parameter \<open>sc\<close>.\<close>

definition InGroup :: "(peer_id list \<Rightarrow> peer_id \<Rightarrow> bool) \<Rightarrow> group_manager \<Rightarrow> string \<Rightarrow> peer_id \<Rightarrow> bool" where
  "InGroup sc p groupName peer = (case groups p groupName of None \<Rightarrow> False | Some pg \<Rightarrow> sc pg peer)"

definition RemoveGroup :: "group_manager \<Rightarrow> string \<Rightarrow> group_manager" where
  "RemoveGroup p groupName = p\<lparr>gm_pg := map_option (\<lambda>m. m(groupName := None)) (gm_pg p)\<rparr>"

definition getGroupPeers :: "group_manager \<Rightarrow> string \<Rightarrow> peer_id list" where
  "getGroupPeers p groupName = (case groups p groupName of None \<Rightarrow> [] | Some pg \<Rightarrow> pg)"

section \<open>Sending\<close>

datatype group_error = ErrNoPeerInGroup | SomethingError string | SendError string

text \<open>\<open>strings.Join\<close>.\<close>

fun join_with :: "string \<Rightarrow> string list \<Rightarrow> string" where
  "join_with sep [] = []"
| "join_with sep [s] = s"
| "join_with sep (s # t # ss) = s @ sep @ join_with sep (t # ss)"

text \<open>
  One goroutine per connected member sends the message. \<open>finish\<close> arranges the members in the order in
  which their goroutines end, which is the order of the errors in the channel.
\<close>

definition group_errors :: "(peer_id \<Rightarrow> string option) \<Rightarrow> (peer_id list \<Rightarrow> peer_id list) \<Rightarrow> peer_id list \<Rightarrow> string list" where
  "group_errors sendErr finish pids = List.map_filter sendErr (finish pids)"

definition SendToGroupSync ::
  "(handle, 'n) set_ops \<Rightarrow> ('s, 'n) lcm \<Rightarrow> (peer_id \<Rightarrow> string option) \<Rightarrow> (peer_id list \<Rightarrow> peer_id list)
   \<Rightarrow> group_manager \<Rightarrow> string \<Rightarrow> group_error option \<times> peer_id list" where
  "SendToGroupSync N connMgr sendErr finish p groupName =
     (let pg = getGroupPeers p groupName
      in if length pg = 0 then (Some ErrNoPeerInGroup, [])
         else
           (let sent = filter (Connected N connMgr) pg;
                errorC = group_errors sendErr finish sent
            in (if length errorC > 0
                then Some (SomethingError (''something error ['' @ join_with '','' errorC @ '']'')) else None,
                sent)))"

text \<open>
  \<open>SendToGroupAsync\<close> returns the channel at once. The result: what the channel holds when all
  goroutines have ended, its capacity, whether it is closed, and the peers sent to. For an empty
  group the channel has no buffer, and the send of \<open>ErrNoPeerInGroup\<close> to it, before anyone else
  has the channel, never ends: \<open>None\<close>.
\<close>

record error_channel =
  ec_errors :: "group_error list"
  ec_capacity :: nat
  ec_closed :: bool

definition SendToGroupAsync ::
  "(handle, 'n) set_ops \<Rightarrow> ('s, 'n) lcm \<Rightarrow> (peer_id \<Rightarrow> string option) \<Rightarrow> (peer_id list \<Rightarrow> peer_id list)
   \<Rightarrow> group_manager \<Rightarrow> string \<Rightarrow> (error_channel \<times> peer_id list) option" where
  "SendToGroupAsync N connMgr sendErr finish p groupName =
     (let pg = getGroupPeers p groupName;
          errorC = \<lparr>ec_errors = [], ec_capacity = length pg, ec_closed = False\<rparr>
      in if length pg = 0
         then (if length (ec_errors errorC) < ec_capacity errorC
               then Some (errorC\<lparr>ec_errors := [ErrNoPeerInGroup]\<rparr>, []) else None)
         else
           (let sent = filter (Connected N connMgr) pg
            in Some (errorC\<lparr>ec_errors := map SendError (group_errors sendErr finish sent)\<rparr>, sent)))"

section \<open>Properties\<close>

lemma group_errors_none:
  "mset (finish xs) = mset xs \<Longrightarrow> group_errors sendErr finish xs = [] \<longleftrightarrow> (\<forall>x\<in>set xs. sendErr x = None)"
  by (auto simp: group_errors_def List.map_filter_def filter_empty_conv dest!: mset_eq_setD)

lemma group_errors_length:
  "mset (finish xs) = mset xs \<Longrightarrow> length (group_errors sendErr finish xs) \<le> length xs"
  by (metis group_errors_def List.map_filter_def length_filter_le length_map size_mset)

lemma group_errors_mset:
  "mset (finish xs) = mset xs \<Longrightarrow> mset (group_errors sendErr finish xs) = mset (List.map_filter sendErr xs)"
  by (simp add: group_errors_def List.map_filter_def)

text \<open>
  Groups hold what was put into them: without a map adding panics; otherwise, for every group and peer,
  a peer is in a group after an addition if it was before or is among those added, after a removal if
  it was before and is not among those removed, after \<open>RemoveGroup\<close> if the group is another one; the
  size counts every addition, also of a peer that is in the group already.
\<close>

theorem group_membership:
  assumes ex: "\<forall>xs ys. ex xs ys = filter (\<lambda>x. x \<notin> set ys) xs" and sc: "\<forall>xs x. sc xs x = (x \<in> set xs)"
  shows "AddPeerToGroup \<lparr>gm_pg = None\<rparr> g ps = Panics NilMapWrite \<and>
    (\<exists>p'. AddPeerToGroup \<lparr>gm_pg = Some m\<rparr> g ps = Returns p' \<and>
       (InGroup sc p' f x \<longleftrightarrow> InGroup sc \<lparr>gm_pg = Some m\<rparr> f x \<or> f = g \<and> x \<in> set ps) \<and>
       GroupSize p' g = GroupSize \<lparr>gm_pg = Some m\<rparr> g + int (length ps)) \<and>
    (InGroup sc (RemovePeerFromGroup ex p g ps) f x \<longleftrightarrow> InGroup sc p f x \<and> \<not> (f = g \<and> x \<in> set ps)) \<and>
    (InGroup sc (RemoveGroup p g) f x \<longleftrightarrow> InGroup sc p f x \<and> f \<noteq> g)"
  using assms
  by (cases "gm_pg p")
     (auto simp: AddPeerToGroup_def RemovePeerFromGroup_def InGroup_def GroupSize_def RemoveGroup_def groups_def
       split: option.splits)

theorem group_membership_witness:
  "\<exists>p'. AddPeerToGroup \<lparr>gm_pg = Some [''g'' \<mapsto> [''a'']]\<rparr> ''g'' [''a'', ''b''] = Returns p' \<and>
     GroupSize p' ''g'' = 3 \<and> InGroup (\<lambda>xs x. x \<in> set xs) p' ''g'' ''b''"
proof -
  let ?ex = "\<lambda>xs ys :: peer_id list. filter (\<lambda>x. x \<notin> set ys) xs" and ?sc = "\<lambda>xs x :: peer_id. x \<in> set xs"
  have "\<forall>xs ys. ?ex xs ys = filter (\<lambda>x. x \<notin> set ys) xs" "\<forall>xs x. ?sc xs x = (x \<in> set xs)" by simp_all
  from group_membership [OF this, of "''g''" "[''a'', ''b'']" "[''g'' \<mapsto> [''a'']]" "''g''" "''b''"]
  show ?thesis by (auto simp: GroupSize_def groups_def)
qed

text \<open>
  C40. Sending to a group. Both forms send once for every entry of a connected member. The synchronous form
  refuses an empty group, reports no error exactly when the group is not empty and all these sends
  succeed, which includes the case that no member is connected, and otherwise reports the errors of all of
  them in some order. The channel of the asynchronous form holds in the end exactly the errors of
  these sends, each as often as it occurred, never more than it has room for, and is never closed; for an
  empty group that form never returns.
\<close>

theorem group_send_outcomes:
  assumes finish: "\<forall>xs. mset (finish xs) = mset xs"
    and sent: "sent = filter (Connected N m) (getGroupPeers p g)"
    and errors: "errors = List.map_filter sendErr sent"
  shows "snd (SendToGroupSync N m sendErr finish p g) = sent \<and>
    (fst (SendToGroupSync N m sendErr finish p g) = None \<longleftrightarrow>
       getGroupPeers p g \<noteq> [] \<and> (\<forall>pid\<in>set sent. sendErr pid = None)) \<and>
    (if getGroupPeers p g = [] then fst (SendToGroupSync N m sendErr finish p g) = Some ErrNoPeerInGroup
     else errors = [] \<or> (\<exists>es. mset es = mset errors \<and> fst (SendToGroupSync N m sendErr finish p g) =
       Some (SomethingError (''something error ['' @ join_with '','' es @ '']'')))) \<and>
    (if getGroupPeers p g = [] then SendToGroupAsync N m sendErr finish p g = None
     else \<exists>c. SendToGroupAsync N m sendErr finish p g = Some (c, sent) \<and> \<not> ec_closed c \<and>
       length (ec_errors c) \<le> ec_capacity c \<and> mset (ec_errors c) = mset (map SendError errors) \<and>
       (ec_errors c = [] \<longleftrightarrow> (\<forall>pid\<in>set sent. sendErr pid = None)))"
proof -
  let ?es = "group_errors sendErr finish sent"
  have "length ?es \<le> length (getGroupPeers p g)"
    using group_errors_length [of finish sent sendErr] finish
    by (metis le_trans length_filter_le sent)
  moreover have es: "mset ?es = mset errors" unfolding errors by (rule group_errors_mset) (use finish in simp)
  moreover have "?es = [] \<longleftrightarrow> errors = []" using es by (metis mset_zero_iff)
  moreover have "?es = [] \<longleftrightarrow> (\<forall>x\<in>set sent. sendErr x = None)" using finish by (intro group_errors_none) simp
  moreover have "getGroupPeers p g = [] \<Longrightarrow> sent = []" by (simp add: sent)
  ultimately show ?thesis
    by (auto simp: SendToGroupSync_def SendToGroupAsync_def Let_def simp flip: sent intro: exI [of _ ?es])
qed

text \<open>Two entries of one connected member and a member that is not connected; sending fails.\<close>

theorem group_send_outcomes_witness:
  "\<exists>c. SendToGroupAsync list_set
       ((NewLevelConnectionManager list_set)\<lparr>lowLevelConn := [\<lparr>pc_pid = ''a'', pc_connSet = [1]\<rparr>]\<rparr> :: (string list, handle list) lcm)
       (\<lambda>_. Some ''lost'') rev \<lparr>gm_pg = Some [''g'' \<mapsto> [''a'', ''b'', ''a'']]\<rparr> ''g'' = Some (c, [''a'', ''a'']) \<and>
     mset (ec_errors c) = {#SendError ''lost'', SendError ''lost''#}"
proof -
  let ?m = "(NewLevelConnectionManager list_set)\<lparr>lowLevelConn := [\<lparr>pc_pid = ''a'', pc_connSet = [1]\<rparr>]\<rparr> :: (string list, handle list) lcm"
  let ?p = "\<lparr>gm_pg = Some [''g'' \<mapsto> [''a'', ''b'', ''a'']]\<rparr>"
  have g: "getGroupPeers ?p ''g'' = [''a'', ''b'', ''a'']" by (simp add: getGroupPeers_def groups_def)
  have "Connected list_set ?m ''a''" "\<not> Connected list_set ?m ''b''"
    by (simp_all add: Connected_def NewLevelConnectionManager_def getHighLevelConnections_def getLowLevelConnections_def)
  then have sent: "[''a'', ''a''] = filter (Connected list_set ?m) (getGroupPeers ?p ''g'')" by (simp add: g)
  from group_send_outcomes [where finish = rev, OF _ sent refl, of "\<lambda>_. Some ''lost''"] show ?thesis
    by (simp add: g List.map_filter_simps) blast
qed

end
