(* ===== verification/Tcp_Connection.thy ===== *)
theory Tcp_Connection
  imports Network_Core Util_Net Peer_Id
begin

text \<open>
  \<open>network/tcp/connection.go\<close> and \<open>network/tcp/stream.go\<close>: the handshake of a connection, its state
  and the yamux streams it hands out. TLS, the socket and the yamux session are not part of the
  repository: what they answer is an argument. A yamux stream is a handle; it has a write half and a
  read half, which the code hands out separately.
\<close>

section \<open>The handshake\<close>

datatype tcp_error =
    ErrNilTlsCfg
  | ErrEmptyTlsCerts
  | ErrEmptyListenAddress
  | ErrListenerRequired
  | ErrNotTheSameNetwork
  | ErrPidMismatch
  | ErrNilPIDLoader
  | ErrWrongTcpAddr
  | ErrCanNotDialToUnspecifiedAddr
  | ErrCanNotDialToLoopbackAddr
  | ErrLocalPidNotSet
  | ErrAllDialFailed
  | ErrNextProtoMismatch
  | ErrConnClosed
  | ErrOfNet string

text \<open>
  What a failed handshake closes. \<open>HsPanic\<close>: it calls \<open>Close\<close> on a session or a connection that is
  nil.
\<close>

datatype hs_closed = ClosedConn | ClosedTls | LeftOpen

datatype 'a hs = HsOk 'a | HsErr tcp_error hs_closed | HsPanic panic

record handshake_env =
  hs_tlsErr :: "string option"
  hs_negotiated :: string
  hs_pidLoader :: "string + peer_id"
  hs_wrapped :: bool
  hs_writeErr :: "string option"
  hs_read :: "string + bytes"
  hs_sessErr :: "string option"

text \<open>
  The result is the peer's id and whether there is a connection to go on with: the code does not look
  at the error of \<open>manet.WrapNetConn\<close>, which comes with a nil connection (\<open>hs_wrapped\<close> is false).
  \<open>finalConn.Read(remotePIDBz)\<close> fills a prefix of the 46 zero bytes; all 46 become the id.
\<close>

definition pid_buffer :: "bytes \<Rightarrow> peer_id" where
  "pid_buffer bs = take IDLength bs @ replicate (IDLength - length bs) (CHR 0x00)"

definition handshake_tls :: "string \<Rightarrow> handshake_env \<Rightarrow> (peer_id \<times> bool) hs" where
  "handshake_tls nextProto H =
     (case hs_tlsErr H of
        Some e \<Rightarrow> HsErr (ErrOfNet e) ClosedTls
      | None \<Rightarrow>
          if hs_negotiated H \<noteq> nextProto then HsErr ErrNextProtoMismatch LeftOpen
          else (case hs_pidLoader H of
                  Inl e \<Rightarrow> HsErr (ErrOfNet e) ClosedTls
                | Inr pid \<Rightarrow> HsOk (pid, hs_wrapped H)))"

definition handshakeInbound :: "string option \<Rightarrow> handshake_env \<Rightarrow> (peer_id \<times> bool) hs" where
  "handshakeInbound tls H =
     (case tls of
        Some nextProto \<Rightarrow> handshake_tls nextProto H
      | None \<Rightarrow>
          (case hs_read H of
             Inl e \<Rightarrow> HsErr (ErrOfNet e) ClosedConn
           | Inr bs \<Rightarrow>
               (case hs_writeErr H of
                  Some e \<Rightarrow> HsErr (ErrOfNet e) ClosedConn
                | None \<Rightarrow> HsOk (pid_buffer bs, True))))"

text \<open>
  The outbound side closes itself when it cannot write its id, and its session does not exist yet.
  The server name for DNS addresses only reaches the TLS library.
\<close>

definition handshakeOutbound :: "string option \<Rightarrow> handshake_env \<Rightarrow> (peer_id \<times> bool) hs" where
  "handshakeOutbound tls H =
     (case tls of
        Some nextProto \<Rightarrow> handshake_tls nextProto H
      | None \<Rightarrow>
          (case hs_writeErr H of
             Some e \<Rightarrow> HsPanic NilDereference
           | None \<Rightarrow>
               (case hs_read H of
                  Inl e \<Rightarrow> HsErr (ErrOfNet e) ClosedConn
                | Inr bs \<Rightarrow> HsOk (pid_buffer bs, True))))"

text \<open>\<open>attachYamuxInbound\<close> and \<open>attachYamuxOutbound\<close> differ in the session they ask for.\<close>

definition attachYamux :: "handshake_env \<Rightarrow> peer_id \<times> bool \<Rightarrow> peer_id hs" where
  "attachYamux H r =
     (case hs_sessErr H of
        Some e \<Rightarrow> if snd r then HsErr (ErrOfNet e) ClosedConn else HsPanic NilDereference
      | None \<Rightarrow> HsOk (fst r))"

definition hs_bind :: "'a hs \<Rightarrow> ('a \<Rightarrow> 'b hs) \<Rightarrow> 'b hs" where
  "hs_bind r k = (case r of HsOk x \<Rightarrow> k x | HsErr e c \<Rightarrow> HsErr e c | HsPanic p \<Rightarrow> HsPanic p)"

definition handshakeAndAttachYamux :: "direction \<Rightarrow> string option \<Rightarrow> handshake_env \<Rightarrow> peer_id hs" where
  "handshakeAndAttachYamux dir tls H =
     (case dir of
        Inbound \<Rightarrow> hs_bind (handshakeInbound tls H) (attachYamux H)
      | Outbound \<Rightarrow> hs_bind (handshakeOutbound tls H) (attachYamux H)
      | Unknown \<Rightarrow> HsPanic NilDereference)"

section \<open>The connection\<close>

text \<open>
  \<open>usableSS\<close> holds the receive streams whose write half nobody has, \<open>usableRS\<close> the send streams whose
  read half nobody has. Each was put there once, when its yamux stream was accepted or opened, so it
  is named by that stream; \<open>tc_recvClosed\<close> and \<open>tc_sendClosed\<close> are the flags of these first wrappers.
\<close>

record tcp_conn =
  tc_status :: basic_status
  tc_localPID :: peer_id
  tc_remotePID :: peer_id
  tc_usableSS :: "handle list"
  tc_usableRS :: "handle list"
  tc_recvClosed :: "handle \<Rightarrow> bool"
  tc_sendClosed :: "handle \<Rightarrow> bool"
  tc_halfClosed :: "(handle \<times> bool) list"

definition NewConn :: "direction \<Rightarrow> string option \<Rightarrow> peer_id \<Rightarrow> handshake_env \<Rightarrow> tcp_conn hs" where
  "NewConn dir tls localPID H =
     hs_bind (handshakeAndAttachYamux dir tls H) (\<lambda>pid. HsOk
       \<lparr>tc_status = NewStatus dir, tc_localPID = localPID, tc_remotePID = pid, tc_usableSS = [], tc_usableRS = [],
        tc_recvClosed = (\<lambda>_. False), tc_sendClosed = (\<lambda>_. False), tc_halfClosed = []\<rparr>)"

text \<open>
  \<open>Close\<close> works the first time only; \<open>closeOnce\<close>, \<open>closeC\<close> and the flag of the status change together.
  The arguments are the errors of closing the session and the socket; the last component of the result
  says whether the socket was closed, which an error of the session prevents.
\<close>

definition conn_Close :: "string option \<Rightarrow> string option \<Rightarrow> tcp_conn \<Rightarrow> tcp_conn \<times> string option \<times> bool" where
  "conn_Close sessErr sockErr c =
     (if Closed (tc_status c) then (c, None, False)
      else (let c' = c\<lparr>tc_status := SetClosed (tc_status c)\<rparr>
            in case sessErr of Some e \<Rightarrow> (c', Some e, False) | None \<Rightarrow> (c', sockErr, True)))"

text \<open>\<open>closed()\<close> drops the error of the \<open>Close\<close> it calls; the new state does not depend on it.\<close>

definition conn_closed :: "bool \<Rightarrow> bool \<Rightarrow> tcp_conn \<Rightarrow> tcp_conn \<times> bool" where
  "conn_closed sessClosed ctxDone c =
     (if Closed (tc_status c) then (c, True)
      else if sessClosed \<or> ctxDone then (fst (conn_Close None None c), True)
      else (c, False))"

text \<open>
  The loop over one of the two maps, in the order \<open>order\<close> of the range: the closed entries met, and
  the first open one.
\<close>

fun first_usable :: "(handle \<Rightarrow> bool) \<Rightarrow> handle list \<Rightarrow> handle list \<times> handle option" where
  "first_usable closed [] = ([], None)"
| "first_usable closed (s # ss) =
     (if closed s then (let (cs, r) = first_usable closed ss in (s # cs, r)) else ([], Some s))"

definition taken :: "handle list \<times> handle option \<Rightarrow> handle list \<Rightarrow> handle list" where
  "taken r xs = filter (\<lambda>s. s \<notin> set (fst r) \<and> Some s \<noteq> snd r) xs"

text \<open>A half is named by its stream and whether it is the write half.\<close>

definition getUsableSendStream :: "handle list \<Rightarrow> tcp_conn \<Rightarrow> tcp_conn \<times> handle option" where
  "getUsableSendStream order c =
     (let r = first_usable (tc_recvClosed c) order
      in (c\<lparr>tc_usableSS := taken r (tc_usableSS c),
            tc_halfClosed := tc_halfClosed c @ map (\<lambda>s. (s, True)) (fst r)\<rparr>, snd r))"

definition getUsableReceiveStream :: "handle list \<Rightarrow> tcp_conn \<Rightarrow> tcp_conn \<times> handle option" where
  "getUsableReceiveStream order c =
     (let r = first_usable (tc_sendClosed c) order
      in (c\<lparr>tc_usableRS := taken r (tc_usableRS c),
            tc_halfClosed := tc_halfClosed c @ map (\<lambda>s. (s, False)) (fst r)\<rparr>, snd r))"

text \<open>A wrapper that is put into a map is a new one, so it is not closed.\<close>

definition putUsableSendStream :: "handle \<Rightarrow> tcp_conn \<Rightarrow> tcp_conn" where
  "putUsableSendStream ss c =
     c\<lparr>tc_usableSS := tc_usableSS c @ [ss], tc_recvClosed := (tc_recvClosed c)(ss := False)\<rparr>"

definition putUsableReceiveStream :: "handle \<Rightarrow> tcp_conn \<Rightarrow> tcp_conn" where
  "putUsableReceiveStream rs c =
     c\<lparr>tc_usableRS := tc_usableRS c @ [rs], tc_sendClosed := (tc_sendClosed c)(rs := False)\<rparr>"

declare putUsableSendStream_def [simp] putUsableReceiveStream_def [simp]

text \<open>\<open>opened\<close> and \<open>accepted\<close> are the answers of the session. The result is the half handed out.\<close>

definition openSendStream ::
  "handle list \<Rightarrow> string + handle \<Rightarrow> tcp_conn \<Rightarrow> tcp_conn \<times> (tcp_error + handle \<times> bool)" where
  "openSendStream order opened c =
     (let (c', ss) = getUsableSendStream order c
      in case ss of
           Some ys \<Rightarrow> (c', Inr (ys, True))
         | None \<Rightarrow>
             (case opened of
                Inl e \<Rightarrow> (c', Inl (ErrOfNet e))
              | Inr ys \<Rightarrow> (putUsableReceiveStream ys c', Inr (ys, True))))"

definition acceptReceiveStream ::
  "handle list \<Rightarrow> string + handle \<Rightarrow> tcp_conn \<Rightarrow> tcp_conn \<times> (tcp_error + handle \<times> bool)" where
  "acceptReceiveStream order accepted c =
     (let (c', rs) = getUsableReceiveStream order c
      in case rs of
           Some ys \<Rightarrow> (c', Inr (ys, False))
         | None \<Rightarrow>
             (case accepted of
                Inl e \<Rightarrow> (c', Inl (ErrOfNet e))
              | Inr ys \<Rightarrow> (putUsableSendStream ys c', Inr (ys, False))))"

definition OpenSendStream ::
  "bool \<Rightarrow> bool \<Rightarrow> handle list \<Rightarrow> string + handle \<Rightarrow> tcp_conn \<Rightarrow> tcp_conn \<times> (tcp_error + handle \<times> bool)" where
  "OpenSendStream sessClosed ctxDone order opened c =
     (let (c', closed) = conn_closed sessClosed ctxDone c
      in if closed then (c', Inl ErrConnClosed) else openSendStream order opened c')"

definition AcceptReceiveStream ::
  "bool \<Rightarrow> bool \<Rightarrow> handle list \<Rightarrow> string + handle \<Rightarrow> tcp_conn \<Rightarrow> tcp_conn \<times> (tcp_error + handle \<times> bool)" where
  "AcceptReceiveStream sessClosed ctxDone order accepted c =
     (let (c', closed) = conn_closed sessClosed ctxDone c
      in if closed then (c', Inl ErrConnClosed) else acceptReceiveStream order accepted c')"

text \<open>
  Closing a stream that was handed out. Only the first wrapper of a stream sits in a map; \<open>first\<close>
  tells whether it is the one closed. A second \<open>Close\<close> of a wrapper does nothing and is no step.
\<close>

definition stream_Close :: "bool \<Rightarrow> handle \<times> bool \<Rightarrow> tcp_conn \<Rightarrow> tcp_conn" where
  "stream_Close first h c =
     (let c' = c\<lparr>tc_halfClosed := tc_halfClosed c @ [h]\<rparr>
      in if \<not> first then c'
         else if snd h then c'\<lparr>tc_sendClosed := (tc_sendClosed c)(fst h := True)\<rparr>
         else c'\<lparr>tc_recvClosed := (tc_recvClosed c)(fst h := True)\<rparr>)"

section \<open>Halves of streams\<close>

text \<open>
  A run of the connection: every stream a session opens or accepts is a new one, and the order of a
  range lists the map. The state carries the halves handed out, in order, and the streams made.
\<close>

datatype tcp_op =
    TcpOpen "handle list" "string + handle"
  | TcpAccept "handle list" "string + handle"
  | TcpClose bool "handle \<times> bool"

record tcp_run =
  tr_conn :: tcp_conn
  tr_handed :: "(handle \<times> bool) list"
  tr_made :: "handle list"

fun new_stream :: "string + handle \<Rightarrow> handle list" where
  "new_stream (Inl _) = []"
| "new_stream (Inr ys) = [ys]"

definition handed_out :: "tcp_error + handle \<times> bool \<Rightarrow> (handle \<times> bool) list" where
  "handed_out r = (case r of Inl _ \<Rightarrow> [] | Inr h \<Rightarrow> [h])"

fun tcp_exec :: "tcp_op \<Rightarrow> tcp_run \<Rightarrow> tcp_run option" where
  "tcp_exec (TcpOpen order opened) r =
     (if set order = set (tc_usableSS (tr_conn r)) \<and> set (new_stream opened) \<inter> set (tr_made r) = {}
      then (let (c, out) = openSendStream order opened (tr_conn r)
            in Some \<lparr>tr_conn = c, tr_handed = tr_handed r @ handed_out out,
                 tr_made = tr_made r @ new_stream opened\<rparr>)
      else None)"
| "tcp_exec (TcpAccept order accepted) r =
     (if set order = set (tc_usableRS (tr_conn r)) \<and> set (new_stream accepted) \<inter> set (tr_made r) = {}
      then (let (c, out) = acceptReceiveStream order accepted (tr_conn r)
            in Some \<lparr>tr_conn = c, tr_handed = tr_handed r @ handed_out out,
                 tr_made = tr_made r @ new_stream accepted\<rparr>)
      else None)"
| "tcp_exec (TcpClose first h) r = Some (r\<lparr>tr_conn := stream_Close first h (tr_conn r)\<rparr>)"

fun tcp_runs :: "tcp_op list \<Rightarrow> tcp_run \<Rightarrow> tcp_run option" where
  "tcp_runs [] r = Some r"
| "tcp_runs (op # ops) r = (case tcp_exec op r of None \<Rightarrow> None | Some r' \<Rightarrow> tcp_runs ops r')"

definition new_run :: "tcp_conn \<Rightarrow> tcp_run" where
  "new_run c = \<lparr>tr_conn = c, tr_handed = [], tr_made = []\<rparr>"

definition halves_inv :: "tcp_run \<Rightarrow> bool" where
  "halves_inv r \<longleftrightarrow> distinct (tr_handed r) \<and> (\<forall>y b. (y, b) \<in> set (tr_handed r) \<longrightarrow> y \<in> set (tr_made r)) \<and>
     (\<forall>ys\<in>set (tc_usableSS (tr_conn r)). ys \<in> set (tr_made r) \<and> (ys, True) \<notin> set (tr_handed r)) \<and>
     (\<forall>ys\<in>set (tc_usableRS (tr_conn r)). ys \<in> set (tr_made r) \<and> (ys, False) \<notin> set (tr_handed r))"

text \<open>
  What an operation does to the maps and the halves handed out, as far as the invariant goes: a half
  comes from a map, which then has it no more, or from a new stream, whose other half goes into a map.
\<close>

lemma halves_inv_step:
  assumes "halves_inv r" and "set (tr_made r) \<subseteq> set made"
    and "set (tc_usableSS c) \<subseteq> set (tc_usableSS (tr_conn r)) \<union> newSS"
    and "set (tc_usableRS c) \<subseteq> set (tc_usableRS (tr_conn r)) \<union> newRS"
    and "newSS \<union> newRS \<subseteq> set made - set (tr_made r)"
    and "h \<notin> set (tr_handed r)" "fst h \<in> set made"
    and "snd h \<Longrightarrow> fst h \<notin> set (tc_usableSS c)" "\<not> snd h \<Longrightarrow> fst h \<notin> set (tc_usableRS c)"
  shows "halves_inv \<lparr>tr_conn = c, tr_handed = tr_handed r @ [h], tr_made = made\<rparr>"
proof -
  have a: "\<forall>y b. (y, b) \<in> set (tr_handed r) \<longrightarrow> y \<in> set (tr_made r)" "distinct (tr_handed r)"
    using assms(1) by (auto simp: halves_inv_def)
  have ss: "y \<in> set made \<and> (y, True) \<notin> set (tr_handed r @ [h])" if y: "y \<in> set (tc_usableSS c)" for y
  proof (cases "y \<in> set (tc_usableSS (tr_conn r))")
    case True
    then have "y \<in> set (tr_made r)" "(y, True) \<notin> set (tr_handed r)" using assms(1) by (auto simp: halves_inv_def)
    then show ?thesis using assms(2,8) y by auto
  next
    case False
    then have "y \<in> set made - set (tr_made r)" using assms(3,5) y by blast
    then show ?thesis using a(1) assms(8) y by force
  qed
  have rs: "y \<in> set made \<and> (y, False) \<notin> set (tr_handed r @ [h])" if y: "y \<in> set (tc_usableRS c)" for y
  proof (cases "y \<in> set (tc_usableRS (tr_conn r))")
    case True
    then have "y \<in> set (tr_made r)" "(y, False) \<notin> set (tr_handed r)" using assms(1) by (auto simp: halves_inv_def)
    then show ?thesis using assms(2,9) y by auto
  next
    case False
    then have "y \<in> set made - set (tr_made r)" using assms(4,5) y by blast
    then show ?thesis using a(1) assms(9) y by force
  qed
  show ?thesis using a assms(2,6,7) ss rs by (auto simp: halves_inv_def)
qed

lemma first_usable_found:
  "first_usable closed order = (cs, r) \<Longrightarrow> set cs \<subseteq> set order \<inter> Collect closed \<and>
     (\<forall>s. r = Some s \<longrightarrow> s \<in> set order \<and> \<not> closed s) \<and> (r = None \<longrightarrow> set order \<subseteq> Collect closed)"
  by (induction closed order arbitrary: cs r rule: first_usable.induct)
     (auto split: if_splits prod.splits)

lemma openSendStream_effect:
  assumes "openSendStream order opened c = (c', out)"
  shows "(\<exists>y\<in>set order. out = Inr (y, True) \<and> set (tc_usableSS c') \<subseteq> set (tc_usableSS c) - {y} \<and> tc_usableRS c' = tc_usableRS c) \<or>
    (\<exists>e. out = Inl e \<and> set (tc_usableSS c') \<subseteq> set (tc_usableSS c) \<and> tc_usableRS c' = tc_usableRS c) \<or>
    (\<exists>y. opened = Inr y \<and> out = Inr (y, True) \<and> set (tc_usableSS c') \<subseteq> set (tc_usableSS c) \<and>
       tc_usableRS c' = tc_usableRS c @ [y])"
proof -
  obtain cs f where f: "first_usable (tc_recvClosed c) order = (cs, f)" by fastforce
  have u: "y \<in> set order" if "f = Some y" for y using first_usable_found [OF f] that by simp
  show ?thesis
  proof (cases f)
    case None
    then show ?thesis using assms
      by (cases opened) (auto simp: openSendStream_def getUsableSendStream_def Let_def f taken_def)
  next
    case (Some y)
    then show ?thesis using assms u [OF Some]
      by (auto simp: openSendStream_def getUsableSendStream_def Let_def f taken_def)
  qed
qed

lemma acceptReceiveStream_effect:
  assumes "acceptReceiveStream order accepted c = (c', out)"
  shows "(\<exists>y\<in>set order. out = Inr (y, False) \<and> set (tc_usableRS c') \<subseteq> set (tc_usableRS c) - {y} \<and> tc_usableSS c' = tc_usableSS c) \<or>
    (\<exists>e. out = Inl e \<and> set (tc_usableRS c') \<subseteq> set (tc_usableRS c) \<and> tc_usableSS c' = tc_usableSS c) \<or>
    (\<exists>y. accepted = Inr y \<and> out = Inr (y, False) \<and> set (tc_usableRS c') \<subseteq> set (tc_usableRS c) \<and>
       tc_usableSS c' = tc_usableSS c @ [y])"
proof -
  obtain cs f where f: "first_usable (tc_sendClosed c) order = (cs, f)" by fastforce
  have u: "y \<in> set order" if "f = Some y" for y using first_usable_found [OF f] that by simp
  show ?thesis
  proof (cases f)
    case None
    then show ?thesis using assms
      by (cases accepted) (auto simp: acceptReceiveStream_def getUsableReceiveStream_def Let_def f taken_def)
  next
    case (Some y)
    then show ?thesis using assms u [OF Some]
      by (auto simp: acceptReceiveStream_def getUsableReceiveStream_def Let_def f taken_def)
  qed
qed

lemma halves_inv_more:
  assumes "halves_inv r" "set (tr_made r) \<subseteq> set made"
    "set (tc_usableSS c) \<subseteq> set (tc_usableSS (tr_conn r))" "set (tc_usableRS c) \<subseteq> set (tc_usableRS (tr_conn r))"
  shows "halves_inv \<lparr>tr_conn = c, tr_handed = tr_handed r, tr_made = made\<rparr>"
  using assms by (simp add: halves_inv_def subset_iff)

lemma open_halves:
  assumes inv: "halves_inv r" and e: "tcp_exec (TcpOpen order opened) r = Some r'"
  shows "halves_inv r'"
proof -
  obtain c out where c: "openSendStream order opened (tr_conn r) = (c, out)" by fastforce
  have o: "set order = set (tc_usableSS (tr_conn r))" "set (new_stream opened) \<inter> set (tr_made r) = {}"
    and r: "r' = \<lparr>tr_conn = c, tr_handed = tr_handed r @ handed_out out, tr_made = tr_made r @ new_stream opened\<rparr>"
    using e c by (auto split: if_splits)
  from openSendStream_effect [OF c] show ?thesis
  proof (elim disjE bexE exE conjE)
    fix y assume y: "y \<in> set order" "out = Inr (y, True)" "set (tc_usableSS c) \<subseteq> set (tc_usableSS (tr_conn r)) - {y}"
      "tc_usableRS c = tc_usableRS (tr_conn r)"
    then have "y \<in> set (tr_made r)" "(y, True) \<notin> set (tr_handed r)" using inv o by (auto simp: halves_inv_def)
    then show ?thesis using y unfolding r handed_out_def
      by (auto intro!: halves_inv_step [OF inv, where newSS = "{}" and newRS = "{}"])
  next
    fix x assume "out = Inl x" "set (tc_usableSS c) \<subseteq> set (tc_usableSS (tr_conn r))" "tc_usableRS c = tc_usableRS (tr_conn r)"
    then show ?thesis unfolding r handed_out_def by (auto intro!: halves_inv_more [OF inv])
  next
    fix y assume y: "opened = Inr y" "out = Inr (y, True)" "set (tc_usableSS c) \<subseteq> set (tc_usableSS (tr_conn r))"
      "tc_usableRS c = tc_usableRS (tr_conn r) @ [y]"
    then have "y \<notin> set (tr_made r)" using o by simp
    moreover from this have "y \<notin> set (tc_usableSS c)" "(y, True) \<notin> set (tr_handed r)"
      using inv y(3) by (force simp: halves_inv_def)+
    ultimately show ?thesis using y unfolding r handed_out_def
      by (auto intro!: halves_inv_step [OF inv, where newSS = "{}" and newRS = "{y}"])
  qed
qed

lemma accept_halves:
  assumes inv: "halves_inv r" and e: "tcp_exec (TcpAccept order accepted) r = Some r'"
  shows "halves_inv r'"
proof -
  obtain c out where c: "acceptReceiveStream order accepted (tr_conn r) = (c, out)" by fastforce
  have o: "set order = set (tc_usableRS (tr_conn r))" "set (new_stream accepted) \<inter> set (tr_made r) = {}"
    and r: "r' = \<lparr>tr_conn = c, tr_handed = tr_handed r @ handed_out out, tr_made = tr_made r @ new_stream accepted\<rparr>"
    using e c by (auto split: if_splits)
  from acceptReceiveStream_effect [OF c] show ?thesis
  proof (elim disjE bexE exE conjE)
    fix y assume y: "y \<in> set order" "out = Inr (y, False)" "set (tc_usableRS c) \<subseteq> set (tc_usableRS (tr_conn r)) - {y}"
      "tc_usableSS c = tc_usableSS (tr_conn r)"
    then have "y \<in> set (tr_made r)" "(y, False) \<notin> set (tr_handed r)" using inv o by (auto simp: halves_inv_def)
    then show ?thesis using y unfolding r handed_out_def
      by (auto intro!: halves_inv_step [OF inv, where newSS = "{}" and newRS = "{}"])
  next
    fix x assume "out = Inl x" "set (tc_usableRS c) \<subseteq> set (tc_usableRS (tr_conn r))" "tc_usableSS c = tc_usableSS (tr_conn r)"
    then show ?thesis unfolding r handed_out_def by (auto intro!: halves_inv_more [OF inv])
  next
    fix y assume y: "accepted = Inr y" "out = Inr (y, False)" "set (tc_usableRS c) \<subseteq> set (tc_usableRS (tr_conn r))"
      "tc_usableSS c = tc_usableSS (tr_conn r) @ [y]"
    then have "y \<notin> set (tr_made r)" using o by simp
    moreover from this have "y \<notin> set (tc_usableRS c)" "(y, False) \<notin> set (tr_handed r)"
      using inv y(3) by (force simp: halves_inv_def)+
    ultimately show ?thesis using y unfolding r handed_out_def
      by (auto intro!: halves_inv_step [OF inv, where newSS = "{y}" and newRS = "{}"])
  qed
qed

lemma tcp_exec_halves: "halves_inv r \<Longrightarrow> tcp_exec op r = Some r' \<Longrightarrow> halves_inv r'"
proof (cases op)
  case (TcpClose first h)
  assume "halves_inv r" "tcp_exec op r = Some r'"
  moreover have "tc_usableSS (stream_Close first h c) = tc_usableSS c"
    "tc_usableRS (stream_Close first h c) = tc_usableRS c" for c
    by (simp_all add: stream_Close_def Let_def)
  ultimately show ?thesis using TcpClose by (force simp: halves_inv_def)
qed (auto simp del: tcp_exec.simps dest: open_halves accept_halves)

interpretation tcp_runs: safe_runs tcp_exec tcp_runs halves_inv
  by unfold_locales (simp_all add: tcp_exec_halves)

section \<open>Properties\<close>

text \<open>
  C11. No half of a yamux stream is ever handed out twice: over any sequence of opened, accepted and closed
  streams of a new connection, the write halves that \<open>openSendStream\<close> returns and the read halves that
  \<open>acceptReceiveStream\<close> returns are all different, although each operation first reuses the free half of a
  stream made by the other.
\<close>

theorem stream_halves_are_exclusive:
  assumes "NewConn dir tls localPID H = HsOk c" and "tcp_runs ops (new_run c) = Some r"
  shows "distinct (tr_handed r)"
proof -
  have "halves_inv (new_run c)"
    using assms(1) by (auto simp: NewConn_def hs_bind_def halves_inv_def new_run_def split: hs.splits)
  from tcp_runs.run_safe [OF this assms(2)] show ?thesis by (simp add: halves_inv_def)
qed

text \<open>A handshake without TLS in which everything works and the other side sends \<open>bs\<close>.\<close>

definition plain_handshake :: "bytes \<Rightarrow> handshake_env" where
  "plain_handshake bs =
     \<lparr>hs_tlsErr = None, hs_negotiated = [], hs_pidLoader = Inl [], hs_wrapped = True,
      hs_writeErr = None, hs_read = Inr bs, hs_sessErr = None\<rparr>"

theorem stream_halves_are_exclusive_witness:
  "\<exists>c r. NewConn Inbound None ''me'' (plain_handshake ''you'') = HsOk c \<and>
     tcp_runs [TcpAccept [] (Inr 1), TcpOpen [1] (Inr 2), TcpOpen [] (Inr 3), TcpAccept [3] (Inr 4)] (new_run c) =
       Some r \<and> tr_handed r = [(1, False), (1, True), (3, True), (3, False)] \<and> distinct (tr_handed r)"
proof -
  obtain c where c: "NewConn Inbound None ''me'' (plain_handshake ''you'') = HsOk c"
    "tc_usableSS c = []" "tc_usableRS c = []" "tc_recvClosed c = (\<lambda>_. False)" "tc_sendClosed c = (\<lambda>_. False)"
    by (simp add: NewConn_def handshakeAndAttachYamux_def handshakeInbound_def attachYamux_def hs_bind_def
        plain_handshake_def)
  obtain r where r: "tcp_runs [TcpAccept [] (Inr 1), TcpOpen [1] (Inr 2), TcpOpen [] (Inr 3), TcpAccept [3] (Inr 4)]
      (new_run c) = Some r" "tr_handed r = [(1, False), (1, True), (3, True), (3, False)]"
    by (simp add: new_run_def openSendStream_def acceptReceiveStream_def getUsableSendStream_def
        getUsableReceiveStream_def taken_def handed_out_def c(2-5))
  from stream_halves_are_exclusive [OF c(1) r(1)] c(1) r show ?thesis by blast
qed

text \<open>
  C39. The handshake without TLS. The inbound side reads at most 46 bytes of the id that the other side sends,
  and pads them with zero bytes, so it learns an id without zero bytes correctly exactly when the id has
  46 bytes and one read returns all of them; a longer id, such as one that holds its key, is
  cut off. A failure to write the own id ends the inbound handshake with the socket closed, while the
  outbound side panics, because it closes a session that does not exist yet.
\<close>

theorem plain_handshake_outcome:
  assumes "length bs \<le> IDLength" and "bs = take (length bs) pid" and "CHR 0x00 \<notin> set pid"
    and "hs_read H = Inr bs" and "hs_sessErr H = None" and "dir \<noteq> Unknown"
  shows "(hs_writeErr H = None \<longrightarrow> (\<exists>c. NewConn dir None me H = HsOk c \<and>
      (tc_remotePID c = pid \<longleftrightarrow> length pid = IDLength \<and> bs = pid))) \<and>
    (hs_writeErr H = Some e \<longrightarrow> NewConn dir None me H =
      (if dir = Inbound then HsErr (ErrOfNet e) ClosedConn else HsPanic NilDereference))"
proof -
  have l: "length (pid_buffer bs) = IDLength" using assms(1) by (simp add: pid_buffer_def)
  have "pid_buffer bs = pid \<longleftrightarrow> length pid = IDLength \<and> bs = pid"
  proof (cases "length bs = IDLength")
    case True
    then have "pid_buffer bs = bs" by (simp add: pid_buffer_def)
    then show ?thesis using True by auto
  next
    case False
    then have "CHR 0x00 \<in> set (pid_buffer bs)" using assms(1) by (auto simp: pid_buffer_def)
    then show ?thesis using False assms(3) by auto
  qed
  then show ?thesis using assms(4-6)
    by (cases dir)
       (auto simp: NewConn_def handshakeAndAttachYamux_def handshakeInbound_def handshakeOutbound_def
          attachYamux_def hs_bind_def)
qed

theorem plain_handshake_outcome_witness:
  "\<exists>c. NewConn Inbound None ''me'' (plain_handshake (replicate 46 (CHR ''a''))) = HsOk c \<and>
     tc_remotePID c \<noteq> replicate 52 (CHR ''a'')"
proof -
  have t: "replicate 46 (CHR ''a'') = take (length (replicate 46 (CHR ''a''))) (replicate 52 (CHR ''a''))"
    by (simp only: length_replicate take_replicate) simp
  have "\<exists>c. NewConn Inbound None ''me'' (plain_handshake (replicate 46 (CHR ''a''))) = HsOk c \<and>
      (tc_remotePID c = replicate 52 (CHR ''a'') \<longleftrightarrow> length (replicate 52 (CHR ''a'')) = IDLength \<and>
        replicate 46 (CHR ''a'') = replicate 52 (CHR ''a''))"
    by (rule plain_handshake_outcome [OF _ t, THEN conjunct1, THEN mp])
       (simp_all add: IDLength_def plain_handshake_def)
  then show ?thesis by (simp only: length_replicate IDLength_def) auto
qed

end
