(* ===== verification/Tcp_Network.thy ===== *)
theory Tcp_Network
  imports Tcp_Connection
begin

text \<open>
  \<open>network/tcp/network.go\<close>, \<open>network/tcp/option.go\<close> and \<open>network_factory.go\<close>: building a TCP network,
  listening, accepting, dialling and closing. What TLS, the sockets and the matchers of multiaddresses
  answer are arguments: the list of outcomes that a loop meets, one entry per round. \<open>'c\<close> stands for
  certificates and \<open>'m\<close> for multiaddresses; \<open>n.ctx\<close> and the logger are left out.
\<close>

section \<open>State and construction\<close>

record 'c tls_config =
  tls_certificates :: "'c list"
  tls_nextProtos :: "string list"

record ('m, 'c) tcp_network =
  nw_tlsCfg :: "'c tls_config option"
  nw_pidLoader :: "('c list \<Rightarrow> string + peer_id) option"
  nw_tlsEnabled :: bool
  nw_dialLoopbackEnabled :: bool
  nw_localPID :: peer_id
  nw_tcpListeners :: "('m \<times> bool) list"
  nw_listening :: bool
  nw_onceDone :: bool
  nw_closed :: bool

text \<open>A listener is its local address and whether it was closed. \<open>nw_closed\<close>: \<open>closeC\<close> is closed.\<close>

datatype 'c tcp_option =
    WithTLSConfig "'c tls_config option"
  | WithNoTLS
  | WithPIDLoader "('c list \<Rightarrow> string + peer_id) option"
  | WithLocalPID peer_id
  | WithDialLoopbackEnable

fun apply_tcp_option :: "'c tcp_option \<Rightarrow> ('m, 'c) tcp_network \<Rightarrow> ('m, 'c) tcp_network" where
  "apply_tcp_option (WithTLSConfig cfg) n = n\<lparr>nw_tlsCfg := cfg, nw_tlsEnabled := True\<rparr>"
| "apply_tcp_option WithNoTLS n = n\<lparr>nw_tlsEnabled := False\<rparr>"
| "apply_tcp_option (WithPIDLoader l) n = n\<lparr>nw_pidLoader := l\<rparr>"
| "apply_tcp_option (WithLocalPID pid) n = n\<lparr>nw_localPID := pid\<rparr>"
| "apply_tcp_option WithDialLoopbackEnable n = n\<lparr>nw_dialLoopbackEnabled := True\<rparr>"

text \<open>No option of this package fails, so \<open>apply\<close> runs them all.\<close>

definition apply_tcp_options :: "'c tcp_option list \<Rightarrow> ('m, 'c) tcp_network \<Rightarrow> ('m, 'c) tcp_network" where
  "apply_tcp_options opts n = foldl (\<lambda>n o'. apply_tcp_option o' n) n opts"

definition NetworkProtocol :: string where
  "NetworkProtocol = ''rainbow-bee-network-tcp-v0.0.1''"

definition checkTlsCfg :: "('m, 'c) tcp_network \<Rightarrow> tcp_error + ('m, 'c) tcp_network" where
  "checkTlsCfg n =
     (if \<not> nw_tlsEnabled n then Inr n
      else (case nw_tlsCfg n of
              None \<Rightarrow> Inl ErrNilTlsCfg
            | Some cfg \<Rightarrow>
                if nw_pidLoader n = None then Inl ErrNilPIDLoader
                else if tls_certificates cfg = [] then Inl ErrEmptyTlsCerts
                else Inr (n\<lparr>nw_tlsCfg := Some (cfg\<lparr>tls_nextProtos := [NetworkProtocol]\<rparr>)\<rparr>)))"

definition blank_network :: "('m, 'c) tcp_network" where
  "blank_network =
     \<lparr>nw_tlsCfg = None, nw_pidLoader = None, nw_tlsEnabled = True, nw_dialLoopbackEnabled = False,
      nw_localPID = '''', nw_tcpListeners = [], nw_listening = False, nw_onceDone = False, nw_closed = False\<rparr>"

definition NewNetwork :: "'c tcp_option list \<Rightarrow> tcp_error + ('m, 'c) tcp_network" where
  "NewNetwork opts =
     (case checkTlsCfg (apply_tcp_options opts blank_network) of
        Inl e \<Rightarrow> Inl e
      | Inr n \<Rightarrow> if nw_localPID n = '''' then Inl ErrLocalPidNotSet else Inr n)"

text \<open>\<open>tlsCfg.NextProtos[0]\<close> of a connection's handshake, when TLS is enabled.\<close>

definition handshake_protocol :: "('m, 'c) tcp_network \<Rightarrow> string option run" where
  "handshake_protocol n =
     (if \<not> nw_tlsEnabled n then Returns None
      else (case nw_tlsCfg n of
              None \<Rightarrow> Panics NilDereference
            | Some cfg \<Rightarrow> (case tls_nextProtos cfg of [] \<Rightarrow> Panics IndexOutOfRange | p # _ \<Rightarrow> Returns (Some p))))"

section \<open>The network configuration of a host\<close>

datatype network_type = NetworkTypeUnknown | NetworkTypeTCP | NetworkTypeUDPQuic

record ('sk, 'c) network_config =
  nc_Type :: network_type
  nc_PrivateKey :: "'sk option"
  nc_TLSEnabled :: bool
  nc_TLSConfig :: "'c tls_config option"
  nc_PIDLoader :: "('c list \<Rightarrow> string + peer_id) option"
  nc_DialLoopbackEnabled :: bool

datatype factory_error = ErrNilTLSConfig | ErrUnknownNetworkType | ErrIDFromPriKey string | ErrOfTcp tcp_error

definition tcp_options_of :: "('sk, 'c) network_config \<Rightarrow> peer_id \<Rightarrow> 'c tcp_option list" where
  "tcp_options_of C localPID =
     (if nc_TLSEnabled C then [WithTLSConfig (nc_TLSConfig C)] else [WithNoTLS]) @
     (if 0 < length localPID then [WithLocalPID localPID] else []) @
     (if nc_PIDLoader C \<noteq> None then [WithPIDLoader (nc_PIDLoader C)] else []) @
     (if nc_DialLoopbackEnabled C then [WithDialLoopbackEnable] else [])"

definition newTCPNetwork :: "('sk, 'c) network_config \<Rightarrow> peer_id \<Rightarrow> factory_error + ('m, 'c) tcp_network" where
  "newTCPNetwork C localPID =
     (if nc_TLSEnabled C \<and> nc_TLSConfig C = None then Inl ErrNilTLSConfig
      else (case NewNetwork (tcp_options_of C localPID) of Inl e \<Rightarrow> Inl (ErrOfTcp e) | Inr n \<Rightarrow> Inr n))"

text \<open>\<open>idOf\<close> is \<open>peer.IDFromPriKey\<close>, called with a nil key when the configuration has none.\<close>

definition config_NewNetwork ::
  "('sk option \<Rightarrow> (string + peer_id) run) \<Rightarrow> ('sk, 'c) network_config
   \<Rightarrow> (factory_error + ('m, 'c) tcp_network) run" where
  "config_NewNetwork idOf C =
     run_bind (idOf (nc_PrivateKey C)) (\<lambda>r.
       case r of
         Inl e \<Rightarrow> Returns (Inl (ErrIDFromPriKey e))
       | Inr localPID \<Rightarrow>
           (case nc_Type C of
              NetworkTypeTCP \<Rightarrow> Returns (newTCPNetwork C localPID)
            | NetworkTypeUDPQuic \<Rightarrow> Panics (ExplicitPanic ''quic network coming soon'')
            | NetworkTypeUnknown \<Rightarrow> Returns (Inl ErrUnknownNetworkType)))"

section \<open>Dialling\<close>

text \<open>
  What one round of the loop over the listeners meets: the dial from its local address and the
  handshake on the new socket.
\<close>

record dial_try =
  dt_dialErr :: "string option"
  dt_handshake :: handshake_env

text \<open>What a dial returns, with the connections it closed.\<close>

type_synonym dialled = "(tcp_error + tcp_conn) \<times> tcp_conn list"

definition usable_local :: "('m, 'a) addr_ops \<Rightarrow> bool \<Rightarrow> 'm \<Rightarrow> bool" where
  "usable_local A loopbackEnabled a \<longleftrightarrow>
     \<not> (ma_isUnspecified A a \<or> \<not> loopbackEnabled \<and> ma_isLoopback A a)"

fun dial_loop ::
  "('m, 'a) addr_ops \<Rightarrow> bool \<Rightarrow> string option \<Rightarrow> peer_id \<Rightarrow> peer_id \<Rightarrow> ('m \<times> dial_try) list \<Rightarrow> dialled run" where
  "dial_loop A loopbackEnabled tls localPID remotePID [] = Returns (Inl ErrAllDialFailed, [])"
| "dial_loop A loopbackEnabled tls localPID remotePID ((localAddr, t) # rest) =
     (if \<not> usable_local A loopbackEnabled localAddr \<or> dt_dialErr t \<noteq> None
      then dial_loop A loopbackEnabled tls localPID remotePID rest
      else (case NewConn Outbound tls localPID (dt_handshake t) of
              HsPanic p \<Rightarrow> Panics p
            | HsErr e c \<Rightarrow> dial_loop A loopbackEnabled tls localPID remotePID rest
            | HsOk conn \<Rightarrow>
                if remotePID \<noteq> '''' \<and> tc_remotePID conn \<noteq> remotePID
                then Returns (Inl ErrPidMismatch, [fst (conn_Close None None conn)])
                else Returns (Inr conn, [])))"

text \<open>
  \<open>canDial\<close> is the answer of the two matchers. \<open>tries\<close> holds a round for every listener, closed ones
  included.
\<close>

definition tcp_dial ::
  "('m, 'a) addr_ops \<Rightarrow> ('m \<Rightarrow> bool) \<Rightarrow> ('m, 'c) tcp_network \<Rightarrow> dial_try list \<Rightarrow> 'm option \<Rightarrow> dialled run" where
  "tcp_dial A canDial n tries remoteAddr =
     (let (dialRemoteAddr, remotePID) = SplitAddrToTransportAndPID A remoteAddr
      in case dialRemoteAddr of
           None \<Rightarrow> Returns (Inl ErrWrongTcpAddr, [])
         | Some addr \<Rightarrow>
             if \<not> canDial addr then Returns (Inl ErrWrongTcpAddr, [])
             else if ma_isUnspecified A addr then Returns (Inl ErrCanNotDialToUnspecifiedAddr, [])
             else if \<not> nw_dialLoopbackEnabled n \<and> ma_isLoopback A addr
             then Returns (Inl ErrCanNotDialToLoopbackAddr, [])
             else run_bind (handshake_protocol n) (\<lambda>tls.
                    dial_loop A (nw_dialLoopbackEnabled n) tls (nw_localPID n) remotePID
                      (zip (map fst (nw_tcpListeners n)) tries)))"

text \<open>
  The select after the dial: the connection goes to \<open>connC\<close>, or the network is being closed and \<open>Dial\<close>
  returns a nil connection without an error, the dialled one being left open (the third component).
\<close>

datatype dial_end = Delivered | NetworkDone

definition network_Dial ::
  "('m, 'a) addr_ops \<Rightarrow> ('m \<Rightarrow> bool) \<Rightarrow> ('m, 'c) tcp_network \<Rightarrow> dial_try list \<Rightarrow> dial_end \<Rightarrow> 'm option
   \<Rightarrow> ((tcp_error + tcp_conn option) \<times> tcp_conn list \<times> tcp_conn list) run" where
  "network_Dial A canDial n tries sel remoteAddr =
     (if \<not> nw_listening n then Returns (Inl ErrListenerRequired, [], [])
      else run_bind (tcp_dial A canDial n tries remoteAddr) (\<lambda>(r, closed).
             case r of
               Inl e \<Rightarrow> Returns (Inl e, closed, [])
             | Inr conn \<Rightarrow>
                 (case sel of
                    Delivered \<Rightarrow> Returns (Inr (Some conn), closed, [])
                  | NetworkDone \<Rightarrow> Returns (Inr None, closed, [conn]))))"

section \<open>Listening\<close>

text \<open>
  What the loop over the addresses meets: whether the matcher accepts the address, the error of
  \<open>manet.DialArgs\<close>, the error of \<open>Listen\<close>, and the listener's own address or the error of wrapping it.
\<close>

record 'm listen_try =
  lt_canListen :: bool
  lt_argsErr :: "string option"
  lt_listenErr :: "string option"
  lt_wrapped :: "string + 'm"

text \<open>An early return drops the listeners opened so far; they are the first component.\<close>

fun listen_loop :: "'m listen_try list \<Rightarrow> 'm list \<Rightarrow> 'm list \<times> tcp_error option" where
  "listen_loop [] listeners = (listeners, None)"
| "listen_loop (t # ts) listeners =
     (if \<not> lt_canListen t then (listeners, Some ErrWrongTcpAddr)
      else (case lt_argsErr t of
              Some e \<Rightarrow> (listeners, Some (ErrOfNet e))
            | None \<Rightarrow>
                (case lt_listenErr t of
                   Some e \<Rightarrow> listen_loop ts listeners
                 | None \<Rightarrow>
                     (case lt_wrapped t of
                        Inl e \<Rightarrow> (listeners, Some (ErrOfNet e))
                      | Inr l \<Rightarrow> listen_loop ts (listeners @ [l])))))"

definition listenTCP :: "'m listen_try list \<Rightarrow> 'm list \<times> tcp_error option" where
  "listenTCP tries = (if tries = [] then ([], Some ErrEmptyListenAddress) else listen_loop tries [])"

definition resetCheck :: "('m, 'c) tcp_network \<Rightarrow> ('m, 'c) tcp_network" where
  "resetCheck n = (if nw_closed n then n\<lparr>nw_closed := False, nw_onceDone := False\<rparr> else n)"

text \<open>
  \<open>resolved\<close> is the answer of \<open>ResolveUnspecifiedAddresses\<close>. \<open>once\<close> counts as done whatever its function
  returned. The last component are the listeners that stay open although nobody holds them.
\<close>

definition Listen ::
  "string + 'm listen_try list \<Rightarrow> ('m, 'c) tcp_network \<Rightarrow> ('m, 'c) tcp_network \<times> tcp_error option \<times> 'm list" where
  "Listen resolved n0 =
     (let n = resetCheck n0
      in if nw_onceDone n then (n, None, [])
         else (let n1 = n\<lparr>nw_onceDone := True\<rparr>
               in case resolved of
                    Inl e \<Rightarrow> (n1, Some (ErrOfNet e), [])
                  | Inr tries \<Rightarrow>
                      (let (listeners, err) = listenTCP tries
                       in case err of
                            Some e \<Rightarrow> (n1, Some e, listeners)
                          | None \<Rightarrow>
                              if listeners = [] then (n1, Some ErrListenerRequired, [])
                              else (n1\<lparr>nw_tcpListeners := nw_tcpListeners n1 @ map (\<lambda>l. (l, False)) listeners,
                                     nw_listening := True\<rparr>, None, []))))"

definition network_Close :: "('m, 'c) tcp_network \<Rightarrow> ('m, 'c) tcp_network run" where
  "network_Close n =
     (if nw_closed n then Panics CloseOfClosedChannel
      else Returns (n\<lparr>nw_closed := True, nw_listening := False,
             nw_tcpListeners := map (\<lambda>(l, _). (l, True)) (nw_tcpListeners n)\<rparr>))"

definition ListenAddresses :: "('m, 'c) tcp_network \<Rightarrow> 'm list" where
  "ListenAddresses n = map fst (nw_tcpListeners n)"

definition network_Closed :: "bool \<Rightarrow> ('m, 'c) tcp_network \<Rightarrow> bool" where
  "network_Closed ctxDone n \<longleftrightarrow> nw_closed n \<or> ctxDone"

text \<open>Networks are compared as pointers, so a network is a handle here.\<close>

definition Disconnect ::
  "string option \<Rightarrow> string option \<Rightarrow> handle \<Rightarrow> handle \<Rightarrow> tcp_conn \<Rightarrow> tcp_conn \<times> tcp_error option" where
  "Disconnect sessErr sockErr n connNetwork conn =
     (if n \<noteq> connNetwork then (conn, Some ErrNotTheSameNetwork)
      else (let (c, e, _) = conn_Close sessErr sockErr conn in (c, map_option ErrOfNet e)))"

section \<open>Accepting\<close>

text \<open>
  A round of \<open>listenerAcceptLoop\<close>: whether the network is done when it looks, what \<open>Accept\<close> returns and,
  for a connection, whether the select hands it over or finds the network done.
\<close>

record accept_try =
  at_done :: bool
  at_accept :: "string + handshake_env"
  at_select :: dial_end

record accepted =
  ac_delivered :: "tcp_conn list"
  ac_leftOpen :: "tcp_conn list"
  ac_ended :: bool

fun listenerAcceptLoop :: "string option \<Rightarrow> peer_id \<Rightarrow> accept_try list \<Rightarrow> accepted \<Rightarrow> accepted run" where
  "listenerAcceptLoop tls localPID [] a = Returns a"
| "listenerAcceptLoop tls localPID (t # ts) a =
     (if at_done t then Returns (a\<lparr>ac_ended := True\<rparr>)
      else (case at_accept t of
              Inl e \<Rightarrow>
                if contains e ''closed network connection'' then Returns (a\<lparr>ac_ended := True\<rparr>)
                else listenerAcceptLoop tls localPID ts a
            | Inr H \<Rightarrow>
                (case NewConn Inbound tls localPID H of
                   HsPanic p \<Rightarrow> Panics p
                 | HsErr e c \<Rightarrow> listenerAcceptLoop tls localPID ts a
                 | HsOk conn \<Rightarrow>
                     (case at_select t of
                        Delivered \<Rightarrow>
                          listenerAcceptLoop tls localPID ts (a\<lparr>ac_delivered := ac_delivered a @ [conn]\<rparr>)
                      | NetworkDone \<Rightarrow>
                          Returns (a\<lparr>ac_leftOpen := ac_leftOpen a @ [conn], ac_ended := True\<rparr>)))))"

section \<open>Well-formed networks\<close>

datatype 'm network_op = DoListen "string + 'm listen_try list" | DoClose

fun network_runs :: "'m network_op list \<Rightarrow> ('m, 'c) tcp_network \<Rightarrow> ('m, 'c) tcp_network run" where
  "network_runs [] n = Returns n"
| "network_runs (DoListen r # ops) n = network_runs ops (fst (Listen r n))"
| "network_runs (DoClose # ops) n = run_bind (network_Close n) (network_runs ops)"

definition network_wf :: "('m, 'c) tcp_network \<Rightarrow> bool" where
  "network_wf n \<longleftrightarrow> nw_localPID n \<noteq> '''' \<and>
     handshake_protocol n = Returns (if nw_tlsEnabled n then Some NetworkProtocol else None) \<and>
     (nw_tlsEnabled n \<longrightarrow> nw_pidLoader n \<noteq> None \<and>
        (\<exists>cfg. nw_tlsCfg n = Some cfg \<and> tls_certificates cfg \<noteq> [])) \<and>
     (nw_listening n \<longrightarrow> nw_onceDone n \<and> \<not> nw_closed n \<and> (\<exists>l. (l, False) \<in> set (nw_tcpListeners n))) \<and>
     (\<not> nw_listening n \<longrightarrow> (\<forall>(l, closed)\<in>set (nw_tcpListeners n). closed))"

lemma apply_tcp_options_keep:
  "nw_tcpListeners (apply_tcp_options opts n) = nw_tcpListeners n \<and>
   nw_listening (apply_tcp_options opts n) = nw_listening n \<and>
   nw_closed (apply_tcp_options opts n) = nw_closed n"
proof (induction opts arbitrary: n)
  case (Cons opt opts)
  from Cons [of "apply_tcp_option opt n"] show ?case
    by (cases opt) (simp_all add: apply_tcp_options_def)
qed (simp add: apply_tcp_options_def)

lemma NewNetwork_wf:
  fixes n :: "('m, 'c) tcp_network"
  assumes "NewNetwork opts = Inr n"
  shows "network_wf n"
proof -
  let ?n = "apply_tcp_options opts blank_network :: ('m, 'c) tcp_network"
  have k: "nw_tcpListeners ?n = []" "\<not> nw_listening ?n"
    using apply_tcp_options_keep [of opts "blank_network :: ('m, 'c) tcp_network"]
    by (simp_all add: blank_network_def)
  obtain m where m: "checkTlsCfg ?n = Inr m" "nw_localPID m \<noteq> ''''" "n = m"
    using assms by (auto simp: NewNetwork_def split: sum.splits if_splits)
  then show ?thesis using k
    by (auto simp: checkTlsCfg_def network_wf_def handshake_protocol_def split: if_splits option.splits)
qed

lemma handshake_protocol_keep [simp]:
  "handshake_protocol (n\<lparr>nw_closed := b\<rparr>) = handshake_protocol n"
  "handshake_protocol (n\<lparr>nw_onceDone := b\<rparr>) = handshake_protocol n"
  "handshake_protocol (n\<lparr>nw_listening := b\<rparr>) = handshake_protocol n"
  "handshake_protocol (n\<lparr>nw_tcpListeners := ls\<rparr>) = handshake_protocol n"
  by (simp_all add: handshake_protocol_def)

lemma Listen_wf: "network_wf n \<Longrightarrow> network_wf (fst (Listen r n))"
proof -
  assume wf: "network_wf n"
  have r: "network_wf (resetCheck n)"
    using wf by (auto simp: network_wf_def resetCheck_def)
  have once: "network_wf (m\<lparr>nw_onceDone := True\<rparr>)" if "network_wf m" for m :: "('a, 'b) tcp_network"
    using that by (simp add: network_wf_def)
  have more: "network_wf (m\<lparr>nw_onceDone := True, nw_tcpListeners := ls @ map (\<lambda>l. (l, False)) new, nw_listening := True\<rparr>)"
    if "network_wf m" "new \<noteq> []" "\<not> nw_closed m" for m :: "('a, 'b) tcp_network" and ls new
    using that by (cases new) (auto simp: network_wf_def)
  show ?thesis
  proof (cases "nw_closed (resetCheck n)")
    case True
    then show ?thesis by (auto simp: resetCheck_def split: if_splits)
  next
    case False
    then show ?thesis using r once [OF r] more [OF r]
      by (auto simp: Listen_def Let_def split: sum.splits prod.splits option.splits)
  qed
qed

lemma network_Close_wf: "network_wf n \<Longrightarrow> network_Close n = Returns n' \<Longrightarrow> network_wf n'"
  by (auto simp: network_wf_def network_Close_def split: if_splits)

lemma network_runs_wf: "network_wf n \<Longrightarrow> network_runs ops n = Returns n' \<Longrightarrow> network_wf n'"
  by (induction ops n rule: network_runs.induct)
     (auto simp: run_bind_Returns_iff dest: Listen_wf network_Close_wf)

section \<open>What decides a dial\<close>

text \<open>
  What the round from one local address contributes: nothing when the address may not be used, the dial fails
  or the handshake ends with an error; else the connection, or the panic of the handshake.
\<close>

definition attempt ::
  "('m, 'a) addr_ops \<Rightarrow> bool \<Rightarrow> string option \<Rightarrow> peer_id \<Rightarrow> 'm \<times> dial_try \<Rightarrow> (panic + tcp_conn) option" where
  "attempt A loopbackEnabled tls localPID r =
     (if ma_isUnspecified A (fst r) \<or> ma_isLoopback A (fst r) \<and> \<not> loopbackEnabled \<or> dt_dialErr (snd r) \<noteq> None
      then None
      else (case NewConn Outbound tls localPID (dt_handshake (snd r)) of
              HsErr e c \<Rightarrow> None | HsPanic p \<Rightarrow> Some (Inl p) | HsOk c \<Rightarrow> Some (Inr c)))"

lemma dial_loop_first_success:
  "dial_loop A lo tls localPID remotePID rounds =
    (case List.map_filter (attempt A lo tls localPID) rounds of
        [] \<Rightarrow> Returns (Inl ErrAllDialFailed, [])
      | Inl p # _ \<Rightarrow> Panics p
      | Inr c # _ \<Rightarrow> Returns (if remotePID \<noteq> '''' \<and> tc_remotePID c \<noteq> remotePID
          then (Inl ErrPidMismatch, [fst (conn_Close None None c)]) else (Inr c, [])))"
proof (induction rounds)
  case (Cons r rounds)
  obtain a t where r: "r = (a, t)" by fastforce
  show ?case using Cons
    by (cases "NewConn Outbound tls localPID (dt_handshake t)")
       (auto simp: r attempt_def usable_local_def List.map_filter_simps)
qed (simp add: List.map_filter_simps)

section \<open>Properties\<close>

text \<open>
  What \<open>NewNetwork\<close> builds can be used: the network has a local id, and with TLS it has certificates, a
  loader of peer ids and the protocol name every handshake reads. Whatever sequence of \<open>Listen\<close> and \<open>Close\<close>
  follows, this stays so, the network counts as listening only while it is open and holds an open listener, and
  when it does not listen all its listeners are closed.
\<close>

theorem built_network_stays_well_formed:
  assumes "NewNetwork opts = Inr n" and "network_runs ops n = Returns n'"
  shows "network_wf n'"
  using NewNetwork_wf [OF assms(1)] assms(2) by (rule network_runs_wf)

definition good_listen :: "nat \<Rightarrow> nat listen_try" where
  "good_listen a = \<lparr>lt_canListen = True, lt_argsErr = None, lt_listenErr = None, lt_wrapped = Inr a\<rparr>"

theorem built_network_stays_well_formed_witness:
  "\<exists>n n'. NewNetwork [WithNoTLS, WithLocalPID ''me''] = Inr (n :: (nat, nat) tcp_network) \<and>
     network_runs [DoListen (Inr [good_listen 1]), DoClose, DoListen (Inr [good_listen 2])] n = Returns n' \<and>
     nw_tcpListeners n' = [(1, True), (2, False)] \<and> network_wf n'"
proof -
  obtain n where n: "NewNetwork [WithNoTLS, WithLocalPID ''me''] = Inr (n :: (nat, nat) tcp_network)"
    "n = \<lparr>nw_tlsCfg = None, nw_pidLoader = None, nw_tlsEnabled = False, nw_dialLoopbackEnabled = False,
      nw_localPID = ''me'', nw_tcpListeners = [], nw_listening = False, nw_onceDone = False, nw_closed = False\<rparr>"
    by (simp add: NewNetwork_def apply_tcp_options_def checkTlsCfg_def blank_network_def)
  obtain n' where r: "network_runs [DoListen (Inr [good_listen 1]), DoClose, DoListen (Inr [good_listen 2])] n = Returns n'"
    "nw_tcpListeners n' = [(1, True), (2, False)]"
    by (simp add: n(2) Listen_def Let_def resetCheck_def listenTCP_def good_listen_def network_Close_def)
  from built_network_stays_well_formed [OF n(1) r(1)] n(1) r show ?thesis by blast
qed

text \<open>
  A failed \<open>Listen\<close> cannot be repeated. After it, every later \<open>Listen\<close> of the open network reports success
  without listening on anything, and \<open>Dial\<close> refuses every address for want of a listener. Only \<open>Close\<close>
  makes a new \<open>Listen\<close> possible. The listeners opened before the failure stay open outside the network.
\<close>

theorem failed_listen_is_final:
  assumes "network_wf n" and "\<not> nw_closed n" and "\<not> nw_listening n" and "Listen r n = (n1, Some e, lost)"
  shows "Listen r' n1 = (n1, None, []) \<and>
    network_Dial A canDial n1 tries sel addr = Returns (Inl ErrListenerRequired, [], []) \<and>
    (\<exists>n2. network_Close n1 = Returns n2 \<and> nw_onceDone (resetCheck n2) = False)"
proof -
  have n1: "n1 = n\<lparr>nw_onceDone := True\<rparr>"
    using assms(2,4) by (auto simp: Listen_def Let_def resetCheck_def split: sum.splits prod.splits option.splits if_splits)
  show ?thesis using assms(2,3)
    by (simp add: n1 Listen_def Let_def resetCheck_def network_Dial_def network_Close_def)
qed

theorem failed_listen_is_final_witness:
  "\<forall>A :: (nat, nat) addr_ops. \<exists>n n1. NewNetwork [WithNoTLS, WithLocalPID ''me''] = Inr (n :: (nat, nat) tcp_network) \<and>
     Listen (Inr [good_listen 1, (good_listen 2)\<lparr>lt_canListen := False\<rparr>]) n = (n1, Some ErrWrongTcpAddr, [1]) \<and>
     Listen (Inr [good_listen 3]) n1 = (n1, None, []) \<and>
     network_Dial A (\<lambda>_. True) n1 [] Delivered (Some 5) = Returns (Inl ErrListenerRequired, [], [])"
proof
  fix A :: "(nat, nat) addr_ops"
  obtain n where n: "NewNetwork [WithNoTLS, WithLocalPID ''me''] = Inr (n :: (nat, nat) tcp_network)"
    "\<not> nw_closed n" "\<not> nw_listening n" "\<not> nw_onceDone n"
    by (simp add: NewNetwork_def apply_tcp_options_def checkTlsCfg_def blank_network_def)
  have l: "Listen (Inr [good_listen 1, (good_listen 2)\<lparr>lt_canListen := False\<rparr>]) n =
      (n\<lparr>nw_onceDone := True\<rparr>, Some ErrWrongTcpAddr, [1])"
    using n(2,4) by (simp add: Listen_def Let_def resetCheck_def listenTCP_def good_listen_def)
  from failed_listen_is_final [OF NewNetwork_wf [OF n(1)] n(2,3) l] n(1) l
  show "\<exists>n n1. NewNetwork [WithNoTLS, WithLocalPID ''me''] = Inr (n :: (nat, nat) tcp_network) \<and>
     Listen (Inr [good_listen 1, (good_listen 2)\<lparr>lt_canListen := False\<rparr>]) n = (n1, Some ErrWrongTcpAddr, [1]) \<and>
     Listen (Inr [good_listen 3]) n1 = (n1, None, []) \<and>
     network_Dial A (\<lambda>_. True) n1 [] Delivered (Some 5) = Returns (Inl ErrListenerRequired, [], [])" by blast
qed

text \<open>
  C24. What a dial by a well-formed network returns, for every outcome of its rounds, one for each listener. An
  address that is not a TCP address, is unspecified, or is a loopback address that is not enabled, is refused.
  Otherwise the first of the listeners' local addresses decides that is neither unspecified nor a disabled
  loopback, from which the socket is opened and whose handshake does not end with an error. When that handshake
  panics (without TLS the outbound one does when the own id cannot be written), the dial panics. When it
  succeeds, its connection is returned if the address names no peer or the peer that answered; otherwise it is
  closed and the dial fails, although another local address might have reached the right peer.
\<close>

theorem dial_decided_by_first_success:
  assumes "network_wf n" and "length tries = length (nw_tcpListeners n)"
  shows "tcp_dial A canDial n tries remoteAddr =
    (case SplitAddrToTransportAndPID A remoteAddr of
       (None, _) \<Rightarrow> Returns (Inl ErrWrongTcpAddr, [])
     | (Some addr, remotePID) \<Rightarrow>
         if \<not> canDial addr then Returns (Inl ErrWrongTcpAddr, [])
         else if ma_isUnspecified A addr then Returns (Inl ErrCanNotDialToUnspecifiedAddr, [])
         else if ma_isLoopback A addr \<and> \<not> nw_dialLoopbackEnabled n
         then Returns (Inl ErrCanNotDialToLoopbackAddr, [])
         else (case List.map_filter
                      (attempt A (nw_dialLoopbackEnabled n) (if nw_tlsEnabled n then Some NetworkProtocol else None) (nw_localPID n))
                      (zip (ListenAddresses n) tries) of
                 [] \<Rightarrow> Returns (Inl ErrAllDialFailed, [])
               | Inl p # _ \<Rightarrow> Panics p
               | Inr c # _ \<Rightarrow> Returns (if remotePID \<noteq> '''' \<and> tc_remotePID c \<noteq> remotePID
                   then (Inl ErrPidMismatch, [fst (conn_Close None None c)]) else (Inr c, []))))"
proof -
  have "handshake_protocol n = Returns (if nw_tlsEnabled n then Some NetworkProtocol else None)"
    using assms(1) by (simp add: network_wf_def)
  then show ?thesis
    by (auto simp: tcp_dial_def ListenAddresses_def dial_loop_first_success Let_def split: option.splits prod.splits)
qed

text \<open>Addresses that are plain numbers, 0 being the unspecified and 1 the loopback one, and name the peer in a second number.\<close>

definition number_addrs :: "(nat, nat) addr_ops" where
  "number_addrs =
     \<lparr>ma_splitLast = (\<lambda>a. (Some (a mod 100), if a < 100 then None else Some (a div 100))),
      ma_code = (\<lambda>_. 421), ma_value = (\<lambda>c. Inr (replicate c (CHR ''p''))),
      ma_stringCast = (\<lambda>s. length s), ma_join = (\<lambda>t c. c), ma_protocols = (\<lambda>_. []),
      ma_isUnspecified = (\<lambda>a. a = 0), ma_isLoopback = (\<lambda>a. a = 1), ma_P_P2P = 421, ma_P_DNS = 53, ma_P_DNS4 = 54,
      ma_P_DNS6 = 55\<rparr>"

theorem dial_decided_by_first_success_witness:
  "\<exists>n. NewNetwork [WithNoTLS, WithLocalPID ''me''] = Inr (n :: (nat, nat) tcp_network) \<and>
     (\<exists>n1. Listen (Inr (map good_listen [0, 1, 8, 9])) n = (n1, None, []) \<and>
       (\<exists>c. tcp_dial number_addrs (\<lambda>_. True) n1
          (map (\<lambda>bs. \<lparr>dt_dialErr = None, dt_handshake = plain_handshake bs\<rparr>) [''w'', ''x'', ''y'', ''z'']) (Some 4607) =
          Returns (Inl ErrPidMismatch, [c]) \<and> Closed (tc_status c) \<and> take 1 (tc_remotePID c) = ''y''))"
proof -
  obtain n where n: "NewNetwork [WithNoTLS, WithLocalPID ''me''] = Inr (n :: (nat, nat) tcp_network)"
    "\<not> nw_closed n" "\<not> nw_onceDone n" "nw_tcpListeners n = []" "\<not> nw_tlsEnabled n" "nw_localPID n = ''me''" "\<not> nw_dialLoopbackEnabled n"
    by (simp add: NewNetwork_def apply_tcp_options_def checkTlsCfg_def blank_network_def)
  let ?n1 = "n\<lparr>nw_onceDone := True, nw_tcpListeners := [(0, False), (1, False), (8, False), (9, False)], nw_listening := True\<rparr>"
  have l: "Listen (Inr (map good_listen [0, 1, 8, 9])) n = (?n1, None, [])"
    using n(2-4) by (simp add: Listen_def Let_def resetCheck_def listenTCP_def good_listen_def)
  let ?tries = "map (\<lambda>bs. \<lparr>dt_dialErr = None, dt_handshake = plain_handshake bs\<rparr>) [''w'', ''x'', ''y'', ''z'']"
  have s: "SplitAddrToTransportAndPID number_addrs (Some 4607) = (Some 7, replicate 46 (CHR ''p''))"
    by (simp only: SplitAddrToTransportAndPID_def number_addrs_def) simp
  note hs = NewConn_def handshakeAndAttachYamux_def handshakeOutbound_def attachYamux_def hs_bind_def
    plain_handshake_def
  obtain c where c: "NewConn Outbound None ''me'' (plain_handshake ''y'') = HsOk c" "tc_remotePID c = pid_buffer ''y''"
    by (simp add: hs)
  have a: "List.map_filter (attempt number_addrs False None ''me'') (zip [0, 1, 8, 9] ?tries) =
      Inr c # List.map_filter (attempt number_addrs False None ''me'') (zip [9] (drop 3 ?tries))"
    using c(1) by (simp add: List.map_filter_simps attempt_def number_addrs_def)
  have d: "tcp_dial number_addrs (\<lambda>_. True) ?n1 ?tries (Some 4607) =
      Returns (Inl ErrPidMismatch, [fst (conn_Close None None c)])"
  proof -
    have "CHR ''p'' \<noteq> CHR ''y''" by simp
    then have ne: "pid_buffer ''y'' \<noteq> replicate 46 (CHR ''p'')"
      by (auto simp: pid_buffer_def IDLength_def dest: arg_cong [where f = hd])
    have wf: "network_wf ?n1" and l: "length ?tries = length (nw_tcpListeners ?n1)"
      using n(2,5,6) by (auto simp: network_wf_def handshake_protocol_def)
    show ?thesis unfolding dial_decided_by_first_success [OF wf l, where canDial = "\<lambda>_. True"] s
      using c(2) a n(5-7) ne by (simp add: ListenAddresses_def number_addrs_def)
  qed
  moreover have "Closed (tc_status (fst (conn_Close None None c)))" "tc_remotePID (fst (conn_Close None None c)) = tc_remotePID c"
    by (simp_all add: conn_Close_def Let_def)
  ultimately show ?thesis using n(1) l c(2) by (auto simp: pid_buffer_def IDLength_def)
qed

end
