(* ===== verification/Host_Interleaving.thy ===== *)
theory Host_Interleaving
  imports Host_Messages
begin

text \<open>
  \<open>host.go\<close>: the goroutine of \<open>acceptConnLoop\<close> and the goroutines of \<open>acceptReceiveStreamLoop\<close>, one for each
  accepted connection, interleaved. Each of them changes the host through its components, whose methods hold a lock
  each; nothing holds a lock over several of them. So \<open>handleNewConnection\<close> and \<open>handleClosingConn\<close> are here
  sequences of steps with one call of a component each; uninterrupted, they are the operations of
  \<open>Host_Connections\<close>.
\<close>

section \<open>The steps of handling a new connection\<close>

text \<open>
  Where \<open>handleNewConnection\<close> is. The number is \<open>myProtocolsLength\<close>; the protocols are \<open>None\<close> when none were exchanged,
  later \<open>exchangeProtocol\<close> is enough. \<open>NewRelease\<close> is the deferred call of \<open>removeConnExclusive\<close>.
\<close>

datatype new_pc =
    NewBlacklist
  | NewExclusive
  | NewAllowed
  | NewConnected
  | NewLength
  | NewExchange nat
  | NewPool nat "protocol_id list option"
  | NewAddPool nat "protocol_id list option" handle
  | NewAddConn nat "protocol_id list option"
  | NewSetProtocols nat "protocol_id list"
  | NewCompare nat
  | NewStartLoop bool
  | NewAddAddress bool
  | NewNotify bool
  | NewRelease bool "host_error option"
  | NewDone bool "host_error option"
  | NewPanicked panic

fun new_step ::
  "('s, 'n, 'm) host_env \<Rightarrow> ('s, 'n, 'm, 'h) new_conn_env \<Rightarrow> handle \<Rightarrow> ('s, 'n, 'm, 'h) host \<times> new_pc
   \<Rightarrow> ('s, 'n, 'm, 'h) host \<times> new_pc" where
  "new_step E V conn (h, NewBlacklist) =
     (h, if BlackConn (he_S E) (blacklist h) (Some (he_conn E conn)) then NewDone False None else NewExclusive)"
| "new_step E V conn (h, NewExclusive) =
     (let (excl, keep, closing) =
            connExclusiveCheck (\<lambda>c. st_direction (conn_status (he_conn E c)))
              (conn_localPID (he_conn E conn)) (rpid E conn) (connExclusive h) conn
      in (close_conns closing (h\<lparr>connExclusive := excl\<rparr>), if keep then NewAllowed else NewDone False None))"
| "new_step E V conn (h, NewAllowed) =
     (h, if Allowed (he_S E) (he_N E) (connMgr h) (rpid E conn) then NewConnected else NewRelease False None)"
| "new_step E V conn (h, NewConnected) =
     (h, if \<not> Connected (he_N E) (connMgr h) (rpid E conn) then NewLength else NewPool 0 None)"
| "new_step E V conn (h, NewLength) = (h, NewExchange (length (localProtocols E h)))"
| "new_step E V conn (h, NewExchange n) =
     (case ne_exchange V of
        Inl err \<Rightarrow> (close_conns [conn] h, NewRelease False (Some (ErrExchange err)))
      | Inr rProtocols \<Rightarrow> (h, NewPool n (Some rProtocols)))"
| "new_step E V conn (h, NewPool n ids) =
     (case ne_pool V of
        None \<Rightarrow> (h, NewPanicked (ExplicitPanic ''failed to call send stream pool builder''))
      | Some pool \<Rightarrow>
          (case ne_init V of
             Some err \<Rightarrow> (close_conns [conn] h, NewRelease False (Some (ErrInitStreams err)))
           | None \<Rightarrow> (h, NewAddPool n ids pool)))"
| "new_step E V conn (h, NewAddPool n ids pool) =
     (let (pools, err) = AddPeerConnSendStreamPool (sendStreamPoolMgr h) (rpid E conn) conn pool;
          h1 = h\<lparr>sendStreamPoolMgr := pools\<rparr>
      in case err of
           Some e \<Rightarrow> (close_conns [conn] h1, NewRelease False (Some (ErrPoolManager e)))
         | None \<Rightarrow> (h1, NewAddConn n ids))"
| "new_step E V conn (h, NewAddConn n ids) =
     (case AddPeerConnection (he_S E) (he_N E) (ne_rnd V) (connMgr h) (rpid E conn) conn of
        Panics p \<Rightarrow> (h, NewPanicked p)
      | Returns (mgr, added, closing) \<Rightarrow>
          (let h1 = close_conns closing (h\<lparr>connMgr := mgr\<rparr>)
           in if \<not> added then (close_conns [conn] h1, NewRelease False None)
              else (h1, case ids of None \<Rightarrow> NewStartLoop False | Some xs \<Rightarrow> NewSetProtocols n xs)))"
| "new_step E V conn (h, NewSetProtocols n ids) =
     (let (pm, err, calls) =
            SetSupportedProtocolsOfPeer (basic_book_ops (he_S E)) (he_ex E) (protocolMgr h) (rpid E conn) ids;
          h1 = h\<lparr>protocolMgr := pm, effects := (effects h)\<lparr>protocolCalls := protocolCalls (effects h) @ calls\<rparr>\<rparr>
      in case err of
           Some e \<Rightarrow> (close_conns [conn] h1, NewRelease False (Some (ErrProtocols e)))
         | None \<Rightarrow> (h1, NewCompare n))"
| "new_step E V conn (h, NewCompare n) =
     (h\<lparr>effects := (effects h)\<lparr>pushes := pushes (effects h) @
          (if n \<noteq> length (localProtocols E h) then [rpid E conn] else [])\<rparr>\<rparr>, NewStartLoop True)"
| "new_step E V conn (h, NewStartLoop x) =
     (h\<lparr>effects := (effects h)\<lparr>acceptLoops := acceptLoops (effects h) @ [conn]\<rparr>\<rparr>, NewAddAddress x)"
| "new_step E V conn (h, NewAddAddress x) =
     (let (a, err) = AddAddress (he_str E) (addresses h) (rpid E conn) [conn_remoteAddr (he_conn E conn)];
          h1 = h\<lparr>addresses := a\<rparr>
      in case err of
           Some e \<Rightarrow> (close_conns [conn] h1, NewRelease False (Some (ErrStore e)))
         | None \<Rightarrow> (h1, NewNotify x))"
| "new_step E V conn (h, NewNotify x) =
     (h\<lparr>effects := (effects h)\<lparr>notifyConnC := notifyConnC (effects h) @ (if x then [conn] else [])\<rparr>\<rparr>, NewRelease True None)"
| "new_step E V conn (h, NewRelease ok err) =
     (h\<lparr>connExclusive := removeConnExclusive (connExclusive h) (rpid E conn)\<rparr>, NewDone ok err)"
| "new_step E V conn (h, NewDone ok err) = (h, NewDone ok err)"
| "new_step E V conn (h, NewPanicked p) = (h, NewPanicked p)"

section \<open>The steps of closing a connection\<close>

text \<open>The argument of \<open>CloseDone\<close> tells whether the connection manager still knew the connection.\<close>

datatype close_pc =
    CloseConn
  | CloseRemove
  | CloseConnected
  | CloseNotify
  | CloseClean
  | CloseAddress
  | ClosePool
  | CloseStreams
  | CloseDone bool
  | ClosePanicked panic

fun close_step ::
  "('s, 'n, 'm) host_env \<Rightarrow> (handle \<Rightarrow> string option) \<Rightarrow> handle \<Rightarrow> ('s, 'n, 'm, 'h) host \<times> close_pc
   \<Rightarrow> ('s, 'n, 'm, 'h) host \<times> close_pc" where
  "close_step E closeErr conn (h, CloseConn) = (close_conns [conn] h, CloseRemove)"
| "close_step E closeErr conn (h, CloseRemove) =
     (let (mgr, removed) = RemovePeerConnection (he_S E) (he_N E) (connMgr h) (rpid E conn) conn
      in (h\<lparr>connMgr := mgr\<rparr>, if removed then CloseConnected else CloseDone False))"
| "close_step E closeErr conn (h, CloseConnected) =
     (h, if \<not> Connected (he_N E) (connMgr h) (rpid E conn) then CloseNotify else CloseAddress)"
| "close_step E closeErr conn (h, CloseNotify) =
     (h\<lparr>effects := (effects h)\<lparr>notifyConnC := notifyConnC (effects h) @ [conn]\<rparr>\<rparr>, CloseClean)"
| "close_step E closeErr conn (h, CloseClean) =
     (case CleanPeer (basic_book_ops (he_S E)) (protocolMgr h) (rpid E conn) of
        Panics p \<Rightarrow> (h, ClosePanicked p)
      | Returns (pm, err, calls) \<Rightarrow>
          (h\<lparr>protocolMgr := pm, effects := (effects h)\<lparr>protocolCalls := protocolCalls (effects h) @ calls\<rparr>\<rparr>, CloseAddress))"
| "close_step E closeErr conn (h, CloseAddress) =
     (h\<lparr>addresses := RemoveAddress (he_str E) (addresses h) (rpid E conn) [conn_remoteAddr (he_conn E conn)]\<rparr>, ClosePool)"
| "close_step E closeErr conn (h, ClosePool) =
     (let (pools, closedP, err) = RemovePeerConnAndCloseSendStreamPool closeErr (sendStreamPoolMgr h) (rpid E conn) conn
      in (h\<lparr>sendStreamPoolMgr := pools, effects := (effects h)\<lparr>closedPools := closedPools (effects h) @ closedP\<rparr>\<rparr>,
          CloseStreams))"
| "close_step E closeErr conn (h, CloseStreams) =
     (let (streams, closedS) = ClosePeerReceiveStreams (he_N E) (receiveStreamMgr h) (rpid E conn) conn
      in (h\<lparr>receiveStreamMgr := streams, effects := (effects h)\<lparr>closedStreams := closedStreams (effects h) @ closedS\<rparr>\<rparr>,
          CloseDone True))"
| "close_step E closeErr conn (h, CloseDone removed) = (h, CloseDone removed)"
| "close_step E closeErr conn (h, ClosePanicked p) = (h, ClosePanicked p)"

section \<open>Uninterrupted runs\<close>

fun new_outcome :: "('s, 'n, 'm, 'h) host \<times> new_pc \<Rightarrow> (('s, 'n, 'm, 'h) host \<times> bool \<times> host_error option) run option" where
  "new_outcome (h, NewDone ok err) = Some (Returns (h, ok, err))"
| "new_outcome (h, NewPanicked p) = Some (Panics p)"
| "new_outcome _ = None"

fun close_outcome :: "('s, 'n, 'm, 'h) host \<times> close_pc \<Rightarrow> ('s, 'n, 'm, 'h) host run option" where
  "close_outcome (h, CloseDone removed) = Some (Returns h)"
| "close_outcome (h, ClosePanicked p) = Some (Panics p)"
| "close_outcome _ = None"

lemma funpow_Suc_start: "(f ^^ Suc n) x = (f ^^ n) (f x)"
  by (simp add: funpow_swap1)

lemma funpow_later: "a + b = m + k \<Longrightarrow> (f ^^ (a + b)) x = (f ^^ m) ((f ^^ k) x)"
  by (simp add: funpow_add)

lemma few_steps: "(f ^^ 2) x = f (f x)" "(f ^^ 4) x = f (f (f (f x)))"
  by (simp_all add: numeral_eq_Suc)

lemma new_stays: "(new_step E V conn ^^ n) (h, NewDone ok err) = (h, NewDone ok err)"
    "(new_step E V conn ^^ n) (h, NewPanicked p) = (h, NewPanicked p)"
  by (induction n) simp_all

lemma new_releases: "0 < n \<Longrightarrow> (new_step E V conn ^^ n) (h, NewRelease ok err) =
    (h\<lparr>connExclusive := removeConnExclusive (connExclusive h) (rpid E conn)\<rparr>, NewDone ok err)"
  by (cases n) (simp_all add: funpow_Suc_start new_stays del: funpow.simps)

lemma close_stays: "(close_step E closeErr conn ^^ n) (h, CloseDone ok) = (h, CloseDone ok)"
    "(close_step E closeErr conn ^^ n) (h, ClosePanicked p) = (h, ClosePanicked p)"
  by (induction n) simp_all

text \<open>Enough steps of what follows a point, composed with the deferred call.\<close>

definition released :: "('s, 'n, 'm) host_env \<Rightarrow> handle \<Rightarrow> (('s, 'n, 'm, 'h) host \<times> bool \<times> host_error option) run
   \<Rightarrow> (('s, 'n, 'm, 'h) host \<times> bool \<times> host_error option) run" where
  "released E conn r = run_bind r (\<lambda>(h2, ok, err).
     Returns (h2\<lparr>connExclusive := removeConnExclusive (connExclusive h2) (rpid E conn)\<rparr>, ok, err))"

lemma released_simps [simp]:
  "released E conn (Returns (h2, ok, err)) =
     Returns (h2\<lparr>connExclusive := removeConnExclusive (connExclusive h2) (rpid E conn)\<rparr>, ok, err)"
  "released E conn (Panics p) = Panics p"
  by (simp_all add: released_def)

lemmas run_steps = funpow_Suc_start new_stays close_stays

lemma steps_from_AddConn:
  "new_outcome ((new_step E V conn ^^ Suc (Suc (Suc (Suc (Suc (Suc (Suc n))))))) (h, NewAddConn k ids)) =
     Some (released E conn (register_connection E V conn k ids h))"
proof (cases "AddPeerConnection (he_S E) (he_N E) (ne_rnd V) (connMgr h) (rpid E conn) conn")
  case (Panics p)
  then show ?thesis by (simp add: run_steps register_connection_def del: funpow.simps)
next
  case (Returns r)
  then obtain mgr added closing where
    a: "AddPeerConnection (he_S E) (he_N E) (ne_rnd V) (connMgr h) (rpid E conn) conn = Returns (mgr, added, closing)"
    by (cases r) auto
  show ?thesis
  proof (cases "added \<and> ids \<noteq> None")
    case False
    then show ?thesis
      by (cases added; cases ids)
        (simp_all add: a run_steps register_connection_def Let_def close_conns_def del: funpow.simps)
  next
    case True
    then obtain xs where ids: "added" "ids = Some xs" by auto
    obtain pm err calls where
      "SetSupportedProtocolsOfPeer (basic_book_ops (he_S E)) (he_ex E) (protocolMgr h) (rpid E conn) xs = (pm, err, calls)"
      by (rule prod_cases3)
    then show ?thesis using ids
      by (cases err) (simp_all add: a run_steps register_connection_def Let_def close_conns_def localProtocols_def
          del: funpow.simps)
  qed
qed

lemma steps_from_Pool:
  "new_outcome ((new_step E V conn ^^ Suc (Suc (Suc (Suc (Suc (Suc (Suc (Suc (Suc n))))))))) (h, NewPool k ids)) =
     Some (released E conn (open_pool E V conn k ids h))"
proof (cases "ne_pool V = None \<or> ne_init V \<noteq> None")
  case True
  then show ?thesis by (auto simp: run_steps open_pool_def close_conns_def simp del: funpow.simps split: option.splits)
next
  case False
  then obtain pool where v: "ne_pool V = Some pool" "ne_init V = None" by auto
  obtain pools err where p: "AddPeerConnSendStreamPool (sendStreamPoolMgr h) (rpid E conn) conn pool = (pools, err)"
    by fastforce
  show ?thesis
  proof (cases err)
    case None
    have "new_outcome ((new_step E V conn ^^ Suc (Suc (Suc (Suc (Suc (Suc (Suc n)))))))
        (h\<lparr>sendStreamPoolMgr := pools\<rparr>, NewAddConn k ids)) =
      Some (released E conn (register_connection E V conn k ids (h\<lparr>sendStreamPoolMgr := pools\<rparr>)))"
      by (rule steps_from_AddConn)
    then show ?thesis
      by (subst funpow_Suc_start, subst funpow_Suc_start) (simp add: v p None open_pool_def del: funpow.simps)
  qed (simp add: v p run_steps open_pool_def Let_def close_conns_def del: funpow.simps)
qed

lemma steps_from_Allowed:
  assumes "ne_during V = (\<lambda>h. h)"
  shows "new_outcome ((new_step E V conn ^^ (13 + n)) (h, NewAllowed)) = Some (released E conn (admit E V conn h))"
proof -
  have pool: "new_outcome ((new_step E V conn ^^ (9 + m)) (g, NewPool k ids)) = Some (released E conn (open_pool E V conn k ids g))"
    for m k ids g
    using steps_from_Pool [where E = E and V = V and conn = conn and h = g and k = k and ids = ids and n = m] by (simp add: numeral_eq_Suc)
  have s: "(f ^^ (13 + n)) x = (f ^^ (9 + n)) (f (f (f (f x))))" "(f ^^ (13 + n)) x = (f ^^ (9 + (n + 2))) (f (f x))"
    for f :: "('a, 'b, 'c, 'd) host \<times> new_pc \<Rightarrow> _" and x
    using funpow_later [of 13 n "9 + n" 4 f x] funpow_later [of 13 n "9 + (n + 2)" 2 f x]
    by (simp_all add: few_steps del: funpow.simps)
  consider "\<not> Allowed (he_S E) (he_N E) (connMgr h) (rpid E conn)"
    | "Allowed (he_S E) (he_N E) (connMgr h) (rpid E conn)" "Connected (he_N E) (connMgr h) (rpid E conn)"
    | "Allowed (he_S E) (he_N E) (connMgr h) (rpid E conn)" "\<not> Connected (he_N E) (connMgr h) (rpid E conn)" by blast
  then show ?thesis
  proof cases
    case 1
    then show ?thesis by (simp add: s(1) new_stays admit_def)
  next
    case 2
    then show ?thesis using pool [of "n + 2" h 0 None] by (simp only: s(2)) (simp add: admit_def)
  next
    case 3
    then show ?thesis
      by (cases "ne_exchange V"; simp only: s(1))
        (simp_all add: new_releases admit_def pool assms Let_def)
  qed
qed

lemma steps_of_handleNewConnection:
  assumes "ne_during V = (\<lambda>h. h)"
  shows "new_outcome ((new_step E V conn ^^ 15) (h, NewBlacklist)) = Some (handleNewConnection E V conn h)"
proof -
  obtain excl keep closing where c: "connExclusiveCheck (\<lambda>c. st_direction (conn_status (he_conn E c)))
      (conn_localPID (he_conn E conn)) (rpid E conn) (connExclusive h) conn = (excl, keep, closing)" by (rule prod_cases3)
  have s: "(f ^^ 15) x = (f ^^ 13) (f (f x))" for f :: "('a, 'b, 'c, 'd) host \<times> new_pc \<Rightarrow> _" and x
    using funpow_later [of 13 2 13 2 f x] by (simp add: few_steps del: funpow.simps)
  show ?thesis
    unfolding s using steps_from_Allowed [OF assms, where E = E and conn = conn and n = 0]
    by (cases "BlackConn (he_S E) (blacklist h) (Some (he_conn E conn))"; cases keep)
      (simp_all add: new_stays c handleNewConnection_def released_def Let_def)
qed

lemma steps_of_handleClosingConn:
  "close_outcome ((close_step E closeErr conn ^^ 8) (h, CloseConn)) = Some (handleClosingConn E closeErr conn h)"
proof -
  obtain mgr removed where m: "RemovePeerConnection (he_S E) (he_N E) (connMgr h) (rpid E conn) conn = (mgr, removed)"
    by fastforce
  obtain pools closedP err where p:
    "RemovePeerConnAndCloseSendStreamPool closeErr (sendStreamPoolMgr h) (rpid E conn) conn = (pools, closedP, err)"
    by (rule prod_cases3)
  obtain streams closedS where c: "ClosePeerReceiveStreams (he_N E) (receiveStreamMgr h) (rpid E conn) conn = (streams, closedS)"
    by fastforce
  note simps = run_steps m p c numeral_eq_Suc handleClosingConn_def Let_def close_conns_def
  show ?thesis
  proof (cases "CleanPeer (basic_book_ops (he_S E)) (protocolMgr h) (rpid E conn)")
    case (Panics x)
    then show ?thesis
      by (cases removed; cases "Connected (he_N E) mgr (rpid E conn)") (simp_all add: simps del: funpow.simps)
  next
    case (Returns r)
    then obtain pm e calls where "CleanPeer (basic_book_ops (he_S E)) (protocolMgr h) (rpid E conn) = Returns (pm, e, calls)"
      by (cases r) auto
    then show ?thesis
      by (cases removed; cases "Connected (he_N E) mgr (rpid E conn)") (simp_all add: simps del: funpow.simps)
  qed
qed

section \<open>The goroutines together\<close>

text \<open>
  The loop of a connection: not started, running, in \<open>handleClosingConn\<close>, or ended without it (because the host
  is closed, or because \<open>AcceptReceiveStream\<close> failed on a closed connection). \<open>sys_new\<close> is the connection
  that \<open>acceptConnLoop\<close> handles; \<open>sys_seen\<close> are the connections that have come so far.
\<close>

datatype conn_loop = LoopNotStarted | LoopRuns | LoopCloses close_pc | LoopGone

record ('s, 'n, 'm, 'h) conn_sys =
  sys_host :: "('s, 'n, 'm, 'h) host"
  sys_new :: "(handle \<times> new_pc) option"
  sys_loops :: "handle \<Rightarrow> conn_loop"
  sys_seen :: "handle set"

text \<open>
  A connection may be seen closed at any time. Besides the steps of the goroutines: streams that a running
  loop accepts, streams whose handler loop ends, and peers whose protocols are announced by a push.
\<close>

datatype ('s, 'n, 'm, 'h) sys_event =
    Arrive handle
  | StepNew "('s, 'n, 'm, 'h) new_conn_env"
  | SeeClosed handle
  | LeaveLoop handle
  | StepClose "handle \<Rightarrow> string option" handle
  | AcceptStream handle handle
  | EndStream handle handle
  | Announce peer_id "protocol_id list"

fun is_over :: "new_pc \<Rightarrow> bool" where
  "is_over (NewDone _ _) = True"
| "is_over (NewPanicked _) = False"
| "is_over _ = False"

text \<open>A panic ends the goroutine of \<open>acceptConnLoop\<close>; a finished \<open>handleNewConnection\<close> waits for the next connection.\<close>

fun sys_exec ::
  "('s, 'n, 'm) host_env \<Rightarrow> ('s, 'n, 'm, 'h) sys_event \<Rightarrow> ('s, 'n, 'm, 'h) conn_sys \<Rightarrow> ('s, 'n, 'm, 'h) conn_sys option"
where
  "sys_exec E (Arrive conn) s =
     (if (case sys_new s of None \<Rightarrow> True | Some (_, pc) \<Rightarrow> is_over pc) \<and> conn \<notin> sys_seen s
      then Some (s\<lparr>sys_new := Some (conn, NewBlacklist), sys_seen := insert conn (sys_seen s)\<rparr>) else None)"
| "sys_exec E (StepNew V) s =
     (case sys_new s of
        None \<Rightarrow> None
      | Some (conn, pc) \<Rightarrow>
          (let (h, pc') = new_step E V conn (sys_host s, pc)
           in Some (s\<lparr>sys_host := h, sys_new := Some (conn, pc'),
                sys_loops := (case pc of NewStartLoop _ \<Rightarrow> (sys_loops s)(conn := LoopRuns) | _ \<Rightarrow> sys_loops s)\<rparr>)))"
| "sys_exec E (SeeClosed conn) s =
     (if sys_loops s conn = LoopRuns then Some (s\<lparr>sys_loops := (sys_loops s)(conn := LoopCloses CloseConn)\<rparr>) else None)"
| "sys_exec E (LeaveLoop conn) s =
     (if sys_loops s conn = LoopRuns then Some (s\<lparr>sys_loops := (sys_loops s)(conn := LoopGone)\<rparr>) else None)"
| "sys_exec E (StepClose closeErr conn) s =
     (case sys_loops s conn of
        LoopCloses pc \<Rightarrow>
          (let (h, pc') = close_step E closeErr conn (sys_host s, pc)
           in Some (s\<lparr>sys_host := h, sys_loops := (sys_loops s)(conn := LoopCloses pc')\<rparr>))
      | _ \<Rightarrow> None)"
| "sys_exec E (AcceptStream conn stream) s =
     (if sys_loops s conn = LoopRuns
      then Some (s\<lparr>sys_host := fst (handleReceiveStream E conn stream (sys_host s))\<rparr>) else None)"
| "sys_exec E (EndStream conn stream) s =
     Some (s\<lparr>sys_host := (sys_host s)
       \<lparr>receiveStreamMgr := RemovePeerReceiveStream (he_N E) (rpid E) (receiveStreamMgr (sys_host s)) conn stream,
        effects := (effects (sys_host s))\<lparr>closedStreams := closedStreams (effects (sys_host s)) @ [stream]\<rparr>\<rparr>\<rparr>)"
| "sys_exec E (Announce pid ids) s =
     (let (pm, err, calls) =
            SetSupportedProtocolsOfPeer (basic_book_ops (he_S E)) (he_ex E) (protocolMgr (sys_host s)) pid ids
      in Some (s\<lparr>sys_host := (sys_host s)\<lparr>protocolMgr := pm,
           effects := (effects (sys_host s))\<lparr>protocolCalls := protocolCalls (effects (sys_host s)) @ calls\<rparr>\<rparr>\<rparr>))"

fun sys_run ::
  "('s, 'n, 'm) host_env \<Rightarrow> ('s, 'n, 'm, 'h) sys_event list \<Rightarrow> ('s, 'n, 'm, 'h) conn_sys \<Rightarrow> ('s, 'n, 'm, 'h) conn_sys option"
where
  "sys_run E [] s = Some s"
| "sys_run E (e # es) s = (case sys_exec E e s of None \<Rightarrow> None | Some s' \<Rightarrow> sys_run E es s')"

section \<open>What the connection manager holds\<close>

text \<open>
  A low-level entry of a peer is hidden by a high-level one, so the connections a lookup finds can grow when an entry is
  removed. \<open>lcm_holds\<close> looks at all entries.
\<close>

definition lcm_holds :: "(handle, 'n) set_ops \<Rightarrow> ('s, 'n) lcm \<Rightarrow> peer_id \<Rightarrow> handle \<Rightarrow> bool" where
  "lcm_holds C l pid conn \<longleftrightarrow>
     (\<exists>e\<in>set (highLevelConn l) \<union> set (lowLevelConn l). pc_pid e = pid \<and> conn \<in> elems C (pc_connSet e))"

lemma conns_held: "conn \<in> lcm_conns C l pid \<Longrightarrow> lcm_holds C l pid conn"
  by (force simp: lcm_conns_def lcm_lookup_def lcm_holds_def split: option.splits dest!: conn_set_of_in)

lemma set_list_update_cases: "x \<in> set (xs[i := y]) \<Longrightarrow> x \<in> set xs \<or> x = y"
  using set_update_subset_insert [of xs i y] by blast

lemma holds_with_entry:
  assumes "set_laws C" and "lcm_holds C (with_entry P C l pid c) q d"
  shows "lcm_holds C l q d \<or> q = pid \<and> d = c"
  using assms by (auto simp: lcm_holds_def with_entry_def Let_def set_simps split: if_splits)

lemma holds_fewer:
  assumes "lcm_holds C l' q d" and "set (highLevelConn l') \<subseteq> set (highLevelConn l)" "set (lowLevelConn l') \<subseteq> set (lowLevelConn l)"
  shows "lcm_holds C l q d"
  using assms by (auto simp: lcm_holds_def)

lemma holds_with_conn:
  assumes C: "set_laws C" and e: "level_entry P l pid = Some (s, i)"
    and h: "lcm_holds C (with_conn P C l pid i (fst (set_put C s c))) q d"
  shows "lcm_holds C l q d \<or> q = pid \<and> d = c"
proof -
  let ?cs = "if set_exist P (highLevelPeers l) pid then highLevelConn l else lowLevelConn l"
  have i: "i < length ?cs" "pc_pid (?cs ! i) = pid" "pc_connSet (?cs ! i) = s"
    using e by (auto simp: level_entry_def getHighLevelConnections_def getLowLevelConnections_def
        dest: scan_connections_SomeD split: if_splits)
  have "?cs ! i \<in> set ?cs" using i(1) by (rule nth_mem)
  then have "lcm_holds C l pid d" if "d \<in> elems C s" for d
    using that i(2,3) by (auto simp: lcm_holds_def split: if_splits)
  moreover have "lcm_holds C l q d \<or> q = pid \<and> d \<in> elems C (fst (set_put C s c))"
    using h i(2) by (auto simp: lcm_holds_def with_conn_def split: if_splits dest!: set_list_update_cases)
  ultimately show ?thesis using C by (auto simp: set_simps)
qed

lemma holds_add:
  assumes "set_laws P" and C: "set_laws C" and wf: "lcm_wf P C l"
    and r: "AddPeerConnection P C rnd l pid c = Returns (l', added, closed)" and h: "lcm_holds C l' q d"
  shows "lcm_holds C l q d \<or> q = pid \<and> d = c"
  using assms(1) wf
proof (cases rule: AddPeerConnection_outcome [where rnd = rnd and pid = pid and conn = c])
  case (existing s i)
  then show ?thesis using r h holds_with_conn [OF C existing(1)] by simp
next
  case new
  then show ?thesis using r h holds_with_entry [OF C, of P l pid c q d] by simp
next
  case (low w i)
  have "lcm_holds C w q d"
    by (rule holds_fewer [OF h]) (use r low(6) set_slice_delete [of "lowLevelConn w" i] in auto)
  then show ?thesis using holds_with_entry [OF C, of P l pid c q d] low(2) by simp
next
  case (high w i)
  have "lcm_holds C w q d"
    by (rule holds_fewer [OF h]) (use r high(8) set_slice_delete [of "highLevelConn w" i] in auto)
  then show ?thesis using holds_with_entry [OF C, of P l pid c q d] high(2) by simp
qed

lemma conn_set_of_distinct:
  "distinct (map pc_pid cs) \<Longrightarrow> e \<in> set cs \<Longrightarrow> conn_set_of cs (pc_pid e) = Some (pc_connSet e)"
  by (induction cs) (auto simp: rev_image_eqI)

lemma holds_remove:
  assumes P: "set_laws P" and C: "set_laws C" and wf: "lcm_wf P C l"
    and r: "RemovePeerConnection P C l pid c = (l', removed)" and h: "lcm_holds C l' q d"
  shows "lcm_holds C l q d \<and> \<not> (q = pid \<and> d = c)"
proof -
  have d: "distinct (map pc_pid (highLevelConn l))" "distinct (map pc_pid (lowLevelConn l))"
    using wf by (simp_all add: lcm_wf_def)
  have l': "l' = fst (RemovePeerConnection P C l pid c)" using r by simp
  have "\<not> (q = pid \<and> d = c)"
    using h conn_set_of_distinct [OF d(1)] conn_set_of_distinct [OF d(2)]
    by (auto simp: l' RemovePeerConnection_spec [OF P C wf] lcm_holds_def recorded_def forget_def
        split: if_splits option.splits)
  moreover have "lcm_holds C l q d"
    by (rule holds_fewer [OF h]) (auto simp: l' RemovePeerConnection_spec [OF P C wf] forget_def split: if_splits)
  ultimately show ?thesis by blast
qed

section \<open>What a step changes\<close>

text \<open>The points of \<open>handleNewConnection\<close> before the loop of the connection is started.\<close>

fun early :: "new_pc \<Rightarrow> bool" where
  "early (NewAddAddress _) = False"
| "early (NewNotify _) = False"
| "early (NewRelease _ _) = False"
| "early (NewDone _ _) = False"
| "early (NewPanicked _) = False"
| "early _ = True"

abbreviation host_holds :: "('s, 'n, 'm) host_env \<Rightarrow> ('s, 'n, 'm, 'h) host \<Rightarrow> handle \<Rightarrow> bool" where
  "host_holds E h c \<equiv> lcm_holds (he_N E) (connMgr h) (rpid E c) c"

abbreviation host_pool :: "('s, 'n, 'm) host_env \<Rightarrow> ('s, 'n, 'm, 'h) host \<Rightarrow> handle \<Rightarrow> handle option" where
  "host_pool E h c \<equiv> spm_view (sendStreamPoolMgr h) (rpid E c) c"

abbreviation host_streams :: "('s, 'n, 'm) host_env \<Rightarrow> ('s, 'n, 'm, 'h) host \<Rightarrow> handle \<Rightarrow> handle set" where
  "host_streams E h c \<equiv> rsm_view (he_N E) (rpid E) (receiveStreamMgr h) c"

lemma new_step_other:
  assumes wf: "host_wf E h" and r: "new_step E V conn (h, pc) = (h', pc')"
  shows "host_wf E h'" and "receiveStreamMgr h' = receiveStreamMgr h"
    and "c \<noteq> conn \<or> \<not> early pc \<Longrightarrow> host_holds E h' c \<Longrightarrow> host_holds E h c"
    and "c \<noteq> conn \<or> \<not> early pc \<Longrightarrow> host_pool E h' c = host_pool E h c"
proof -
  note laws = host_wf_laws [OF wf]
  have "host_wf E h' \<and> receiveStreamMgr h' = receiveStreamMgr h \<and>
    (c \<noteq> conn \<or> \<not> early pc \<longrightarrow> (host_holds E h' c \<longrightarrow> host_holds E h c) \<and> host_pool E h' c = host_pool E h c)"
  proof (cases pc)
    case (NewAddPool n ids pool)
    obtain pools err where p: "AddPeerConnSendStreamPool (sendStreamPoolMgr h) (rpid E conn) conn pool = (pools, err)"
      by fastforce
    from spm.add_law [OF laws(5) p] show ?thesis
      using r p wf NewAddPool by (auto simp: host_wf_def Let_def split: option.splits if_splits)
  next
    case (NewAddConn n ids)
    obtain mgr added closing where
      a: "AddPeerConnection (he_S E) (he_N E) (ne_rnd V) (connMgr h) (rpid E conn) conn = Returns (mgr, added, closing)"
      and w: "lcm_wf (he_S E) (he_N E) mgr"
      using lcm.add_law [of "he_S E" "he_N E" "connMgr h" "ne_rnd V" "rpid E conn" conn] laws(1-3) by blast
    have "lcm_holds (he_N E) mgr (rpid E c) c \<Longrightarrow> host_holds E h c \<or> c = conn" using holds_add [OF laws(1-3) a] by blast
    then show ?thesis
      using r a w wf NewAddConn by (auto simp: host_wf_def Let_def split: option.splits if_splits)
  next
    case (NewSetProtocols n ids)
    obtain pm calls where "SetSupportedProtocolsOfPeer (basic_book_ops (he_S E)) (he_ex E) (protocolMgr h) (rpid E conn) ids = (pm, None, calls)"
      "pm_unsupportedCallback pm = Some False"
      by (rule SetSupported_host [OF wf, where ex = "he_ex E" and pid = "rpid E conn" and ids = ids])
    then show ?thesis using r wf NewSetProtocols by (auto simp: host_wf_def)
  qed (use r wf in \<open>auto simp: host_wf_def Let_def split: option.splits sum.splits prod.splits if_splits\<close>)
  then show "host_wf E h'" and "receiveStreamMgr h' = receiveStreamMgr h"
    and "c \<noteq> conn \<or> \<not> early pc \<Longrightarrow> host_holds E h' c \<Longrightarrow> host_holds E h c"
    and "c \<noteq> conn \<or> \<not> early pc \<Longrightarrow> host_pool E h' c = host_pool E h c" by blast+
qed

lemma new_step_early: "new_step E V conn (h, pc) = (h', pc') \<Longrightarrow> early pc' \<Longrightarrow> early pc \<and> (\<forall>x. pc \<noteq> NewStartLoop x)"
  by (cases pc) (auto simp: Let_def split: option.splits sum.splits prod.splits if_splits run.splits)


lemma close_step_other:
  assumes wf: "host_wf E h" and r: "close_step E closeErr conn (h, pc) = (h', pc')"
  shows "host_wf E h'"
    and "host_holds E h' c \<Longrightarrow> host_holds E h c \<and> \<not> (pc = CloseRemove \<and> c = conn)"
    and "host_pool E h' c = (if pc = ClosePool \<and> c = conn then None else host_pool E h c)"
    and "host_streams E h' c = (if pc = CloseStreams \<and> c = conn then {} else host_streams E h c)"
proof -
  note laws = host_wf_laws [OF wf]
  have "host_wf E h' \<and> (host_holds E h' c \<longrightarrow> host_holds E h c \<and> \<not> (pc = CloseRemove \<and> c = conn)) \<and>
    host_pool E h' c = (if pc = ClosePool \<and> c = conn then None else host_pool E h c) \<and>
    host_streams E h' c = (if pc = CloseStreams \<and> c = conn then {} else host_streams E h c)"
  proof (cases pc)
    case CloseRemove
    obtain mgr removed where m: "RemovePeerConnection (he_S E) (he_N E) (connMgr h) (rpid E conn) conn = (mgr, removed)"
      by fastforce
    have "lcm_wf (he_S E) (he_N E) mgr"
      using lcm.remove_law [of "he_S E" "he_N E" "connMgr h" "rpid E conn" conn mgr removed] laws(1-3) m by blast
    moreover have "lcm_holds (he_N E) mgr (rpid E c) c \<Longrightarrow> host_holds E h c \<and> c \<noteq> conn"
      using holds_remove [OF laws(1-3) m] by blast
    ultimately show ?thesis using r m CloseRemove laws by (auto simp: host_wf_def)
  next
    case CloseClean
    obtain pm calls where "CleanPeer (basic_book_ops (he_S E)) (protocolMgr h) (rpid E conn) = Returns (pm, None, calls)"
      "pm_unsupportedCallback pm = Some False" using CleanPeer_host [OF wf] by metis
    then show ?thesis using r wf CloseClean by (auto simp: host_wf_def)
  next
    case ClosePool
    obtain pools closedP err where p:
      "RemovePeerConnAndCloseSendStreamPool closeErr (sendStreamPoolMgr h) (rpid E conn) conn = (pools, closedP, err)"
      by (rule prod_cases3)
    from spm.remove_law [OF laws(5) p] show ?thesis
      using r p wf ClosePool by (auto simp: host_wf_def split: option.splits)
  next
    case CloseStreams
    obtain streams closedS where s:
      "ClosePeerReceiveStreams (he_N E) (receiveStreamMgr h) (rpid E conn) conn = (streams, closedS)" by fastforce
    from Close_ok [OF laws(2,4) refl s] show ?thesis
      using r s wf CloseStreams by (auto simp: host_wf_def)
  qed (use r wf in \<open>auto simp: host_wf_def\<close>)
  then show "host_wf E h'"
    and "host_holds E h' c \<Longrightarrow> host_holds E h c \<and> \<not> (pc = CloseRemove \<and> c = conn)"
    and "host_pool E h' c = (if pc = ClosePool \<and> c = conn then None else host_pool E h c)"
    and "host_streams E h' c = (if pc = CloseStreams \<and> c = conn then {} else host_streams E h c)" by blast+
qed

section \<open>The invariant\<close>

definition sys_start :: "('s, 'n, 'm, 'h) host \<Rightarrow> ('s, 'n, 'm, 'h) conn_sys" where
  "sys_start h = \<lparr>sys_host = h, sys_new = None, sys_loops = (\<lambda>_. LoopNotStarted), sys_seen = {}\<rparr>"

text \<open>What a closing connection has lost, from its removal and from the closing of its pool on.\<close>

definition removed_from_manager :: "close_pc \<Rightarrow> bool" where
  "removed_from_manager pc \<longleftrightarrow> pc \<noteq> CloseConn \<and> pc \<noteq> CloseRemove"

definition pool_closed :: "close_pc \<Rightarrow> bool" where
  "pool_closed pc \<longleftrightarrow> pc = CloseStreams \<or> pc = CloseDone True"

definition close_inv :: "('s, 'n, 'm) host_env \<Rightarrow> ('s, 'n, 'm, 'h) host \<Rightarrow> handle \<Rightarrow> close_pc \<Rightarrow> bool" where
  "close_inv E h c pc \<longleftrightarrow> (removed_from_manager pc \<longrightarrow> \<not> host_holds E h c) \<and>
     (pool_closed pc \<longrightarrow> host_pool E h c = None) \<and> (pc = CloseDone True \<longrightarrow> host_streams E h c = {}) \<and>
     (\<forall>p. pc \<noteq> ClosePanicked p)"

definition sys_inv :: "('s, 'n, 'm) host_env \<Rightarrow> ('s, 'n, 'm, 'h) conn_sys \<Rightarrow> bool" where
  "sys_inv E s \<longleftrightarrow> host_wf E (sys_host s) \<and>
     (\<forall>c pc. sys_loops s c = LoopCloses pc \<longrightarrow> close_inv E (sys_host s) c pc) \<and>
     (\<forall>c. c \<notin> sys_seen s \<longrightarrow> sys_loops s c = LoopNotStarted) \<and>
     (\<forall>c pc. sys_new s = Some (c, pc) \<longrightarrow> c \<in> sys_seen s \<and> (early pc \<longrightarrow> sys_loops s c = LoopNotStarted))"

lemma sys_inv_start: "host_wf E h \<Longrightarrow> sys_inv E (sys_start h)"
  by (simp add: sys_inv_def sys_start_def)

lemma close_inv_mono:
  assumes "close_inv E h c pc" and "host_holds E h' c \<Longrightarrow> host_holds E h c"
    and "host_pool E h c = None \<Longrightarrow> host_pool E h' c = None" and "host_streams E h' c \<subseteq> host_streams E h c"
  shows "close_inv E h' c pc"
  using assms by (auto simp: close_inv_def)

lemma close_step_inv:
  assumes wf: "host_wf E h" and inv: "close_inv E h conn pc" and r: "close_step E closeErr conn (h, pc) = (h', pc')"
  shows "close_inv E h' conn pc'"
proof -
  note o = close_step_other [OF wf r]
  have "\<not> (\<exists>p. pc' = ClosePanicked p)"
  proof (cases "pc = CloseClean")
    case True
    obtain pm calls where "CleanPeer (basic_book_ops (he_S E)) (protocolMgr h) (rpid E conn) = Returns (pm, None, calls)"
      using CleanPeer_host [OF wf] by metis
    then show ?thesis using r True by auto
  qed (use r inv in \<open>cases pc; auto simp: close_inv_def split: prod.splits if_splits\<close>)
  moreover have "removed_from_manager pc' \<Longrightarrow> removed_from_manager pc \<or> pc = CloseRemove"
    using r by (cases pc) (auto simp: removed_from_manager_def)
  moreover have "pool_closed pc' \<Longrightarrow> pool_closed pc \<or> pc = ClosePool"
    using r by (cases pc) (auto simp: pool_closed_def split: prod.splits if_splits run.splits)
  moreover have "pc' = CloseDone True \<Longrightarrow> pc = CloseDone True \<or> pc = CloseStreams"
    using r by (cases pc) (auto split: prod.splits if_splits run.splits)
  ultimately show ?thesis
    using inv o(2) [of conn] o(3) [of conn] o(4) [of conn] by (auto simp: close_inv_def)
qed

lemma SetSupported_wf:
  assumes wf: "host_wf E h" and "SetSupportedProtocolsOfPeer (basic_book_ops (he_S E)) (he_ex E) (protocolMgr h) pid ids = (pm, err, calls)"
  shows "host_wf E (h\<lparr>protocolMgr := pm, effects := x\<rparr>)"
  using SetSupported_host [OF wf, where ex = "he_ex E" and pid = pid and ids = ids] assms by (auto simp: host_wf_def)

lemma sys_inv_host:
  assumes inv: "sys_inv E s" and "host_wf E h'"
    and "\<And>c. host_holds E h' c \<Longrightarrow> host_holds E (sys_host s) c"
    and "\<And>c. host_pool E h' c = host_pool E (sys_host s) c"
    and "\<And>c pc. sys_loops s c = LoopCloses pc \<Longrightarrow> host_streams E h' c \<subseteq> host_streams E (sys_host s) c"
  shows "sys_inv E (s\<lparr>sys_host := h'\<rparr>)"
proof -
  have "close_inv E h' c pc" if l: "sys_loops s c = LoopCloses pc" for c pc
  proof (rule close_inv_mono)
    show "close_inv E (sys_host s) c pc" using inv l by (simp add: sys_inv_def)
  qed (use assms(3-5) l in auto)
  then show ?thesis using inv assms(2) by (simp add: sys_inv_def)
qed

lemma sys_inv_new:
  assumes inv: "sys_inv E s" and n: "sys_new s = Some (conn, pc)" and wf: "host_wf E h'"
    and cl: "\<And>c p. sys_loops s c = LoopCloses p \<Longrightarrow> close_inv E h' c p"
    and e: "early pc' \<Longrightarrow> early pc \<and> (\<forall>x. pc \<noteq> NewStartLoop x)"
  shows "sys_inv E (s\<lparr>sys_host := h', sys_new := Some (conn, pc'), sys_loops :=
    (case pc of NewStartLoop _ \<Rightarrow> (sys_loops s)(conn := LoopRuns) | _ \<Rightarrow> sys_loops s)\<rparr>)"
proof (cases "\<exists>x. pc = NewStartLoop x")
  case True
  then have "\<not> early pc'" using e by blast
  then show ?thesis using True inv n wf cl by (auto simp: sys_inv_def split: if_split_asm)
next
  case False
  then have "(case pc of NewStartLoop _ \<Rightarrow> (sys_loops s)(conn := LoopRuns) | _ \<Rightarrow> sys_loops s) = sys_loops s"
    by (cases pc) auto
  then show ?thesis using inv n wf cl e by (simp add: sys_inv_def)
qed

lemma stream_events_inv:
  assumes inv: "sys_inv E s" and e: "e = AcceptStream conn stream \<or> e = EndStream conn stream"
    and r: "sys_exec E e s = Some s'"
  shows "sys_inv E s'"
proof -
  let ?h = "sys_host s"
  note laws = host_wf_laws [of E ?h]
  have wf: "host_wf E ?h" using inv by (simp add: sys_inv_def)
  have "sys_inv E (s\<lparr>sys_host := ?h\<lparr>receiveStreamMgr := rs, effects := x\<rparr>\<rparr>)"
    if "rsm_wf (he_N E) (rpid E) rs" "\<And>c pc. sys_loops s c = LoopCloses pc \<Longrightarrow>
      rsm_view (he_N E) (rpid E) rs c \<subseteq> host_streams E ?h c" for rs x
    by (rule sys_inv_host [OF inv]) (use wf that in \<open>auto simp: host_wf_def\<close>)
  note upd = this
  show ?thesis
    using e
  proof
    assume "e = AcceptStream conn stream"
    then have s': "sys_loops s conn = LoopRuns" "s' = s\<lparr>sys_host := fst (handleReceiveStream E conn stream ?h)\<rparr>"
      using r by (auto split: if_splits)
    obtain rs err where a: "AddPeerReceiveStream (he_N E) (rpid E) (receiveStreamMgr ?h) conn stream = (rs, err)" by fastforce
    have l: "rsm_wf (he_N E) (rpid E) rs \<and> (\<forall>c. c \<noteq> conn \<longrightarrow> rsm_view (he_N E) (rpid E) rs c = host_streams E ?h c)"
      using rsm.add_law [OF _ a] laws(2,4) [OF wf] by (fastforce split: option.splits if_splits)
    have "\<exists>x. fst (handleReceiveStream E conn stream ?h) = ?h\<lparr>receiveStreamMgr := rs, effects := x\<rparr>"
      using a by (cases err) (auto simp: handleReceiveStream_def intro: exI [of _ "effects ?h"])
    then obtain x where "fst (handleReceiveStream E conn stream ?h) = ?h\<lparr>receiveStreamMgr := rs, effects := x\<rparr>" by blast
    moreover have "rsm_view (he_N E) (rpid E) rs c \<subseteq> host_streams E ?h c" if "sys_loops s c = LoopCloses pc" for c pc
      using that l s'(1) by (cases "c = conn") auto
    ultimately show ?thesis using upd [of rs x] l s'(2) by simp
  next
    assume "e = EndStream conn stream"
    then have s': "s' = s\<lparr>sys_host := ?h\<lparr>receiveStreamMgr := RemovePeerReceiveStream (he_N E) (rpid E) (receiveStreamMgr ?h) conn stream,
        effects := (effects ?h)\<lparr>closedStreams := closedStreams (effects ?h) @ [stream]\<rparr>\<rparr>\<rparr>"
      using r by auto
    show ?thesis unfolding s' using rsm.remove_law [of "he_N E" "rpid E" "receiveStreamMgr ?h" conn stream] laws(2,4) [OF wf]
      by (intro upd) auto
  qed
qed

lemma step_new_inv:
  assumes inv: "sys_inv E s" and r: "sys_exec E (StepNew V) s = Some s'"
  shows "sys_inv E s'"
proof -
  from r obtain conn pc where n: "sys_new s = Some (conn, pc)" by (auto split: option.splits)
  obtain h' pc' where st: "new_step E V conn (sys_host s, pc) = (h', pc')" by fastforce
  have "host_wf E (sys_host s)" using inv by (simp add: sys_inv_def)
  note o = new_step_other [OF this st]
  have cl: "close_inv E h' c p" if l: "sys_loops s c = LoopCloses p" for c p
  proof -
    have cl: "close_inv E (sys_host s) c p" using inv l by (simp add: sys_inv_def)
    have "c \<noteq> conn \<or> \<not> early pc" using inv n l by (auto simp: sys_inv_def)
    then show ?thesis using o(2) o(3,4) [of c] by (intro close_inv_mono [OF cl]) auto
  qed
  have s': "s' = s\<lparr>sys_host := h', sys_new := Some (conn, pc'), sys_loops :=
      (case pc of NewStartLoop _ \<Rightarrow> (sys_loops s)(conn := LoopRuns) | _ \<Rightarrow> sys_loops s)\<rparr>"
    using r n st by simp
  show ?thesis using sys_inv_new [OF inv n o(1) _ new_step_early [OF st]] cl unfolding s' by simp
qed

lemma step_close_inv:
  assumes inv: "sys_inv E s" and r: "sys_exec E (StepClose err conn) s = Some s'"
  shows "sys_inv E s'"
proof -
  have wf: "host_wf E (sys_host s)" and cl: "\<And>c pc. sys_loops s c = LoopCloses pc \<Longrightarrow> close_inv E (sys_host s) c pc"
    using inv by (simp_all add: sys_inv_def)
  from r obtain pc where l: "sys_loops s conn = LoopCloses pc" by (auto split: conn_loop.splits)
  obtain h' pc' where st: "close_step E err conn (sys_host s, pc) = (h', pc')" by fastforce
  note o = close_step_other [OF wf st]
  have "close_inv E h' c p" if "sys_loops s c = LoopCloses p" "c \<noteq> conn" for c p
    using o(2,3,4) [of c] by (intro close_inv_mono [OF cl [OF that(1)]]) auto
  then show ?thesis
    using r l st inv o(1) close_step_inv [OF wf cl [OF l] st] by (auto simp: sys_inv_def split: if_split_asm)
qed

lemma announce_inv:
  assumes inv: "sys_inv E s" and r: "sys_exec E (Announce pid ids) s = Some s'"
  shows "sys_inv E s'"
proof -
  have wf: "host_wf E (sys_host s)" using inv by (simp add: sys_inv_def)
  obtain pm err calls where p:
    "SetSupportedProtocolsOfPeer (basic_book_ops (he_S E)) (he_ex E) (protocolMgr (sys_host s)) pid ids = (pm, err, calls)"
    by (rule prod_cases3)
  show ?thesis using r p SetSupported_wf [OF wf p] by (auto intro!: sys_inv_host [OF inv])
qed

lemma sys_exec_inv:
  assumes inv: "sys_inv E s" and r: "sys_exec E e s = Some s'"
  shows "sys_inv E s'"
proof (cases e)
  case (Arrive conn)
  then show ?thesis using r inv by (auto simp: sys_inv_def split: if_splits)
next
  case (StepNew V)
  then show ?thesis using step_new_inv [OF inv] r by blast
next
  case (StepClose err conn)
  then show ?thesis using step_close_inv [OF inv] r by blast
next
  case (Announce pid ids)
  then show ?thesis using announce_inv [OF inv] r by blast
next
  case (SeeClosed conn)
  have "close_inv E (sys_host s) conn CloseConn" by (simp add: close_inv_def removed_from_manager_def pool_closed_def)
  then show ?thesis using r SeeClosed inv by (auto simp: sys_inv_def split: if_split_asm)
next
  case (LeaveLoop conn)
  then show ?thesis using r inv by (auto simp: sys_inv_def split: if_split_asm)
next
  case (AcceptStream conn stream)
  then show ?thesis using stream_events_inv [OF inv _ r] by blast
next
  case (EndStream conn stream)
  then show ?thesis using stream_events_inv [OF inv _ r] by blast
qed

interpretation sys_runs: safe_runs "sys_exec E" "sys_run E" "sys_inv E" for E
  by unfold_locales (simp_all add: sys_exec_inv del: sys_exec.simps)

lemma sys_run_inv:
  assumes "host_wf E h" and "sys_run E es (sys_start h) = Some s"
  shows "sys_inv E s"
  by (rule sys_runs.run_safe [OF sys_inv_start [OF assms(1)] assms(2)])

section \<open>The exclusive map\<close>

text \<open>
  Where \<open>handleNewConnection\<close> has no entry in the exclusive map: before the check, and behind its deferred call or
  a check that refuses the connection.
\<close>

fun no_entry :: "new_pc \<Rightarrow> bool" where
  "no_entry NewBlacklist = True"
| "no_entry NewExclusive = True"
| "no_entry (NewDone _ _) = True"
| "no_entry _ = False"

definition excl_inv :: "('s, 'n, 'm) host_env \<Rightarrow> ('s, 'n, 'm, 'h) conn_sys \<Rightarrow> bool" where
  "excl_inv E s \<longleftrightarrow> dom (connExclusive (sys_host s)) \<subseteq>
     (case sys_new s of None \<Rightarrow> {} | Some (conn, pc) \<Rightarrow> if no_entry pc then {} else {rpid E conn})"

lemma new_step_keeps_entry:
  assumes "new_step E V conn (h, pc) = (h', pc')" and "pc \<noteq> NewExclusive" and "\<And>ok err. pc \<noteq> NewRelease ok err"
  shows "connExclusive h' = connExclusive h \<and> (no_entry pc' \<longrightarrow> no_entry pc)"
  using assms by (cases pc) (auto simp: Let_def split: option.splits sum.splits prod.splits if_splits run.splits)

lemma new_step_exclusive:
  assumes r: "new_step E V conn (h, pc) = (h', pc')" and d: "dom (connExclusive h) \<subseteq> (if no_entry pc then {} else {rpid E conn})"
  shows "dom (connExclusive h') \<subseteq> (if no_entry pc' then {} else {rpid E conn})"
proof (cases "pc = NewExclusive \<or> (\<exists>ok err. pc = NewRelease ok err)")
  case False
  then have k: "connExclusive h' = connExclusive h \<and> (no_entry pc' \<longrightarrow> no_entry pc)"
    using new_step_keeps_entry [OF r] by blast
  show ?thesis
  proof (cases "no_entry pc'")
    case True
    then have "no_entry pc" using k by blast
    then show ?thesis using k d True by simp
  next
    case False
    have "dom (connExclusive h) \<subseteq> {rpid E conn}" using d by (cases "no_entry pc") simp_all
    then show ?thesis using k False by simp
  qed
next
  case True
  then show ?thesis
  proof
    assume pc: "pc = NewExclusive"
    then have "connExclusive h = Map.empty" using d by simp
    then show ?thesis using r pc by (auto simp: connExclusiveCheck_def split: if_splits)
  next
    assume pc: "\<exists>ok err. pc = NewRelease ok err"
    then have "dom (connExclusive h) \<subseteq> {rpid E conn}" using d by auto
    then have "(connExclusive h)(rpid E conn := None) = Map.empty" by (intro ext) (auto simp: dom_def)
    then show ?thesis using r pc by (auto simp: removeConnExclusive_def)
  qed
qed

lemma close_step_exclusive: "close_step E closeErr conn (h, pc) = (h', pc') \<Longrightarrow> connExclusive h' = connExclusive h"
  by (cases pc) (auto split: prod.splits run.splits)

lemma excl_inv_same:
  "excl_inv E s \<Longrightarrow> connExclusive (sys_host s') = connExclusive (sys_host s) \<Longrightarrow> sys_new s' = sys_new s \<Longrightarrow> excl_inv E s'"
  by (simp add: excl_inv_def)

lemma excl_inv_exec:
  assumes inv: "excl_inv E s" and r: "sys_exec E e s = Some s'"
  shows "excl_inv E s'"
proof (cases e)
  case (Arrive conn)
  have "dom (connExclusive (sys_host s)) = {}"
    if "(case sys_new s of None \<Rightarrow> True | Some (_, pc) \<Rightarrow> is_over pc)"
    using inv that by (auto simp: excl_inv_def split: option.splits elim: is_over.elims)
  then show ?thesis using r Arrive by (auto simp: excl_inv_def split: if_splits)
next
  case (StepNew V)
  with r obtain conn pc where n: "sys_new s = Some (conn, pc)" by (auto split: option.splits)
  obtain h' pc' where st: "new_step E V conn (sys_host s, pc) = (h', pc')" by fastforce
  have "dom (connExclusive h') \<subseteq> (if no_entry pc' then {} else {rpid E conn})"
    using new_step_exclusive [OF st] inv n by (simp add: excl_inv_def)
  moreover have "sys_host s' = h'" "sys_new s' = Some (conn, pc')" using r StepNew n st by auto
  ultimately show ?thesis by (simp add: excl_inv_def)
next
  case (StepClose err conn)
  with r obtain pc where l: "sys_loops s conn = LoopCloses pc" by (auto split: conn_loop.splits)
  obtain h' pc' where st: "close_step E err conn (sys_host s, pc) = (h', pc')" by fastforce
  then have "connExclusive h' = connExclusive (sys_host s)" by (rule close_step_exclusive)
  moreover have "sys_host s' = h'" "sys_new s' = sys_new s" using r StepClose l st by auto
  ultimately show ?thesis by (intro excl_inv_same [OF inv]) simp_all
next
  case (AcceptStream conn stream)
  have "connExclusive (fst (handleReceiveStream E conn stream h)) = connExclusive h" for h
    by (simp add: handleReceiveStream_def Let_def split: prod.split option.split)
  then show ?thesis using r AcceptStream by (intro excl_inv_same [OF inv]) (auto split: if_splits)
qed (use r in \<open>auto intro!: excl_inv_same [OF inv] simp: Let_def split: if_splits prod.splits\<close>)

lemma excl_run:
  assumes "connExclusive h = Map.empty" and "sys_run E es (sys_start h) = Some s"
  shows "excl_inv E s"
  by (rule sys_runs.run_invariant [where I = "excl_inv E", OF _ _ assms(2)])
    (rule excl_inv_exec, simp_all add: excl_inv_def sys_start_def assms(1))

section \<open>Properties\<close>

lemma new_step_during: "new_step E (V\<lparr>ne_during := f\<rparr>) conn = new_step E V conn"
proof
  fix x :: "('a, 'b, 'c, 'd) host \<times> new_pc"
  obtain h pc where "x = (h, pc)" by fastforce
  then show "new_step E (V\<lparr>ne_during := f\<rparr>) conn x = new_step E V conn x" by (cases pc) (simp_all split: option.split)
qed

text \<open>
  Left alone, the steps are the operations: from its start, \<open>handleNewConnection\<close> is over after fifteen steps and
  \<open>handleClosingConn\<close> after eight, with exactly the state, the result or the panic of the operations that
  \<open>Host_Connections\<close> describes as a whole.
\<close>

theorem uninterrupted_steps_are_the_operations:
  "new_outcome ((new_step E V conn ^^ 15) (h, NewBlacklist)) =
     Some (handleNewConnection E (V\<lparr>ne_during := \<lambda>h. h\<rparr>) conn h) \<and>
   close_outcome ((close_step E closeErr conn ^^ 8) (h, CloseConn)) = Some (handleClosingConn E closeErr conn h)"
  using steps_of_handleNewConnection [of "V\<lparr>ne_during := \<lambda>h. h\<rparr>" E conn h] steps_of_handleClosingConn
  by (simp add: new_step_during)

text \<open>
  C3. However new connections, closing connections, streams and announcements are interleaved, the host stays well
  formed and no cleanup panics. A connection whose \<open>handleClosingConn\<close> is over is not held by the connection manager, and never
  again; and when the manager still knew it, neither its pool nor any of its receive streams is left.
\<close>

theorem finished_cleanup_is_final:
  assumes "host_wf E h" and "sys_run E es (sys_start h) = Some s"
  shows "host_wf E (sys_host s) \<and> sys_loops s c \<noteq> LoopCloses (ClosePanicked p) \<and>
    (sys_loops s c = LoopCloses (CloseDone removed) \<longrightarrow>
       \<not> ExistPeerConnection (he_N E) (connMgr (sys_host s)) (rpid E c) c \<and>
       (removed \<longrightarrow> spm_view (sendStreamPoolMgr (sys_host s)) (rpid E c) c = None \<and>
          rsm_view (he_N E) (rpid E) (receiveStreamMgr (sys_host s)) c = {}))"
proof -
  have inv: "sys_inv E s" by (rule sys_run_inv [OF assms(1,2)])
  then have wf: "host_wf E (sys_host s)" by (simp add: sys_inv_def)
  have "\<not> ExistPeerConnection (he_N E) (connMgr (sys_host s)) (rpid E c) c" if "\<not> host_holds E (sys_host s) c"
    using that conns_held [of c "he_N E"] by (auto simp: ExistPeerConnection_iff [OF host_wf_laws(2) [OF wf]])
  then show ?thesis
    using inv wf by (auto simp: sys_inv_def close_inv_def removed_from_manager_def pool_closed_def)
qed

text \<open>
  C36. The cleanup does not look again. Between the moment \<open>handleClosingConn\<close> finds the peer disconnected and
  \<open>CleanPeer\<close>, the peer can connect anew and exchange protocols; the cleanup of the old connection then forgets
  them, although the peer is connected, and every message to it is refused as not supported.
\<close>

theorem stale_cleanup_forgets_reconnected_peer:
  assumes "host_wf E h" and "sys_run E es (sys_start h) = Some s"
    and "sys_loops s c = LoopCloses CloseClean" and "sys_exec E (StepClose closeErr c) s = Some s'"
  shows "connMgr (sys_host s') = connMgr (sys_host s) \<and>
    \<not> SupportedByPeer (basic_book_ops (he_S E)) (protocolMgr (sys_host s')) (rpid E c) x \<and>
    (Connected (he_N E) (connMgr (sys_host s')) (rpid E c) \<longrightarrow>
       SendMsg E K compressMsg W (sys_host s') x (rpid E c) payload =
         Returns (Some ErrProtocolNotSupported, None, NothingBorrowed))"
proof -
  have "sys_inv E s" by (rule sys_run_inv [OF assms(1,2)])
  then have wf: "host_wf E (sys_host s)" by (simp add: sys_inv_def)
  obtain pm calls where c: "CleanPeer (basic_book_ops (he_S E)) (protocolMgr (sys_host s)) (rpid E c) = Returns (pm, None, calls)"
    "book_protos (he_S E) (pm_protocolBook pm) = (host_protos E (sys_host s))(rpid E c := {})"
    using CleanPeer_host [OF wf] by metis
  have "connMgr (sys_host s') = connMgr (sys_host s)" "protocolMgr (sys_host s') = pm"
    using assms(3,4) c(1) by (auto simp: Let_def)
  moreover have "\<not> SupportedByPeer (basic_book_ops (he_S E)) pm (rpid E c) x"
    using basic_book.contains_law [OF host_wf_laws(1) [OF wf]] c(2) by (simp add: SupportedByPeer_def)
  ultimately show ?thesis by (simp add: SendMsg_def)
qed

text \<open>
  The connection 1 of the peer \<open>you\<close> is accepted and seen closed; its cleanup finds the peer disconnected; the peer comes back with the
  connection 2, whose handling is run to its end; then the cleanup goes on.
\<close>

definition accept_steps :: "handle \<Rightarrow> (string list, handle list, string, nat) sys_event list" where
  "accept_steps c = Arrive c # replicate 15 (StepNew sample_new)"

definition cleanup_begins :: "(string list, handle list, string, nat) sys_event list" where
  "cleanup_begins = SeeClosed 1 # replicate 4 (StepClose (\<lambda>_. None) 1)"

lemmas sample_step_defs = connExclusiveCheck_def removeConnExclusive_def BlackConn_def NewBlacklist_def SplitHostPort_def
  Allowed_def Connected_def getHighLevelConnections_def getLowLevelConnections_def
  AddPeerConnection_def eliminateConnections.simps sample_env_def sample_new_def sample_host_def
  AddPeerConnSendStreamPool_def NewSendStreamPoolManager_def CountOfPeers_def Let_def
  SetSupportedProtocolsOfPeer_def eliminateConnectionsLIFO_def RemovePeerConnection_def
  localProtocols_def close_conns_def protocol_book_defs CleanPeer_def SupportedProtocolsOfPeer_def NewProtocolBook_def
  put_all_def slice_delete_def

lemma sample_reconnection:
  "\<exists>s. sys_run sample_env (accept_steps 1 @ cleanup_begins @ accept_steps 2) (sys_start (sample_host [])) = Some s \<and>
     sys_loops s 1 = LoopCloses CloseClean \<and> Connected list_set (connMgr (sys_host s)) ''you'' \<and>
     SupportedByPeer (basic_book_ops list_set) (protocolMgr (sys_host s)) ''you'' ''/chat''"
  by (simp add: accept_steps_def cleanup_begins_def sys_start_def sample_step_defs SupportedByPeer_def
      numeral_eq_Suc split: option.split)

theorem stale_cleanup_forgets_reconnected_peer_witness:
  "\<exists>s s'. sys_run sample_env (accept_steps 1 @ cleanup_begins @ accept_steps 2) (sys_start (sample_host [])) = Some s \<and>
     SupportedByPeer (basic_book_ops list_set) (protocolMgr (sys_host s)) ''you'' ''/chat'' \<and>
     sys_exec sample_env (StepClose (\<lambda>_. None) 1) s = Some s' \<and>
     Connected list_set (connMgr (sys_host s')) ''you'' \<and>
     SendMsg sample_env sample_codec False (sample_world None) (sys_host s') ''/chat'' ''you'' ''hello'' =
       Returns (Some ErrProtocolNotSupported, None, NothingBorrowed)"
proof -
  obtain s where s: "sys_run sample_env (accept_steps 1 @ cleanup_begins @ accept_steps 2) (sys_start (sample_host [])) = Some s"
    "sys_loops s 1 = LoopCloses CloseClean" "Connected list_set (connMgr (sys_host s)) ''you''"
    "SupportedByPeer (basic_book_ops list_set) (protocolMgr (sys_host s)) ''you'' ''/chat''"
    using sample_reconnection by blast
  obtain s' where s': "sys_exec sample_env (StepClose (\<lambda>_. None) 1) s = Some s'" using s(2) by (auto simp: Let_def case_prod_unfold)
  have e: "rpid sample_env 1 = ''you''" "he_N sample_env = list_set" by (simp_all add: sample_env_def)
  note f = stale_cleanup_forgets_reconnected_peer [OF sample_host_wf(1) s(1,2) s', where x = "''/chat''" and K = sample_codec
      and compressMsg = False and W = "sample_world None" and payload = "''hello''"]
  show ?thesis using f s s' unfolding e by auto
qed

lemma sample_cleanup:
  "\<exists>s. sys_run sample_env (accept_steps 1 @ SeeClosed 1 # replicate 8 (StepClose (\<lambda>_. None) 1)) (sys_start (sample_host [])) = Some s \<and>
     sys_loops s 1 = LoopCloses (CloseDone True)"
  by (simp add: accept_steps_def sys_start_def sample_step_defs RemovePeerConnAndCloseSendStreamPool_def
      ClosePeerReceiveStreams_def NewReceiveStreamManager_def numeral_eq_Suc split: option.split)

theorem finished_cleanup_is_final_witness:
  "\<exists>s. sys_run sample_env (accept_steps 1 @ SeeClosed 1 # replicate 8 (StepClose (\<lambda>_. None) 1)) (sys_start (sample_host [])) = Some s \<and>
     spm_view (sendStreamPoolMgr (sys_host s)) ''you'' 1 = None \<and> \<not> ExistPeerConnection list_set (connMgr (sys_host s)) ''you'' 1"
proof -
  obtain s where s: "sys_run sample_env (accept_steps 1 @ SeeClosed 1 # replicate 8 (StepClose (\<lambda>_. None) 1)) (sys_start (sample_host [])) = Some s"
    "sys_loops s 1 = LoopCloses (CloseDone True)" using sample_cleanup by blast
  from finished_cleanup_is_final [OF sample_host_wf(1) s(1), where c = 1 and removed = True] s
  show ?thesis by (auto simp: sample_env_def)
qed

end
