(* ===== verification/Host_Construction.thy ===== *)
theory Host_Construction
  imports Host_Interleaving Protocol_Exchanger Tcp_Network
begin

text \<open>
  \<open>host_option.go\<close> and \<open>NewHost\<close> of \<open>host.go\<close>: the options, and how the host is put together from them.
  The components that options can replace are the repository's own, in the models of their theories. The
  context, the logger and the notifiees are left out. \<open>'sk\<close> stands for private keys, \<open>'c\<close> for certificates.
\<close>

section \<open>Options\<close>

record 'm host_config =
  cfg_ListenAddresses :: "'m list"
  cfg_DirectPeers :: "(peer_id \<rightharpoonup> 'm) option"
  cfg_BlackNetAddresses :: "string list"
  cfg_BlackPIDs :: "peer_id list"
  cfg_CompressMsg :: bool
  cfg_PayloadUnmarshalerConcurrency :: "8 word"
  cfg_PayloadHandlerRouterConcurrency :: "8 word"
  cfg_HandlerExecutorConcurrency :: "8 word"

record ('sk, 'c, 's, 'n, 'm, 'h) host_setup =
  hs_cfg :: "'m host_config"
  hs_nwCfg :: "('sk, 'c) network_config"
  hs_store :: "('s, 'm) peer_store option"
  hs_supervisor :: "'m supervisor option"
  hs_connMgr :: "('s, 'n) lcm option"
  hs_sendStreamPoolBuilder :: "handle option"
  hs_sendStreamPoolMgr :: "pool_manager option"
  hs_receiveStreamMgr :: "'n rsm option"
  hs_protocolMgr :: "('s basic_protocol_book, 'h, bool) protocol_manager option"
  hs_protocolExr :: "(protocol_id \<times> 'h) option"
  hs_blacklist :: "'s black_list option"

text \<open>An exchanger is known to the host by its protocol id and its handler.\<close>

datatype ('sk, 'c, 's, 'n, 'm, 'h) host_option =
    WithListenAddresses "'m list"
  | WithDirectPeer peer_id 'm
  | WithBlackPIDs "peer_id list"
  | WithBlackNetAddr "string list"
  | WithMsgCompressible
  | WithPayloadUnmarshalConcurrency "8 word"
  | WithPayloadHandlerRouterConcurrency "8 word"
  | WithHandlerExecutorConcurrency "8 word"
  | WithNetworkType network_type
  | WithPriKey "'sk option"
  | WithTLS "'c tls_config option" "('c list \<Rightarrow> string + peer_id) option"
  | WithEasyToUseTLS 'sk
  | WithPeerStore "('s, 'm) peer_store option"
  | WithConnectionSupervisor "'m supervisor option"
  | WithConnectionManager "('s, 'n) lcm option"
  | WithSendStreamPoolBuilder "handle option"
  | WithSendStreamMgr "pool_manager option"
  | WithReceiveStreamMgr "'n rsm option"
  | WithProtocolManager "('s basic_protocol_book, 'h, bool) protocol_manager option"
  | WithProtocolExchanger "(protocol_id \<times> 'h) option"
  | WithBlacklist "'s black_list option"
  | WithDialLoopback

text \<open>
  What the options and the construction use of the key and TLS code: \<open>EasyToUseTLSConfig\<close>,
  \<open>EasyToUsePIDLoader\<close>, \<open>peer.IDFromPriKey\<close>; and the handler of the default exchanger. The first is
  called with a key, as its nil dereference is the key code's.
\<close>

record ('sk, 'c, 'h) key_env =
  ke_EasyToUseTLSConfig :: "'sk \<Rightarrow> go_error + 'c tls_config"
  ke_EasyToUsePIDLoader :: "'c list \<Rightarrow> string + peer_id"
  ke_IDFromPriKey :: "'sk option \<Rightarrow> (string + peer_id) run"
  ke_exchangerHandle :: 'h

fun apply_host_option ::
  "('sk, 'c, 'h) key_env \<Rightarrow> ('sk, 'c, 's, 'n, 'm, 'h) host_option \<Rightarrow> ('sk, 'c, 's, 'n, 'm, 'h) host_setup
   \<Rightarrow> go_error + ('sk, 'c, 's, 'n, 'm, 'h) host_setup" where
  "apply_host_option Y (WithListenAddresses as) h = Inr (h\<lparr>hs_cfg := (hs_cfg h)\<lparr>cfg_ListenAddresses := as\<rparr>\<rparr>)"
| "apply_host_option Y (WithDirectPeer pid a) h =
     (let peers = (case cfg_DirectPeers (hs_cfg h) of None \<Rightarrow> Map.empty | Some m \<Rightarrow> m)
      in Inr (h\<lparr>hs_cfg := (hs_cfg h)\<lparr>cfg_DirectPeers := Some (peers(pid \<mapsto> a))\<rparr>\<rparr>))"
| "apply_host_option Y (WithBlackPIDs pids) h =
     Inr (h\<lparr>hs_cfg := (hs_cfg h)\<lparr>cfg_BlackPIDs := cfg_BlackPIDs (hs_cfg h) @ pids\<rparr>\<rparr>)"
| "apply_host_option Y (WithBlackNetAddr as) h =
     Inr (h\<lparr>hs_cfg := (hs_cfg h)\<lparr>cfg_BlackNetAddresses := cfg_BlackNetAddresses (hs_cfg h) @ as\<rparr>\<rparr>)"
| "apply_host_option Y WithMsgCompressible h = Inr (h\<lparr>hs_cfg := (hs_cfg h)\<lparr>cfg_CompressMsg := True\<rparr>\<rparr>)"
| "apply_host_option Y (WithPayloadUnmarshalConcurrency c) h =
     Inr (h\<lparr>hs_cfg := (hs_cfg h)\<lparr>cfg_PayloadUnmarshalerConcurrency := c\<rparr>\<rparr>)"
| "apply_host_option Y (WithPayloadHandlerRouterConcurrency c) h =
     Inr (h\<lparr>hs_cfg := (hs_cfg h)\<lparr>cfg_PayloadHandlerRouterConcurrency := c\<rparr>\<rparr>)"
| "apply_host_option Y (WithHandlerExecutorConcurrency c) h =
     Inr (h\<lparr>hs_cfg := (hs_cfg h)\<lparr>cfg_HandlerExecutorConcurrency := c\<rparr>\<rparr>)"
| "apply_host_option Y (WithNetworkType t) h = Inr (h\<lparr>hs_nwCfg := (hs_nwCfg h)\<lparr>nc_Type := t\<rparr>\<rparr>)"
| "apply_host_option Y (WithPriKey k) h = Inr (h\<lparr>hs_nwCfg := (hs_nwCfg h)\<lparr>nc_PrivateKey := k\<rparr>\<rparr>)"
| "apply_host_option Y (WithTLS cfg l) h =
     Inr (h\<lparr>hs_nwCfg := (hs_nwCfg h)\<lparr>nc_TLSConfig := cfg, nc_PIDLoader := l, nc_TLSEnabled := True\<rparr>\<rparr>)"
| "apply_host_option Y (WithEasyToUseTLS k) h =
     (case ke_EasyToUseTLSConfig Y k of
        Inl e \<Rightarrow> Inl e
      | Inr cfg \<Rightarrow> Inr (h\<lparr>hs_nwCfg := (hs_nwCfg h)\<lparr>nc_PrivateKey := Some k, nc_TLSConfig := Some cfg,
           nc_PIDLoader := Some (ke_EasyToUsePIDLoader Y), nc_TLSEnabled := True\<rparr>\<rparr>))"
| "apply_host_option Y (WithPeerStore x) h = Inr (h\<lparr>hs_store := x\<rparr>)"
| "apply_host_option Y (WithConnectionSupervisor x) h = Inr (h\<lparr>hs_supervisor := x\<rparr>)"
| "apply_host_option Y (WithConnectionManager x) h = Inr (h\<lparr>hs_connMgr := x\<rparr>)"
| "apply_host_option Y (WithSendStreamPoolBuilder x) h = Inr (h\<lparr>hs_sendStreamPoolBuilder := x\<rparr>)"
| "apply_host_option Y (WithSendStreamMgr x) h = Inr (h\<lparr>hs_sendStreamPoolMgr := x\<rparr>)"
| "apply_host_option Y (WithReceiveStreamMgr x) h = Inr (h\<lparr>hs_receiveStreamMgr := x\<rparr>)"
| "apply_host_option Y (WithProtocolManager x) h = Inr (h\<lparr>hs_protocolMgr := x\<rparr>)"
| "apply_host_option Y (WithProtocolExchanger x) h = Inr (h\<lparr>hs_protocolExr := x\<rparr>)"
| "apply_host_option Y (WithBlacklist x) h = Inr (h\<lparr>hs_blacklist := x\<rparr>)"
| "apply_host_option Y WithDialLoopback h = Inr (h\<lparr>hs_nwCfg := (hs_nwCfg h)\<lparr>nc_DialLoopbackEnabled := True\<rparr>\<rparr>)"

fun apply_host_options ::
  "('sk, 'c, 'h) key_env \<Rightarrow> ('sk, 'c, 's, 'n, 'm, 'h) host_option list \<Rightarrow> ('sk, 'c, 's, 'n, 'm, 'h) host_setup
   \<Rightarrow> go_error + ('sk, 'c, 's, 'n, 'm, 'h) host_setup" where
  "apply_host_options Y [] h = Inr h"
| "apply_host_options Y (opt # opts) h =
     (case apply_host_option Y opt h of Inl e \<Rightarrow> Inl e | Inr h' \<Rightarrow> apply_host_options Y opts h')"

definition default_setup :: "('sk, 'c, 's, 'n, 'm, 'h) host_setup" where
  "default_setup =
     \<lparr>hs_cfg = \<lparr>cfg_ListenAddresses = [], cfg_DirectPeers = None, cfg_BlackNetAddresses = [], cfg_BlackPIDs = [],
        cfg_CompressMsg = False, cfg_PayloadUnmarshalerConcurrency = 100,
        cfg_PayloadHandlerRouterConcurrency = 100, cfg_HandlerExecutorConcurrency = 200\<rparr>,
      hs_nwCfg = \<lparr>nc_Type = NetworkTypeUnknown, nc_PrivateKey = None, nc_TLSEnabled = False, nc_TLSConfig = None,
        nc_PIDLoader = None, nc_DialLoopbackEnabled = False\<rparr>,
      hs_store = None, hs_supervisor = None, hs_connMgr = None, hs_sendStreamPoolBuilder = None,
      hs_sendStreamPoolMgr = None, hs_receiveStreamMgr = None, hs_protocolMgr = None, hs_protocolExr = None,
      hs_blacklist = None\<rparr>"

section \<open>The host\<close>

text \<open>
  The whole host: the record of its components, the supervisor, the network, the configuration, the exchanger's
  protocol, the number of waiting push signals, \<open>once\<close>, \<open>closeC\<close>, and whether there is a pipeline.
\<close>

record ('c, 's, 'n, 'm, 'h) node =
  nd_host :: "('s, 'n, 'm, 'h) host"
  nd_supervisor :: "'m supervisor"
  nd_network :: "('m, 'c) tcp_network"
  nd_cfg :: "'m host_config"
  nd_builder :: "handle option"
  nd_exchanger :: protocol_id
  nd_pushSignals :: nat
  nd_onceDone :: bool
  nd_closed :: bool
  nd_pipeline :: bool

datatype new_host_error =
    ErrOption go_error
  | ErrNilPrivateKey
  | ErrNetwork factory_error
  | ErrCallback go_error
  | ErrRegister pm_error

definition defaultSupervisorTryTimes :: int where
  "defaultSupervisorTryTimes = 10"

definition empty_effects :: "'m effects" where
  "empty_effects = \<lparr>closedConns = [], closedStreams = [], closedPools = [], notifyConnC = [],
     acceptLoops = [], pushes = [], protocolCalls = []\<rparr>"

definition option_or :: "'a option \<Rightarrow> 'a \<Rightarrow> 'a" where
  "option_or x d = (case x of None \<Rightarrow> d | Some y \<Rightarrow> y)"

text \<open>The blacklist with the configured entries.\<close>

definition configured_blacklist :: "(string, 's) set_ops \<Rightarrow> 'm host_config \<Rightarrow> 's black_list \<Rightarrow> 's black_list" where
  "configured_blacklist S cfg b =
     foldl (AddPeerID S) (foldl (AddIPAndPort S) b (cfg_BlackNetAddresses cfg)) (cfg_BlackPIDs cfg)"

text \<open>
  After the network: the components that no option gave, their attachment to the host (the protocol manager
  learns the local id), the blacklist, the callbacks and the exchanger's handler. A protocol manager that an
  option gives keeps its own book; the address book is the peer store's.
\<close>

definition assemble ::
  "('s, 'n, 'm) host_env \<Rightarrow> 'h \<Rightarrow> ('sk, 'c, 's, 'n, 'm, 'h) host_setup \<Rightarrow> ('m, 'c) tcp_network
   \<Rightarrow> new_host_error + ('c, 's, 'n, 'm, 'h) node" where
  "assemble E exrHandle i nw =
     (let lpid = nw_localPID nw;
          store = option_or (hs_store i) (NewBasicPeerStore lpid);
          pm = pm_AttachHost (option_or (hs_protocolMgr i) (NewProtocolManager (ps_protocols store))) lpid;
          (exrID, exr) = option_or (hs_protocolExr i) (ProtocolExchangerProtocolID, exrHandle);
          bl = configured_blacklist (he_S E) (hs_cfg i) (option_or (hs_blacklist i) (Blacklist.NewBlacklist (he_S E)));
          (pm1, err1) = SetProtocolSupportedNotifyFunc pm (Some True)
      in case err1 of
           Some e \<Rightarrow> Inl (ErrCallback e)
         | None \<Rightarrow>
             (let (pm2, err2) = SetProtocolUnsupportedNotifyFunc pm1 (Some False)
              in case err2 of
                   Some e \<Rightarrow> Inl (ErrCallback e)
                 | None \<Rightarrow>
                     (let h = \<lparr>connMgr = option_or (hs_connMgr i) (NewLevelConnectionManager (he_S E)),
                            protocolMgr = pm2,
                            sendStreamPoolMgr = option_or (hs_sendStreamPoolMgr i) NewSendStreamPoolManager,
                            receiveStreamMgr = option_or (hs_receiveStreamMgr i) NewReceiveStreamManager,
                            blacklist = bl, addresses = ps_addresses store, connExclusive = Map.empty,
                            effects = empty_effects\<rparr>;
                          ((h', signals), err3) = host_RegisterMsgPayloadHandler E (h, 0) exrID (Some exr)
                      in case err3 of
                           Some e \<Rightarrow> Inl (ErrRegister e)
                         | None \<Rightarrow> Inr
                             \<lparr>nd_host = h',
                              nd_supervisor = option_or (hs_supervisor i)
                                (NewConnectionSupervisor defaultSupervisorTryTimes),
                              nd_network = nw, nd_cfg = hs_cfg i, nd_builder = hs_sendStreamPoolBuilder i,
                              nd_exchanger = exrID, nd_pushSignals = signals, nd_onceDone = False,
                              nd_closed = False, nd_pipeline = False\<rparr>)))"

definition NewHost ::
  "('s, 'n, 'm) host_env \<Rightarrow> ('sk, 'c, 'h) key_env \<Rightarrow> ('sk, 'c, 's, 'n, 'm, 'h) host_option list
   \<Rightarrow> (new_host_error + ('c, 's, 'n, 'm, 'h) node) run" where
  "NewHost E Y opts =
     (case apply_host_options Y opts default_setup of
        Inl e \<Rightarrow> Returns (Inl (ErrOption e))
      | Inr i \<Rightarrow>
          if nc_PrivateKey (hs_nwCfg i) = None then Returns (Inl ErrNilPrivateKey)
          else run_bind (config_NewNetwork (ke_IDFromPriKey Y) (hs_nwCfg i)) (\<lambda>r.
                 case r of
                   Inl e \<Rightarrow> Returns (Inl (ErrNetwork e))
                 | Inr nw \<Rightarrow> Returns (assemble E (ke_exchangerHandle Y) i nw)))"

section \<open>Lemmas\<close>

lemma config_NewNetwork_wf:
  fixes n :: "('m, 'c) tcp_network"
  assumes "config_NewNetwork idOf C = Returns (Inr n)"
  shows "network_wf n"
proof -
  obtain r where r: "idOf (nc_PrivateKey C) = Returns r"
    using assms by (cases "idOf (nc_PrivateKey C)") (auto simp: config_NewNetwork_def)
  obtain pid where "r = Inr pid" using assms r by (cases r) (auto simp: config_NewNetwork_def)
  with assms r have "newTCPNetwork C pid = Inr n"
    by (cases "nc_Type C") (auto simp: config_NewNetwork_def)
  then show ?thesis
    by (cases "NewNetwork (tcp_options_of C pid) :: tcp_error + ('m, 'c) tcp_network")
       (auto simp: newTCPNetwork_def dest: NewNetwork_wf split: if_splits)
qed

text \<open>What is asked of the components that options give: the invariants of their theories.\<close>

definition setup_wf :: "('s, 'n, 'm) host_env \<Rightarrow> ('sk, 'c, 's, 'n, 'm, 'h) host_setup \<Rightarrow> bool" where
  "setup_wf E i \<longleftrightarrow> set_laws (he_S E) \<and> set_laws (he_N E) \<and>
     (\<forall>l. hs_connMgr i = Some l \<longrightarrow> lcm_wf (he_S E) (he_N E) l) \<and>
     (\<forall>r. hs_receiveStreamMgr i = Some r \<longrightarrow> rsm_wf (he_N E) (rpid E) r) \<and>
     (\<forall>s. hs_sendStreamPoolMgr i = Some s \<longrightarrow> spm_wf s)"

lemma spm_wf_New: "spm_wf NewSendStreamPoolManager"
  by (simp add: spm_wf_def NewSendStreamPoolManager_def)

lemma RegisterMsgPayloadHandler_keeps:
  assumes "RegisterMsgPayloadHandler B p x f = (p', None)"
  shows "pm_handlers p' x = Some f \<and> pm_lPID p' = pm_lPID p \<and>
    pm_unsupportedCallback p' = pm_unsupportedCallback p"
  using assms
  by (auto simp: RegisterMsgPayloadHandler_def Let_def split: option.splits prod.splits if_splits)

text \<open>An assembled host, in its parts.\<close>

lemma assemble_parts:
  assumes "assemble E exrHandle i nw = Inr nd"
  shows "connMgr (nd_host nd) = option_or (hs_connMgr i) (NewLevelConnectionManager (he_S E)) \<and>
    sendStreamPoolMgr (nd_host nd) = option_or (hs_sendStreamPoolMgr i) NewSendStreamPoolManager \<and>
    receiveStreamMgr (nd_host nd) = option_or (hs_receiveStreamMgr i) NewReceiveStreamManager \<and>
    blacklist (nd_host nd) =
      configured_blacklist (he_S E) (hs_cfg i) (option_or (hs_blacklist i) (Blacklist.NewBlacklist (he_S E))) \<and>
    connExclusive (nd_host nd) = Map.empty \<and> nd_network nd = nw \<and> nd_cfg nd = hs_cfg i \<and>
    pm_unsupportedCallback (protocolMgr (nd_host nd)) = Some False \<and> host_ID (nd_host nd) = nw_localPID nw \<and>
    (\<exists>f. pm_handlers (protocolMgr (nd_host nd)) (nd_exchanger nd) = Some (Some f))"
  using assms
  by (auto simp: assemble_def Let_def SetProtocolSupportedNotifyFunc_def SetProtocolUnsupportedNotifyFunc_def
      host_RegisterMsgPayloadHandler_def pm_AttachHost_def
      split: prod.splits option.splits dest!: RegisterMsgPayloadHandler_keeps)

lemma assembled_host_wf:
  assumes "setup_wf E i" and "assemble E exrHandle i nw = Inr nd"
  shows "host_wf E (nd_host nd)"
  using assms(1) assemble_parts [OF assms(2)]
  by (auto simp: host_wf_def setup_wf_def option_or_def wf_New rsm_wf_New spm_wf_New split: option.splits)

lemma NewHost_parts:
  fixes nd :: "('c, 's, 'n, 'm, 'h) node"
  assumes "apply_host_options Y opts default_setup = Inr i" and "NewHost E Y opts = Returns (Inr nd)"
  shows "\<exists>nw. config_NewNetwork (ke_IDFromPriKey Y) (hs_nwCfg i) = Returns (Inr nw) \<and>
    assemble E (ke_exchangerHandle Y) i nw = Inr nd"
proof (cases "config_NewNetwork (ke_IDFromPriKey Y) (hs_nwCfg i)
    :: (factory_error + ('m, 'c) tcp_network) run")
  case (Returns r)
  then show ?thesis using assms by (cases r) (auto simp: NewHost_def split: if_splits)
qed (use assms in \<open>auto simp: NewHost_def split: if_splits\<close>)

lemma AddIPAndPort_pids: "bl_pidSet (AddIPAndPort S b a) = bl_pidSet b"
  by (simp add: AddIPAndPort_def split: prod.splits)

lemma configured_blacklist_pids:
  assumes "set_laws S"
  shows "set (cfg_BlackPIDs cfg) \<subseteq> elems S (bl_pidSet (configured_blacklist S cfg b))"
proof -
  have "elems S (bl_pidSet (foldl (AddPeerID S) b pids)) = elems S (bl_pidSet b) \<union> set pids" for pids b
    using assms by (induction pids arbitrary: b) (auto simp: AddPeerID_def set_simps)
  then show ?thesis by (simp add: configured_blacklist_def)
qed

lemma apply_host_options_append:
  "apply_host_options Y (os @ os') i =
     (case apply_host_options Y os i of Inl e \<Rightarrow> Inl e | Inr j \<Rightarrow> apply_host_options Y os' j)"
  by (induction os arbitrary: i) (auto split: sum.splits)

lemma apply_host_option_blackPIDs:
  "apply_host_option Y opt i = Inr j \<Longrightarrow> set (cfg_BlackPIDs (hs_cfg i)) \<subseteq> set (cfg_BlackPIDs (hs_cfg j))"
  by (cases opt) (auto simp: Let_def split: sum.splits)

lemma apply_host_options_blackPIDs:
  "apply_host_options Y opts i = Inr j \<Longrightarrow> set (cfg_BlackPIDs (hs_cfg i)) \<subseteq> set (cfg_BlackPIDs (hs_cfg j))"
  by (induction opts arbitrary: i) (auto split: sum.splits dest: apply_host_option_blackPIDs)

lemma given_blackPIDs:
  assumes "apply_host_options Y opts i = Inr j" and "WithBlackPIDs pids \<in> set opts"
  shows "set pids \<subseteq> set (cfg_BlackPIDs (hs_cfg j))"
proof -
  obtain os os' where "opts = os @ WithBlackPIDs pids # os'" using assms(2) by (meson split_list)
  with assms(1) obtain k l where "apply_host_option Y (WithBlackPIDs pids) k = Inr l"
    "apply_host_options Y os' l = Inr j"
    by (auto simp: apply_host_options_append simp del: apply_host_option.simps split: sum.splits)
  then show ?thesis using apply_host_options_blackPIDs by fastforce
qed

section \<open>Properties\<close>

text \<open>
  C4. A host that \<open>NewHost\<close> returns is in order: every component satisfies its invariant (those given by
  options provided they do), the callback for unsupported protocols that a closing connection needs is set, the
  host's id is the network's and not empty, the network is well formed and the exchanger's messages have a
  handler. All this lasts: in every interleaving of the component calls with which connections are accepted and
  closed, streams come and go and peers announce protocols afterwards, the components keep their invariants, no cleanup
  panics, and whenever no new connection is being handled no entry of the exclusive check stays behind.
\<close>

theorem new_host_is_well_formed:
  assumes "apply_host_options Y opts default_setup = Inr i" and "setup_wf E i"
    and "NewHost E Y opts = Returns (Inr nd)"
    and "sys_run E es (sys_start (nd_host nd)) = Some s"
  shows "host_wf E (sys_host s) \<and> sys_loops s c \<noteq> LoopCloses (ClosePanicked p) \<and>
    (sys_new s = None \<or> (\<exists>conn ok err. sys_new s = Some (conn, NewDone ok err)) \<longrightarrow>
       connExclusive (sys_host s) = Map.empty) \<and>
    network_wf (nd_network nd) \<and>
    host_ID (nd_host nd) = nw_localPID (nd_network nd) \<and> host_ID (nd_host nd) \<noteq> '''' \<and>
    (\<exists>f. pm_handlers (protocolMgr (nd_host nd)) (nd_exchanger nd) = Some (Some f))"
proof -
  obtain nw where nw: "config_NewNetwork (ke_IDFromPriKey Y) (hs_nwCfg i) = Returns (Inr nw)"
    and a: "assemble E (ke_exchangerHandle Y) i nw = Inr nd"
    using NewHost_parts [OF assms(1,3)] by auto
  note parts = assemble_parts [OF a]
  have wf: "network_wf nw" by (rule config_NewNetwork_wf [OF nw])
  have "sys_inv E s" by (rule sys_run_inv [OF assembled_host_wf [OF assms(2) a] assms(4)])
  then have "host_wf E (sys_host s) \<and> sys_loops s c \<noteq> LoopCloses (ClosePanicked p)"
    by (auto simp: sys_inv_def close_inv_def)
  moreover have "excl_inv E s" using excl_run [OF _ assms(4)] parts by blast
  then have "sys_new s = None \<or> (\<exists>conn ok err. sys_new s = Some (conn, NewDone ok err)) \<longrightarrow>
      connExclusive (sys_host s) = Map.empty"
    by (auto simp: excl_inv_def)
  moreover have "nw_localPID nw \<noteq> ''''" using wf by (simp add: network_wf_def)
  ultimately show ?thesis using parts wf by auto
qed

text \<open>
  The configured blacklist is in force from the first connection on: a connection from a peer that any
  \<open>WithBlackPIDs\<close> option names is refused by the new host without any change of its state.
\<close>

theorem configured_blacklist_is_enforced:
  assumes "set_laws (he_S E)" and "NewHost E Y opts = Returns (Inr nd)"
    and "WithBlackPIDs pids \<in> set opts" and "rpid E c \<in> set pids"
  shows "handleNewConnection E V c (nd_host nd) = Returns (nd_host nd, False, None)"
proof -
  obtain i where i: "apply_host_options Y opts default_setup = Inr i"
    using assms(2) by (cases "apply_host_options Y opts default_setup") (auto simp: NewHost_def)
  then obtain nw where a: "assemble E (ke_exchangerHandle Y) i nw = Inr nd"
    using NewHost_parts [OF i assms(2)] by auto
  have "rpid E c \<in> elems (he_S E) (bl_pidSet (blacklist (nd_host nd)))"
    using given_blackPIDs [OF i assms(3)] assms(4) configured_blacklist_pids [OF assms(1)] assemble_parts [OF a]
    by fastforce
  then show ?thesis using assms(1) by (simp add: handleNewConnection_def BlackConn_iff)
qed

text \<open>The keys of a host \<open>me\<close>, and a host built of defaults that does not want to hear of \<open>you\<close>.\<close>

definition sample_keys :: "(nat, nat, nat) key_env" where
  "sample_keys =
     \<lparr>ke_EasyToUseTLSConfig = (\<lambda>_. Inl ''no entropy''), ke_EasyToUsePIDLoader = (\<lambda>_. Inl ''no certificate''),
      ke_IDFromPriKey = (\<lambda>_. Returns (Inr ''me'')), ke_exchangerHandle = 7\<rparr>"

definition sample_options :: "(nat, nat, string list, handle list, string, nat) host_option list" where
  "sample_options = [WithNetworkType NetworkTypeTCP, WithPriKey (Some 1), WithBlackPIDs [''you'']]"

definition sample_setup :: "(nat, nat, string list, handle list, string, nat) host_setup" where
  "sample_setup =
     \<lparr>hs_cfg = \<lparr>cfg_ListenAddresses = [], cfg_DirectPeers = None, cfg_BlackNetAddresses = [], cfg_BlackPIDs = [''you''],
        cfg_CompressMsg = False, cfg_PayloadUnmarshalerConcurrency = 100,
        cfg_PayloadHandlerRouterConcurrency = 100, cfg_HandlerExecutorConcurrency = 200\<rparr>,
      hs_nwCfg = \<lparr>nc_Type = NetworkTypeTCP, nc_PrivateKey = Some 1, nc_TLSEnabled = False, nc_TLSConfig = None,
        nc_PIDLoader = None, nc_DialLoopbackEnabled = False\<rparr>,
      hs_store = None, hs_supervisor = None, hs_connMgr = None, hs_sendStreamPoolBuilder = None,
      hs_sendStreamPoolMgr = None, hs_receiveStreamMgr = None, hs_protocolMgr = None, hs_protocolExr = None,
      hs_blacklist = None\<rparr>"

lemma sample_setup_of_options: "apply_host_options sample_keys sample_options default_setup = Inr sample_setup"
  by (simp add: sample_options_def sample_setup_def default_setup_def)

lemma sample_setup_wf: "setup_wf sample_env sample_setup"
  by (simp add: setup_wf_def sample_setup_def sample_env_def list_set_laws)

lemma sample_NewHost:
  "\<exists>nd :: (nat, string list, handle list, string, nat) node.
     NewHost sample_env sample_keys sample_options = Returns (Inr nd)"
proof -
  have nw: "\<exists>nw :: (string, nat) tcp_network.
      config_NewNetwork (ke_IDFromPriKey sample_keys) (hs_nwCfg sample_setup) = Returns (Inr nw)"
    by (simp add: config_NewNetwork_def sample_keys_def sample_setup_def newTCPNetwork_def
        tcp_options_of_def NewNetwork_def apply_tcp_options_def checkTlsCfg_def blank_network_def)
  have "\<exists>nd. assemble sample_env (ke_exchangerHandle sample_keys) sample_setup nw = Inr nd"
    for nw :: "(string, nat) tcp_network"
    by (simp add: assemble_def sample_setup_def option_or_def Let_def sample_env_def
        NewProtocolManager_def pm_AttachHost_def SetProtocolSupportedNotifyFunc_def
        SetProtocolUnsupportedNotifyFunc_def host_RegisterMsgPayloadHandler_def RegisterMsgPayloadHandler_def
        AddProtocol_def basic_book_ops_def initialOrGetProtocolSet_def NewBasicPeerStore_def NewProtocolBook_def)
  moreover have "nc_PrivateKey (hs_nwCfg sample_setup) = Some 1" by (simp add: sample_setup_def)
  ultimately show ?thesis using nw by (auto simp: NewHost_def sample_setup_of_options)
qed

theorem configured_blacklist_is_enforced_witness:
  "\<exists>nd :: (nat, string list, handle list, string, nat) node.
     NewHost sample_env sample_keys sample_options = Returns (Inr nd) \<and>
     handleNewConnection sample_env sample_new 1 (nd_host nd) = Returns (nd_host nd, False, None)"
proof -
  obtain nd :: "(nat, string list, handle list, string, nat) node"
    where nd: "NewHost sample_env sample_keys sample_options = Returns (Inr nd)"
    using sample_NewHost by auto
  have "set_laws (he_S sample_env)" "rpid sample_env 1 \<in> set [''you'']"
    "WithBlackPIDs [''you''] \<in> set sample_options"
    by (simp_all add: sample_env_def list_set_laws sample_options_def)
  with configured_blacklist_is_enforced [OF _ nd] nd show ?thesis by blast
qed

text \<open>A host that refuses nobody; the peer \<open>you\<close> connects, the connection is closed, and its cleanup runs to the end.\<close>

definition open_options :: "(nat, nat, string list, handle list, string, nat) host_option list" where
  "open_options = [WithNetworkType NetworkTypeTCP, WithPriKey (Some 1)]"

definition open_setup :: "(nat, nat, string list, handle list, string, nat) host_setup" where
  "open_setup = sample_setup\<lparr>hs_cfg := (hs_cfg sample_setup)\<lparr>cfg_BlackPIDs := []\<rparr>\<rparr>"

lemma open_setup_of_options: "apply_host_options sample_keys open_options default_setup = Inr open_setup"
  by (simp add: open_options_def open_setup_def sample_setup_def default_setup_def)

lemma open_setup_wf: "setup_wf sample_env open_setup"
  by (simp add: setup_wf_def open_setup_def sample_setup_def sample_env_def list_set_laws)

definition visit :: "(string list, handle list, string, nat) sys_event list" where
  "visit = accept_steps 1 @ SeeClosed 1 # replicate 8 (StepClose (\<lambda>_. None) 1)"

definition open_host :: "(string list, handle list, string, nat) host" where
  "open_host =
     \<lparr>connMgr = NewLevelConnectionManager list_set,
      protocolMgr = \<lparr>pm_lPID = ''me'', pm_handlers = [ProtocolExchangerProtocolID \<mapsto> Some 7],
         pm_protocolBook = fst (AddProtocol list_set (NewProtocolBook ''me'') ''me'' [ProtocolExchangerProtocolID]),
         pm_supportedCallback = Some True, pm_unsupportedCallback = Some False\<rparr>,
      sendStreamPoolMgr = NewSendStreamPoolManager, receiveStreamMgr = NewReceiveStreamManager,
      blacklist = Blacklist.NewBlacklist list_set, addresses = Map.empty, connExclusive = Map.empty,
      effects = empty_effects\<rparr>"

lemma open_NewHost:
  "\<exists>nd :: (nat, string list, handle list, string, nat) node.
     NewHost sample_env sample_keys open_options = Returns (Inr nd) \<and> nd_host nd = open_host"
proof -
  have nw: "\<exists>nw :: (string, nat) tcp_network. nw_localPID nw = ''me'' \<and>
      config_NewNetwork (ke_IDFromPriKey sample_keys) (hs_nwCfg open_setup) = Returns (Inr nw)"
    by (simp add: config_NewNetwork_def sample_keys_def open_setup_def sample_setup_def newTCPNetwork_def
        tcp_options_of_def NewNetwork_def apply_tcp_options_def checkTlsCfg_def blank_network_def)
  have "\<exists>nd. assemble sample_env (ke_exchangerHandle sample_keys) open_setup nw = Inr nd \<and> nd_host nd = open_host"
    if "nw_localPID nw = ''me''" for nw :: "(string, nat) tcp_network"
    using that
    by (simp add: assemble_def open_setup_def sample_setup_def option_or_def Let_def sample_env_def sample_keys_def
        open_host_def configured_blacklist_def
        NewProtocolManager_def pm_AttachHost_def SetProtocolSupportedNotifyFunc_def
        SetProtocolUnsupportedNotifyFunc_def host_RegisterMsgPayloadHandler_def RegisterMsgPayloadHandler_def
        AddProtocol_def basic_book_ops_def initialOrGetProtocolSet_def NewBasicPeerStore_def NewProtocolBook_def)
  moreover have "nc_PrivateKey (hs_nwCfg open_setup) = Some 1" by (simp add: open_setup_def sample_setup_def)
  ultimately show ?thesis using nw by (auto simp: NewHost_def open_setup_of_options)
qed

lemma visit_steps:
  "visit = Arrive 1 # (let x = StepNew sample_new in [x, x, x, x, x, x, x, x, x, x, x, x, x, x, x]) @ SeeClosed 1 #
     (let y = StepClose (\<lambda>_. None) 1 in [y, y, y, y, y, y, y, y])"
  by (simp add: visit_def accept_steps_def numeral_eq_Suc Let_def)

lemma open_host_visited:
  "\<exists>s. sys_run sample_env visit (sys_start open_host) = Some s \<and>
     sys_loops s 1 = LoopCloses (CloseDone True) \<and> sys_new s = Some (1, NewDone True None)"
  unfolding visit_steps
  by (simp add: sys_start_def sample_step_defs RemovePeerConnAndCloseSendStreamPool_def
      ClosePeerReceiveStreams_def NewReceiveStreamManager_def NewLevelConnectionManager_def open_host_def
      empty_effects_def ProtocolExchangerProtocolID_def DefaultMaxCountOfPeers_def
      DefaultMaxCountOfConnectionsEachPeer_def DefaultEliminationStrategy_def split: option.split)

theorem new_host_is_well_formed_witness:
  "\<exists>(nd :: (nat, string list, handle list, string, nat) node) s.
     NewHost sample_env sample_keys open_options = Returns (Inr nd) \<and>
     sys_run sample_env visit (sys_start (nd_host nd)) = Some s \<and> sys_loops s 1 = LoopCloses (CloseDone True) \<and>
     host_wf sample_env (sys_host s) \<and> connExclusive (sys_host s) = Map.empty \<and> host_ID (nd_host nd) \<noteq> ''''"
proof -
  obtain nd :: "(nat, string list, handle list, string, nat) node"
    where nd: "NewHost sample_env sample_keys open_options = Returns (Inr nd)" "nd_host nd = open_host"
    using open_NewHost by blast
  obtain s where s: "sys_run sample_env visit (sys_start (nd_host nd)) = Some s"
    "sys_loops s 1 = LoopCloses (CloseDone True)" "sys_new s = Some (1, NewDone True None)"
    using open_host_visited nd(2) by auto
  from new_host_is_well_formed [OF open_setup_of_options open_setup_wf nd(1) s(1)] nd(1) s show ?thesis by blast
qed

end
