(* ===== verification/Host_Lifecycle.thy ===== *)
theory Host_Lifecycle
  imports Host_Construction
begin

text \<open>
  \<open>Start\<close>, \<open>Stop\<close> and \<open>reset\<close> of \<open>host.go\<close>, over the host that \<open>Host_Construction\<close> builds. The pipeline of
  rainbowcat and the sockets are arguments.
\<close>

section \<open>Starting and stopping\<close>

definition reset :: "('c, 's, 'n, 'm, 'h) node \<Rightarrow> ('c, 's, 'n, 'm, 'h) node" where
  "reset nd = nd\<lparr>nd_host := (nd_host nd)\<lparr>connExclusive := Map.empty\<rparr>, nd_pushSignals := 0, nd_closed := False\<rparr>"

text \<open>
  What \<open>Start\<close> meets: the error of \<open>RunParallelTaskPipeline\<close> for the three concurrencies, what listening
  meets, and the direct peers in the order of the range.
\<close>

record 'm start_env =
  se_pipeline :: "8 word list \<Rightarrow> go_error option"
  se_resolved :: "string + 'm listen_try list"
  se_order :: "(peer_id \<times> 'm) list"

datatype start_error = ErrPipeline go_error | ErrListen tcp_error | ErrAddAddress go_error

definition runHandleMsgPipeline ::
  "'m start_env \<Rightarrow> ('c, 's, 'n, 'm, 'h) node \<Rightarrow> ('c, 's, 'n, 'm, 'h) node \<times> go_error option" where
  "runHandleMsgPipeline W nd =
     (let cfg = nd_cfg nd
      in case se_pipeline W [cfg_PayloadUnmarshalerConcurrency cfg, cfg_PayloadHandlerRouterConcurrency cfg,
                cfg_HandlerExecutorConcurrency cfg] of
           Some e \<Rightarrow> (nd, Some e)
         | None \<Rightarrow> (nd\<lparr>nd_pipeline := True\<rparr>, None))"

text \<open>The loop over the direct peers; no \<open>setDirectPeer\<close> fails.\<close>

definition set_direct_peers ::
  "('s, 'n, 'm) host_env \<Rightarrow> (peer_id \<times> 'm) list \<Rightarrow> ('c, 's, 'n, 'm, 'h) node \<Rightarrow> ('c, 's, 'n, 'm, 'h) node" where
  "set_direct_peers E order nd =
     (let d = foldl (\<lambda>d (pid, dp). setDirectPeer (he_S E) d pid dp)
                \<lparr>ds_directPeers = cfg_DirectPeers (nd_cfg nd), ds_supervisor = nd_supervisor nd,
                 ds_connMgr = connMgr (nd_host nd)\<rparr> order
      in nd\<lparr>nd_supervisor := ds_supervisor d, nd_host := (nd_host nd)\<lparr>connMgr := ds_connMgr d\<rparr>\<rparr>)"

text \<open>
  The second component is \<open>True\<close> when this call started the three loops. \<open>once\<close> counts as done whatever
  its function does.
\<close>

definition host_Start ::
  "('s, 'n, 'm) host_env \<Rightarrow> 'm start_env \<Rightarrow> ('c, 's, 'n, 'm, 'h) node
   \<Rightarrow> ('c, 's, 'n, 'm, 'h) node \<times> bool \<times> start_error option" where
  "host_Start E W nd0 =
     (if nd_onceDone nd0 then (nd0, False, None)
      else
        (let nd = reset (nd0\<lparr>nd_onceDone := True\<rparr>);
             (nd1, perr) = runHandleMsgPipeline W nd
         in case perr of
              Some e \<Rightarrow> (nd1, True, Some (ErrPipeline e))
            | None \<Rightarrow>
                (let (nw, lerr, lost) = Listen (se_resolved W) (nd_network nd1);
                     nd2 = nd1\<lparr>nd_network := nw\<rparr>
                 in case lerr of
                      Some e \<Rightarrow> (nd2, True, Some (ErrListen e))
                    | None \<Rightarrow>
                        (let h = nd_host nd2;
                             (a, aerr) = AddAddress (he_str E) (addresses h) (nw_localPID nw) (ListenAddresses nw);
                             nd3 = nd2\<lparr>nd_host := h\<lparr>addresses := a\<rparr>\<rparr>
                         in case aerr of
                              Some e \<Rightarrow> (nd3, True, Some (ErrAddAddress e))
                            | None \<Rightarrow>
                                (let nd4 = set_direct_peers E (se_order W) nd3
                                 in (nd4\<lparr>nd_supervisor := Start (nd_supervisor nd4)\<rparr>, True, None))))))"

text \<open>
  \<open>nilPipeline\<close> is what closing a nil pipeline does. The deferred assignment of a new \<open>once\<close> and the
  connections that the connection manager closes are part of the result.
\<close>

definition host_Stop ::
  "('s, 'n, 'm) host_env \<Rightarrow> unit run \<Rightarrow> ('c, 's, 'n, 'm, 'h) node \<Rightarrow> ('c, 's, 'n, 'm, 'h) node run" where
  "host_Stop E nilPipeline nd =
     (if nd_closed nd then Panics CloseOfClosedChannel
      else run_bind (Stop (nd_supervisor nd)) (\<lambda>sup'.
             let h = close_conns (Close (he_N E) (connMgr (nd_host nd))) (nd_host nd)
             in run_bind (network_Close (nd_network nd)) (\<lambda>nw.
                  run_bind (if nd_pipeline nd then Returns () else nilPipeline) (\<lambda>_.
                    Returns (nd\<lparr>nd_host := h, nd_supervisor := sup', nd_network := nw, nd_closed := True,
                      nd_onceDone := False\<rparr>)))))"

section \<open>Lemmas\<close>

lemma direct_peers_keep_connections:
  "highLevelConn (ds_connMgr (foldl (\<lambda>d (pid, dp). setDirectPeer S d pid dp) d order)) = highLevelConn (ds_connMgr d) \<and>
   lowLevelConn (ds_connMgr (foldl (\<lambda>d (pid, dp). setDirectPeer S d pid dp) d order)) = lowLevelConn (ds_connMgr d)"
  by (induction order arbitrary: d) (auto simp: setDirectPeer_def AddHighLevelPeer_def)

lemma set_direct_peers_simps [simp]:
  "highLevelConn (connMgr (nd_host (set_direct_peers E order nd))) = highLevelConn (connMgr (nd_host nd))"
  "lowLevelConn (connMgr (nd_host (set_direct_peers E order nd))) = lowLevelConn (connMgr (nd_host nd))"
  "effects (nd_host (set_direct_peers E order nd)) = effects (nd_host nd)"
  by (simp_all add: set_direct_peers_def Let_def direct_peers_keep_connections)

text \<open>A start that gets as far as the direct peers or not, seen by the connection manager.\<close>

lemma start_keeps_connections:
  assumes "host_Start E W nd = (nd', started, err)"
  shows "highLevelConn (connMgr (nd_host nd')) = highLevelConn (connMgr (nd_host nd)) \<and>
    lowLevelConn (connMgr (nd_host nd')) = lowLevelConn (connMgr (nd_host nd)) \<and>
    effects (nd_host nd') = effects (nd_host nd)"
  using assms
  by (auto simp: host_Start_def Let_def reset_def runHandleMsgPipeline_def
      split: if_splits option.splits prod.splits)

lemma fresh_start: "\<not> nd_onceDone nd \<Longrightarrow> fst (snd (host_Start E W nd))"
  by (auto simp: host_Start_def Let_def split: option.splits prod.splits)

lemma same_connections:
  assumes "highLevelConn l' = highLevelConn l" and "lowLevelConn l' = lowLevelConn l"
  shows "Connected C l' p = Connected C l p" and "lcm_conns C l' p = lcm_conns C l p"
  using assms
  by (simp_all add: Connected_def getHighLevelConnections_def getLowLevelConnections_def lcm_conns_def
      lcm_lookup_def cong: option.case_cong)

lemma Close_covers: "lcm_conns C l p \<subseteq> set (Close C l)"
  by (fastforce simp: lcm_conns_def lcm_lookup_def Close_def split: option.splits dest!: conn_set_of_in)

lemma stop_parts:
  assumes "host_Stop E nilPipeline nd = Returns nd'"
  shows "connMgr (nd_host nd') = connMgr (nd_host nd) \<and> nd_closed nd' \<and> \<not> nd_onceDone nd' \<and>
    closedConns (effects (nd_host nd')) =
      closedConns (effects (nd_host nd)) @ Close (he_N E) (connMgr (nd_host nd)) \<and>
    nw_closed (nd_network nd') \<and> cs_closed (nd_supervisor nd') \<and> \<not> cs_started (nd_supervisor nd')"
  using assms
  by (auto simp: host_Stop_def run_bind_Returns_iff Let_def network_Close_def Stop_def split: if_splits)

section \<open>Properties\<close>

text \<open>
  A failed \<open>Start\<close> cannot be repeated. When the pipeline or the listening fails, the error is returned once;
  every further \<open>Start\<close> reports success and does nothing, so that the loops run but the host does not listen
  and its supervisor is not started. Only after \<open>Stop\<close> does a \<open>Start\<close> work again; stopping twice in a row panics.
\<close>

theorem failed_start_is_final:
  assumes "\<not> nd_onceDone nd" and "host_Start E W nd = (nd1, started, Some e)"
  shows "started \<and> host_Start E W' nd1 = (nd1, False, None) \<and> nd_supervisor nd1 = nd_supervisor nd \<and>
    (\<forall>nd2. host_Stop E nilPipeline nd1 = Returns nd2 \<longrightarrow>
       host_Stop E nilPipeline nd2 = Panics CloseOfClosedChannel \<and>
       fst (snd (host_Start E W' nd2)))"
proof -
  have p: "started" "nd_onceDone nd1" "nd_supervisor nd1 = nd_supervisor nd"
    using assms
    by (auto simp: host_Start_def Let_def reset_def runHandleMsgPipeline_def split: option.splits prod.splits)
  have "host_Stop E nilPipeline nd2 = Panics CloseOfClosedChannel \<and> fst (snd (host_Start E W' nd2))"
    if "host_Stop E nilPipeline nd1 = Returns nd2" for nd2
    using stop_parts [OF that] fresh_start [of nd2] by (simp add: host_Stop_def)
  moreover have "host_Start E W' nd1 = (nd1, False, None)" using p(2) by (simp add: host_Start_def)
  ultimately show ?thesis using p by blast
qed

text \<open>
  C23. A stopped host forgets nothing. \<open>Stop\<close> closes every connection the connection manager holds, and after a new
  \<open>Start\<close> the connection manager holds exactly the same, closed connections, and every peer that was connected counts
  as connected. The accept loop of a connection does not clean it up either: when the host's channel is closed from the
  round after this one on, the loop calls \<open>handleClosingConn\<close> exactly if this round began with the connection closed
  and the host not, that is, if the connection had ended before the host was stopped; otherwise it ends without it.
\<close>

theorem restart_keeps_dead_connections:
  assumes "host_Stop E nilPipeline nd = Returns nd1" and "host_Start E W nd1 = (nd2, started, err)"
    and "list_all ar_hostClosed rest"
  shows "Connected (he_N E) (connMgr (nd_host nd2)) p = Connected (he_N E) (connMgr (nd_host nd)) p \<and>
    host_conns E (nd_host nd2) p = host_conns E (nd_host nd) p \<and>
    host_conns E (nd_host nd) p \<subseteq> set (closedConns (effects (nd_host nd2))) \<and>
    (snd (snd (acceptReceiveStreamLoop (i # rest))) = CleanedUp \<longleftrightarrow> \<not> ar_hostClosed i \<and> ar_connClosed i)"
proof -
  have "snd (snd (acceptReceiveStreamLoop rest)) \<noteq> CleanedUp" using assms(3) by (cases rest) auto
  then have "snd (snd (acceptReceiveStreamLoop (i # rest))) = CleanedUp \<longleftrightarrow> \<not> ar_hostClosed i \<and> ar_connClosed i"
    by (auto split: sum.splits prod.splits)
  moreover have l: "highLevelConn (connMgr (nd_host nd2)) = highLevelConn (connMgr (nd_host nd))"
    "lowLevelConn (connMgr (nd_host nd2)) = lowLevelConn (connMgr (nd_host nd))"
    "effects (nd_host nd2) = effects (nd_host nd1)"
    using stop_parts [OF assms(1)] start_keeps_connections [OF assms(2)] by simp_all
  moreover have "host_conns E (nd_host nd) p \<subseteq> set (closedConns (effects (nd_host nd2)))"
    using stop_parts [OF assms(1)] l(3) Close_covers [of "he_N E" "connMgr (nd_host nd)" p] by auto
  ultimately show ?thesis using same_connections [OF l(1,2)] by blast
qed

text \<open>A host that listens, is connected to \<open>you\<close> and has nothing else configured.\<close>

definition sample_node :: "bool \<Rightarrow> (nat, string list, handle list, string, nat) node" where
  "sample_node started =
     \<lparr>nd_host = sample_host [\<lparr>pc_pid = ''you'', pc_connSet = [1]\<rparr>], nd_supervisor = NewConnectionSupervisor 10,
      nd_network = \<lparr>nw_tlsCfg = None, nw_pidLoader = None, nw_tlsEnabled = False, nw_dialLoopbackEnabled = False,
        nw_localPID = ''me'', nw_tcpListeners = [], nw_listening = False, nw_onceDone = False, nw_closed = False\<rparr>,
      nd_cfg = hs_cfg sample_setup, nd_builder = None, nd_exchanger = ''/exr'', nd_pushSignals = 0,
      nd_onceDone = started, nd_closed = False, nd_pipeline = started\<rparr>"

definition sample_start :: "(string + string listen_try list) \<Rightarrow> string start_env" where
  "sample_start r = \<lparr>se_pipeline = (\<lambda>_. None), se_resolved = r, se_order = [(''you'', ''/ip4/1'')]\<rparr>"

theorem failed_start_is_final_witness:
  "\<exists>nd1. host_Start sample_env (sample_start (Inl ''no interface'')) (sample_node False) =
       (nd1, True, Some (ErrListen (ErrOfNet ''no interface''))) \<and>
     host_Start sample_env (sample_start (Inr [])) nd1 = (nd1, False, None)"
proof -
  obtain nd1 where s: "host_Start sample_env (sample_start (Inl ''no interface'')) (sample_node False) =
       (nd1, True, Some (ErrListen (ErrOfNet ''no interface'')))"
    by (simp add: host_Start_def Let_def reset_def runHandleMsgPipeline_def Listen_def resetCheck_def
        sample_start_def sample_node_def)
  have "\<not> nd_onceDone (sample_node False)" by (simp add: sample_node_def)
  from failed_start_is_final [OF this s] s show ?thesis by blast
qed

theorem restart_keeps_dead_connections_witness:
  "\<exists>nd1 nd2 started err. host_Stop sample_env (Returns ()) (sample_node True) = Returns nd1 \<and>
     host_Start sample_env (sample_start (Inr [\<lparr>lt_canListen = True, lt_argsErr = None, lt_listenErr = None,
         lt_wrapped = Inr ''/ip4/2''\<rparr>])) nd1 = (nd2, started, err) \<and> err = None \<and>
     Connected list_set (connMgr (nd_host nd2)) ''you'' \<and> 1 \<in> set (closedConns (effects (nd_host nd2)))"
proof -
  let ?W = "sample_start (Inr [\<lparr>lt_canListen = True, lt_argsErr = None, lt_listenErr = None,
      lt_wrapped = Inr ''/ip4/2''\<rparr>])"
  obtain nd1 where s: "host_Stop sample_env (Returns ()) (sample_node True) = Returns nd1"
    "\<not> nd_onceDone nd1" "nw_closed (nd_network nd1)"
    by (simp add: host_Stop_def sample_node_def Stop_def NewConnectionSupervisor_def network_Close_def Let_def)
  obtain nd2 started err where t: "host_Start sample_env ?W nd1 = (nd2, started, err)" "err = None"
    using s(2,3) by (simp add: host_Start_def Let_def reset_def runHandleMsgPipeline_def Listen_def resetCheck_def
        sample_start_def listenTCP_def)
  have c: "Connected list_set (connMgr (nd_host (sample_node True))) ''you''"
    "1 \<in> host_conns sample_env (nd_host (sample_node True)) ''you''"
    by (simp_all add: sample_node_def sample_host_def Connected_def getHighLevelConnections_def
        getLowLevelConnections_def lcm_conns_def lcm_lookup_def sample_env_def)
  have n: "he_N sample_env = list_set" by (simp add: sample_env_def)
  have r: "list_all ar_hostClosed ([] :: accept_round list)" by simp
  note k = restart_keeps_dead_connections [OF s(1) t(1) r, of "''you''"]
  have "Connected list_set (connMgr (nd_host nd2)) ''you''" using k c(1) unfolding n by blast
  moreover have "1 \<in> set (closedConns (effects (nd_host nd2)))" using k c(2) by blast
  ultimately show ?thesis using s(1) t by blast
qed

end
