(* ===== verification/Host_Pushes.thy ===== *)
theory Host_Pushes
  imports Exchanger_Pushes Host_Messages
begin

text \<open>
  How the news of a registered or unregistered protocol reaches the other peers: \<open>triggerPushProtocol\<close>,
  \<open>pushProtocolSignalLoop\<close> and \<open>pushProtocolsToOthers\<close> of \<open>host.go\<close>, \<open>sendProtocolsToOther\<close> of
  \<open>components/protocol_exchanger.go\<close>, and what the handlers of both sides make of it. The goroutines, callers of
  \<open>RegisterMsgPayloadHandler\<close> and \<open>UnregisterMsgPayloadHandler\<close>, the loop and one goroutine for each peer of a round,
  are interleaved. How a push waits for its turn and for its answer is the subject of \<open>Exchanger_Pushes\<close>.
\<close>

section \<open>Pushing\<close>

text \<open>The message that \<open>sendProtocolsToOther\<close> hands to \<open>SendMsg\<close>: protocol, receiver, payload.\<close>

definition sendProtocolsToOther ::
  "proto_codec \<Rightarrow> peer_id \<Rightarrow> protocol_id list \<Rightarrow> peer_id \<Rightarrow> exchanger_type
   \<Rightarrow> string + protocol_id \<times> peer_id \<times> bytes" where
  "sendProtocolsToOther C localPID protocols otherPID payloadType =
     (case buildProtocolsPayload C localPID protocols payloadType of
        Inl err \<Rightarrow> Inl err
      | Inr payloadBz \<Rightarrow> Inr (ProtocolExchangerProtocolID, otherPID, payloadBz))"

text \<open>
  The loop waits for a signal; or it waits for the goroutines of a round, of which those for the peers \<open>toSend\<close> have
  not called \<open>SendMsg\<close> yet and those for \<open>sent\<close> have, without an error, and still run, \<open>LoopPushes toSend sent\<close>; or it has ended.
\<close>

datatype push_loop = LoopWaits | LoopPushes "peer_id list" "peer_id list" | LoopEnded

text \<open>
  \<open>pl_callers\<close> counts the callers that have changed the handlers and not yet triggered a push. \<open>pl_others\<close> and
  \<open>pl_sent\<close> belong to the current or the last round: its peers, and what was handed to \<open>SendMsg\<close>.
\<close>

record ('b, 'h, 'f) push_state =
  pl_protocolMgr :: "('b, 'h, 'f) protocol_manager"
  pl_signals :: nat
  pl_callers :: nat
  pl_loop :: push_loop
  pl_others :: "peer_id list"
  pl_sent :: "(protocol_id \<times> peer_id \<times> bytes) list"

definition pushProtocolsToOthers :: "peer_id list \<Rightarrow> ('b, 'h, 'f) push_state \<Rightarrow> ('b, 'h, 'f) push_state" where
  "pushProtocolsToOthers others s = s\<lparr>pl_loop := LoopPushes others [], pl_others := others, pl_sent := []\<rparr>"

text \<open>
  What \<open>AllPeers\<close> answers at the start of a round comes with the event, and so does the error of \<open>SendMsg\<close>: with
  one \<open>PushProtocols\<close> returns it, \<open>pushProtocolsToOthers\<close> logs it, and the goroutine of the peer has ended.
\<close>

datatype 'h loop_event =
    Register protocol_id "'h option"
  | Unregister protocol_id
  | Trigger
  | TakeSignal "peer_id list"
  | SendPush peer_id "string option"
  | EndPush peer_id
  | EndRound
  | EndLoop

definition after_change ::
  "('b, 'h, 'f) push_state \<Rightarrow> ('b, 'h, 'f) protocol_manager \<times> pm_error option \<Rightarrow> ('b, 'h, 'f) push_state" where
  "after_change s r =
     (case r of
        (pm, Some _) \<Rightarrow> s\<lparr>pl_protocolMgr := pm\<rparr>
      | (pm, None) \<Rightarrow> s\<lparr>pl_protocolMgr := pm, pl_callers := pl_callers s + 1\<rparr>)"

fun loop_exec ::
  "'b protocol_book_ops \<Rightarrow> ((protocol_id \<rightharpoonup> 'h option) \<Rightarrow> protocol_id list) \<Rightarrow> proto_codec \<Rightarrow> peer_id
   \<Rightarrow> 'h loop_event \<Rightarrow> ('b, 'h, 'f) push_state \<Rightarrow> ('b, 'h, 'f) push_state option" where
  "loop_exec B mapKeys C me (Register x h) s =
     Some (after_change s (RegisterMsgPayloadHandler B (pl_protocolMgr s) x h))"
| "loop_exec B mapKeys C me (Unregister x) s =
     Some (after_change s (UnregisterMsgPayloadHandler B (pl_protocolMgr s) x))"
| "loop_exec B mapKeys C me Trigger s =
     (if pl_callers s = 0 then None
      else Some (s\<lparr>pl_callers := pl_callers s - 1, pl_signals := triggerPushProtocol (pl_signals s)\<rparr>))"
| "loop_exec B mapKeys C me (TakeSignal others) s =
     (if pl_loop s = LoopWaits \<and> 0 < pl_signals s
      then Some (pushProtocolsToOthers others (s\<lparr>pl_signals := pl_signals s - 1\<rparr>)) else None)"
| "loop_exec B mapKeys C me (SendPush other sendErr) s =
     (case pl_loop s of
        LoopPushes toSend sent \<Rightarrow>
          if other \<in> set toSend
          then (case sendProtocolsToOther C me (RegisteredAll mapKeys (pl_protocolMgr s)) other PUSH of
                  Inl _ \<Rightarrow> Some (s\<lparr>pl_loop := LoopPushes (remove1 other toSend) sent\<rparr>)
                | Inr msg \<Rightarrow> Some (s\<lparr>pl_loop := LoopPushes (remove1 other toSend)
                                     (if sendErr = None then other # sent else sent),
                                   pl_sent := pl_sent s @ [msg]\<rparr>))
          else None
      | _ \<Rightarrow> None)"
| "loop_exec B mapKeys C me (EndPush other) s =
     (case pl_loop s of
        LoopPushes toSend sent \<Rightarrow>
          if other \<in> set sent then Some (s\<lparr>pl_loop := LoopPushes toSend (remove1 other sent)\<rparr>) else None
      | _ \<Rightarrow> None)"
| "loop_exec B mapKeys C me EndRound s =
     (if pl_loop s = LoopPushes [] [] then Some (s\<lparr>pl_loop := LoopWaits\<rparr>) else None)"
| "loop_exec B mapKeys C me EndLoop s =
     (if pl_loop s = LoopWaits then Some (s\<lparr>pl_loop := LoopEnded\<rparr>) else None)"

fun loop_run ::
  "'b protocol_book_ops \<Rightarrow> ((protocol_id \<rightharpoonup> 'h option) \<Rightarrow> protocol_id list) \<Rightarrow> proto_codec \<Rightarrow> peer_id
   \<Rightarrow> 'h loop_event list \<Rightarrow> ('b, 'h, 'f) push_state \<Rightarrow> ('b, 'h, 'f) push_state option" where
  "loop_run B mapKeys C me [] s = Some s"
| "loop_run B mapKeys C me (e # es) s =
     (case loop_exec B mapKeys C me e s of None \<Rightarrow> None | Some s' \<Rightarrow> loop_run B mapKeys C me es s')"

definition loop_start :: "('b, 'h, 'f) protocol_manager \<Rightarrow> ('b, 'h, 'f) push_state" where
  "loop_start pm = \<lparr>pl_protocolMgr = pm, pl_signals = 0, pl_callers = 0, pl_loop = LoopWaits, pl_others = [], pl_sent = []\<rparr>"

section \<open>No change is lost\<close>

interpretation loop_runs: event_runs "loop_exec B mapKeys C me" "loop_run B mapKeys C me" for B mapKeys C me
  by unfold_locales simp_all

text \<open>A refused change changes nothing: with a protocol book that keeps its contract there is no other error.\<close>

context protocol_book
begin

lemma refused_change:
  assumes "invar (pm_protocolBook p)"
  shows "RegisterMsgPayloadHandler ops p x h = (p', Some e) \<Longrightarrow> p' = p"
    and "UnregisterMsgPayloadHandler ops p x = (p', Some e) \<Longrightarrow> p' = p"
  using add_law [OF assms, of "pm_lPID p" "[x]"] delete_law [OF assms, of "pm_lPID p" "[x]"]
  by (auto simp: RegisterMsgPayloadHandler_def UnregisterMsgPayloadHandler_def Let_def
      split: option.split_asm if_split_asm prod.split_asm)

end

text \<open>
  The state in which the handlers may differ from what the last round sent: a signal or a caller that will give one is
  on its way.
\<close>

definition push_pending :: "('b, 'h, 'f) push_state \<Rightarrow> bool" where
  "push_pending s \<longleftrightarrow> 0 < pl_callers s + pl_signals s"

definition told :: "((protocol_id \<rightharpoonup> 'h option) \<Rightarrow> protocol_id list) \<Rightarrow> proto_codec \<Rightarrow> peer_id
   \<Rightarrow> ('b, 'h, 'f) push_state \<Rightarrow> peer_id \<Rightarrow> bool" where
  "told mapKeys C me s pid \<longleftrightarrow>
     (case sendProtocolsToOther C me (RegisteredAll mapKeys (pl_protocolMgr s)) pid PUSH of
        Inl _ \<Rightarrow> True | Inr msg \<Rightarrow> msg \<in> set (pl_sent s))"

definition still_to_send :: "push_loop \<Rightarrow> peer_id set" where
  "still_to_send l = (case l of LoopPushes toSend _ \<Rightarrow> set toSend | _ \<Rightarrow> {})"

definition push_loop_inv ::
  "((protocol_id \<rightharpoonup> 'h option) \<Rightarrow> protocol_id list) \<Rightarrow> proto_codec \<Rightarrow> peer_id \<Rightarrow> ('b, 'h, 'f) push_state \<Rightarrow> bool" where
  "push_loop_inv mapKeys C me s \<longleftrightarrow> pl_signals s \<le> 2 \<and>
     (\<not> push_pending s \<longrightarrow>
        (\<forall>pid\<in>set (pl_others s). pid \<in> still_to_send (pl_loop s) \<or> told mapKeys C me s pid) \<and>
        (\<forall>(x, pid, bz)\<in>set (pl_sent s). x = ProtocolExchangerProtocolID \<and> pid \<in> set (pl_others s) \<and>
           buildProtocolsPayload C me (RegisteredAll mapKeys (pl_protocolMgr s)) PUSH = Inr bz)) \<and>
     still_to_send (pl_loop s) \<subseteq> set (pl_others s)"

lemma after_change_cases:
  "after_change s r = (if snd r = None then s\<lparr>pl_protocolMgr := fst r, pl_callers := pl_callers s + 1\<rparr>
     else s\<lparr>pl_protocolMgr := fst r\<rparr>)"
  by (cases r) (auto simp: after_change_def split: option.split)

lemma push_loop_inv_start: "push_loop_inv mapKeys C me (loop_start pm)"
  by (simp add: push_loop_inv_def loop_start_def still_to_send_def)

lemma push_loop_inv_pending:
  "push_pending s \<Longrightarrow> push_loop_inv mapKeys C me s \<longleftrightarrow>
     pl_signals s \<le> 2 \<and> still_to_send (pl_loop s) \<subseteq> set (pl_others s)"
  by (auto simp: push_loop_inv_def)

lemma told_after_send:
  assumes "sendProtocolsToOther C me (RegisteredAll mapKeys (pl_protocolMgr s)) other PUSH = r"
    and "pl_sent s' = pl_sent s @ (case r of Inl _ \<Rightarrow> [] | Inr msg \<Rightarrow> [msg])"
    and "pl_protocolMgr s' = pl_protocolMgr s"
  shows "told mapKeys C me s' other" and "told mapKeys C me s pid \<Longrightarrow> told mapKeys C me s' pid"
  using assms by (auto simp: told_def split: sum.splits)

lemma SendPush_inv:
  assumes inv: "push_loop_inv mapKeys C me s" and l: "pl_loop s = LoopPushes toSend sent" and m: "other \<in> set toSend"
    and r: "sendProtocolsToOther C me (RegisteredAll mapKeys (pl_protocolMgr s)) other PUSH = r"
    and s': "s' = s\<lparr>pl_loop := LoopPushes (remove1 other toSend) sent',
        pl_sent := pl_sent s @ (case r of Inl _ \<Rightarrow> [] | Inr msg \<Rightarrow> [msg])\<rparr>"
  shows "push_loop_inv mapKeys C me s'"
proof -
  have left: "still_to_send (pl_loop s') \<subseteq> set toSend" using set_remove1_subset s' by (fastforce simp: still_to_send_def)
  have kept: "pid \<in> still_to_send (pl_loop s') \<or> pid = other" if "pid \<in> set toSend" for pid
    using that s' by (cases "pid = other") (simp_all add: still_to_send_def)
  have told: "told mapKeys C me s' other" "told mapKeys C me s pid \<Longrightarrow> told mapKeys C me s' pid" for pid
    using told_after_send [OF r, of s'] s' by simp_all
  have others: "set toSend \<subseteq> set (pl_others s)" using inv l by (simp add: push_loop_inv_def still_to_send_def)
  have new: "x = ProtocolExchangerProtocolID \<and> pid = other \<and>
      buildProtocolsPayload C me (RegisteredAll mapKeys (pl_protocolMgr s)) PUSH = Inr bz" if "r = Inr (x, pid, bz)" for x pid bz
    using r that by (auto simp: sendProtocolsToOther_def split: sum.split_asm)
  have "push_pending s' = push_pending s" by (simp add: s' push_pending_def)
  moreover have "pid \<in> still_to_send (pl_loop s') \<or> told mapKeys C me s' pid"
    if "\<not> push_pending s" "pid \<in> set (pl_others s)" for pid
  proof -
    have "pid \<in> set toSend \<or> told mapKeys C me s pid"
      using inv that l by (simp add: push_loop_inv_def still_to_send_def)
    then show ?thesis using kept [of pid] told by blast
  qed
  moreover have "x = ProtocolExchangerProtocolID \<and> pid \<in> set (pl_others s) \<and>
      buildProtocolsPayload C me (RegisteredAll mapKeys (pl_protocolMgr s)) PUSH = Inr bz"
    if "\<not> push_pending s" "(x, pid, bz) \<in> set (pl_sent s')" for x pid bz
    using inv that new [of x pid bz] m others s' by (cases r) (auto simp: push_loop_inv_def)
  ultimately show ?thesis using left others inv by (auto simp: push_loop_inv_def s')
qed

lemma push_loop_inv_cong:
  assumes "push_loop_inv mapKeys C me s" and "still_to_send (pl_loop s') = still_to_send (pl_loop s)"
    and "pl_protocolMgr s' = pl_protocolMgr s" "pl_signals s' = pl_signals s" "pl_callers s' = pl_callers s"
    "pl_others s' = pl_others s" "pl_sent s' = pl_sent s"
  shows "push_loop_inv mapKeys C me s'"
  using assms by (simp add: push_loop_inv_def told_def push_pending_def cong: sum.case_cong)

lemma push_loop_inv_change:
  assumes "push_loop_inv mapKeys C me s" and "snd r \<noteq> None \<Longrightarrow> fst r = pl_protocolMgr s"
  shows "push_loop_inv mapKeys C me (after_change s r)"
proof (cases "snd r = None")
  case True
  then have "push_pending (after_change s r)" by (simp add: after_change_cases push_pending_def)
  then show ?thesis using assms(1) True by (simp add: push_loop_inv_pending) (simp add: push_loop_inv_def after_change_cases)
qed (use assms in \<open>auto simp: after_change_cases intro: push_loop_inv_cong\<close>)

context protocol_book
begin

lemma loop_exec_book:
  assumes "invar (pm_protocolBook (pl_protocolMgr s))" and "loop_exec ops mapKeys C me e s = Some s'"
  shows "invar (pm_protocolBook (pl_protocolMgr s'))"
proof -
  note a = add_law [OF assms(1), of "pm_lPID (pl_protocolMgr s)"] and d = delete_law [OF assms(1), of "pm_lPID (pl_protocolMgr s)"]
  show ?thesis
    using assms a d
    by (cases e) (auto simp: after_change_cases RegisterMsgPayloadHandler_def UnregisterMsgPayloadHandler_def
        pushProtocolsToOthers_def Let_def case_prod_unfold split: option.splits if_splits push_loop.splits sum.splits)
qed

lemma loop_exec_inv:
  assumes inv: "push_loop_inv mapKeys C me s" and bk: "invar (pm_protocolBook (pl_protocolMgr s))"
    and r: "loop_exec ops mapKeys C me e s = Some s'"
  shows "push_loop_inv mapKeys C me s'"
proof (cases e)
  case (Register x h)
  then show ?thesis using r refused_change(1) [OF bk, of x h] push_loop_inv_change [OF inv]
    by (metis loop_exec.simps(1) option.exhaust option.inject prod.collapse)
next
  case (Unregister x)
  then show ?thesis using r refused_change(2) [OF bk, of x] push_loop_inv_change [OF inv]
    by (metis loop_exec.simps(2) option.exhaust option.inject prod.collapse)
next
  case Trigger
  then have "push_pending s'" using r by (auto simp: push_pending_def triggerPushProtocol_def split: if_splits)
  then show ?thesis using r Trigger inv
    by (simp add: push_loop_inv_pending split: if_splits) (auto simp: push_loop_inv_def triggerPushProtocol_def)
next
  case (TakeSignal others)
  then show ?thesis using r inv
    by (auto simp: push_loop_inv_def pushProtocolsToOthers_def still_to_send_def split: if_splits)
next
  case (SendPush other sendErr)
  with r obtain toSend sent where l: "pl_loop s = LoopPushes toSend sent" "other \<in> set toSend"
    by (auto split: push_loop.splits if_splits)
  show ?thesis
  proof (cases "sendProtocolsToOther C me (RegisteredAll mapKeys (pl_protocolMgr s)) other PUSH")
    case (Inl err)
    then show ?thesis using r SendPush l by (intro SendPush_inv [OF inv l Inl, of _ sent]) auto
  next
    case (Inr msg)
    then show ?thesis using r SendPush l by (intro SendPush_inv [OF inv l Inr, of _ "if sendErr = None then other # sent else sent"]) auto
  qed
next
  case (EndPush other)
  then show ?thesis using r
    by (intro push_loop_inv_cong [OF inv]) (auto simp: still_to_send_def split: push_loop.splits if_splits)
next
  case EndRound
  then show ?thesis using r
    by (intro push_loop_inv_cong [OF inv]) (auto simp: still_to_send_def split: if_splits)
next
  case EndLoop
  then show ?thesis using r
    by (intro push_loop_inv_cong [OF inv]) (auto simp: still_to_send_def split: if_splits)
qed

lemma change_is_pending:
  assumes "invar (pm_protocolBook (pl_protocolMgr s))" and e: "e = Register x h \<or> e = Unregister x"
    and r: "loop_exec ops mapKeys C me e s = Some s'"
    and d: "Registered (pl_protocolMgr s') x \<noteq> Registered (pl_protocolMgr s) x"
  shows "push_pending s'"
proof -
  obtain pm err where s': "s' = after_change s (pm, err)" and "err \<noteq> None \<Longrightarrow> pm = pl_protocolMgr s"
    using e r refused_change [OF assms(1), of x] by (metis loop_exec.simps(1,2) not_None_eq option.inject prod.collapse)
  then show ?thesis using d by (cases err) (simp_all add: after_change_def push_pending_def)
qed

lemma loop_run_inv:
  "push_loop_inv mapKeys C me s \<Longrightarrow> invar (pm_protocolBook (pl_protocolMgr s)) \<Longrightarrow>
     loop_run ops mapKeys C me es s = Some s' \<Longrightarrow> push_loop_inv mapKeys C me s'"
  using loop_runs.run_invariant [where B = ops and mapKeys = mapKeys and C = C and me = me and es = es and s = s and s' = s' and
    I = "\<lambda>s. push_loop_inv mapKeys C me s \<and> invar (pm_protocolBook (pl_protocolMgr s))"] loop_exec_inv loop_exec_book by blast

end

lemma pending_until_taken:
  assumes r: "loop_run B mapKeys C me es s = Some s'" and p: "push_pending s"
  shows "TakeSignal (pl_others s') \<in> set es \<or> push_pending s'"
proof (rule loop_runs.run_invariant_on [where I = "\<lambda>s. TakeSignal (pl_others s) \<in> set es \<or> push_pending s", OF _ _ r])
  fix e t t' assume e: "e \<in> set es" and t: "TakeSignal (pl_others t) \<in> set es \<or> push_pending t"
    and x: "loop_exec B mapKeys C me e t = Some t'"
  have "TakeSignal (pl_others t') = e \<or> (pl_others t' = pl_others t \<and> (push_pending t \<longrightarrow> push_pending t'))"
    using x by (cases e) (auto simp: push_pending_def after_change_cases pushProtocolsToOthers_def triggerPushProtocol_def
        split: if_splits push_loop.splits sum.splits)
  with e t show "TakeSignal (pl_others t') \<in> set es \<or> push_pending t'" by auto
qed (use p in simp)

section \<open>Both sides know each other's protocols\<close>

context protocol_book
begin

lemma handle_push:
  assumes "invar (pm_protocolBook (ex_protocolMgr p))" and "protoUnmarshal C bz = Inr \<lparr>ep_pid = sender, ep_protocols = ps, ep_type = PUSH\<rparr>"
    and "exr_Handle ops ex mapKeys C me sender bz p = (p', e, sent, calls)"
  shows "e = HandleDone" and "ex_protocolMgr p' = fst (SetSupportedProtocolsOfPeer ops ex (ex_protocolMgr p) sender ps)"
    and "sent = (case sendProtocolsToOther C me (RegisteredAll mapKeys (ex_protocolMgr p')) sender PUSH_OK of
           Inl _ \<Rightarrow> [] | Inr msg \<Rightarrow> [msg])"
  using assms(2,3) SetSupported_state [OF assms(1), of ex sender ps]
  by (auto simp: exr_Handle_def Let_def sendProtocolsToOther_def split: sum.splits)

lemma handle_push_ok:
  assumes "invar (pm_protocolBook (ex_protocolMgr p))" and "protoUnmarshal C bz = Inr \<lparr>ep_pid = sender, ep_protocols = ps, ep_type = PUSH_OK\<rparr>"
    and "exr_Handle ops ex mapKeys C me sender bz p = (p', e, sent, calls)"
    and "ex_pushSignalC p sender = Some c" and "\<not> ex_buffered p c"
  shows "e = HandleDone" and "ex_protocolMgr p' = fst (SetSupportedProtocolsOfPeer ops ex (ex_protocolMgr p) sender ps)"
    and "ex_buffered p' c" and "sent = []"
  using assms(2-5) by (auto simp: exr_Handle_def Let_def case_prod_unfold)

lemma supported_after_set:
  assumes "invar (pm_protocolBook p)"
  shows "SupportedByPeer ops (fst (SetSupportedProtocolsOfPeer ops ex p pid ps)) pid x \<longleftrightarrow> x \<in> set ps"
    and "RegisteredAll mapKeys (fst (SetSupportedProtocolsOfPeer ops ex p pid ps)) = RegisteredAll mapKeys p"
  using set_law [OF assms, of pid ps] contains_law [of "fst (op_SetProtocols ops (pm_protocolBook p) pid ps)" pid x]
  by (simp_all add: SetSupported_state [OF assms] SupportedByPeer_def RegisteredAll_def)

end

section \<open>Properties\<close>

text \<open>
  C15. No change of the handlers is lost, although the channel of signals has two places and further signals are
  dropped. Whenever a protocol was registered or unregistered and later everything has come to rest, no signal
  waits, no caller is about to give one and the loop waits, a round was begun after the change, and for each of its
  peers \<open>SendMsg\<close> was called with the payload of exactly the protocols registered now; nothing older was sent in it.
  Whether \<open>SendMsg\<close> then fails is not the loop's concern: no round is repeated because of it.
\<close>

theorem handler_changes_are_pushed:
  assumes Q: "set_laws Q"
    and earlier: "loop_run (basic_book_ops Q) mapKeys C me earlier (loop_start pm) = Some s0"
    and change: "e = Register x h \<or> e = Unregister x" "loop_exec (basic_book_ops Q) mapKeys C me e s0 = Some s1"
      "Registered (pl_protocolMgr s1) x \<noteq> Registered (pl_protocolMgr s0) x"
    and later: "loop_run (basic_book_ops Q) mapKeys C me later s1 = Some s"
    and rest: "pl_signals s = 0" "pl_callers s = 0" "pl_loop s = LoopWaits"
  shows "TakeSignal (pl_others s) \<in> set later \<and>
    (\<forall>bz. buildProtocolsPayload C me (RegisteredAll mapKeys (pl_protocolMgr s)) PUSH = Inr bz \<longrightarrow>
       set (pl_sent s) = (\<lambda>pid. (ProtocolExchangerProtocolID, pid, bz)) ` set (pl_others s))"
proof -
  have s1: "push_loop_inv mapKeys C me s1"
    using basic_book.loop_exec_inv [OF basic_book.loop_run_inv [OF push_loop_inv_start Q earlier] Q change(2)] .
  then have inv: "push_loop_inv mapKeys C me s" by (rule basic_book.loop_run_inv [OF _ Q later])
  have "push_pending s1"
    by (rule basic_book.change_is_pending [OF Q change])
  moreover have quiet: "\<not> push_pending s" using rest by (simp add: push_pending_def)
  ultimately have "TakeSignal (pl_others s) \<in> set later" using pending_until_taken [OF later] by blast
  moreover have "set (pl_sent s) = (\<lambda>pid. (ProtocolExchangerProtocolID, pid, bz)) ` set (pl_others s)"
    if "buildProtocolsPayload C me (RegisteredAll mapKeys (pl_protocolMgr s)) PUSH = Inr bz" for bz
    using inv quiet rest(3) that
    by (auto simp: push_loop_inv_def told_def still_to_send_def sendProtocolsToOther_def)
  ultimately show ?thesis by blast
qed

text \<open>Two changes, the second while the first is being pushed to one peer; the second push fails.\<close>

theorem handler_changes_are_pushed_witness:
  "\<exists>s0 s1 s bz.
     loop_run (basic_book_ops list_set) (\<lambda>m. if m ''/b'' = None then [''/a''] else [''/b'', ''/a'']) sample_proto ''me''
       [Register ''/a'' None, Trigger, TakeSignal [''you''], SendPush ''you'' None] (loop_start (sample_manager [])) = Some s0 \<and>
     loop_exec (basic_book_ops list_set) (\<lambda>m. if m ''/b'' = None then [''/a''] else [''/b'', ''/a'']) sample_proto ''me''
       (Register ''/b'' None) s0 = Some s1 \<and>
     loop_run (basic_book_ops list_set) (\<lambda>m. if m ''/b'' = None then [''/a''] else [''/b'', ''/a'']) sample_proto ''me''
       [Trigger, EndPush ''you'', EndRound, TakeSignal [''you''], SendPush ''you'' (Some ''no stream''), EndRound] s1 = Some s \<and>
     protoUnmarshal sample_proto bz = Inr \<lparr>ep_pid = ''me'', ep_protocols = [''/a'', ''/b''], ep_type = PUSH\<rparr> \<and>
     set (pl_sent s) = {(ProtocolExchangerProtocolID, ''you'', bz)}"
    (is "\<exists>s0 s1 s bz. loop_run _ ?k _ _ ?pre _ = _ \<and> loop_exec _ _ _ _ ?e _ = _ \<and> loop_run _ _ _ _ ?post _ = _ \<and> _")
proof -
  note defs = loop_start_def after_change_def RegisterMsgPayloadHandler_def sample_manager_def triggerPushProtocol_def
    pushProtocolsToOthers_def sendProtocolsToOther_def buildProtocolsPayload_def RegisteredAll_def sample_proto_def
    protocol_book_defs list_set_def Let_def
  let ?run = "loop_run (basic_book_ops list_set) ?k sample_proto ''me''"
  obtain s0 s1 s where r: "?run ?pre (loop_start (sample_manager [])) = Some s0"
      "loop_exec (basic_book_ops list_set) ?k sample_proto ''me'' ?e s0 = Some s1" "?run ?post s1 = Some s"
    and c: "Registered (pl_protocolMgr s1) ''/b'' \<noteq> Registered (pl_protocolMgr s0) ''/b''"
    and q: "pl_signals s = 0" "pl_callers s = 0" "pl_loop s = LoopWaits" "pl_others s = [''you'']"
      "pm_handlers (pl_protocolMgr s) = [''/a'' \<mapsto> None, ''/b'' \<mapsto> None]"
    by (simp add: defs Registered_def)
  obtain bz where bz: "protoMarshal sample_proto \<lparr>ep_pid = ''me'', ep_protocols = [''/a'', ''/b''], ep_type = PUSH\<rparr> = Inr bz"
    by (simp add: sample_proto_def)
  have "buildProtocolsPayload sample_proto ''me'' (RegisteredAll ?k (pl_protocolMgr s)) PUSH = Inr bz"
    using bz by (simp add: buildProtocolsPayload_def RegisteredAll_def q less_eq_list_code)
  moreover have "protoUnmarshal sample_proto bz = Inr \<lparr>ep_pid = ''me'', ep_protocols = [''/a'', ''/b''], ep_type = PUSH\<rparr>"
    using bz sample_proto_laws by (simp add: proto_laws_def)
  ultimately show ?thesis
    using handler_changes_are_pushed [OF list_set_laws r(1) _ r(2) c r(3) q(1-3)] r q(4) by fastforce
qed

text \<open>
  C16. A push makes both sides know each other. When a host's push reaches a peer under the host's id, and the peer's
  answer reaches the host while the push waits, both handlers end, the push is signalled, and each side
  then supports, in the other's view, exactly the protocols it has registered.
\<close>

theorem push_makes_protocols_mutual:
  assumes Q: "set_laws Q" "set_laws Q'" and C: "proto_laws C"
    and push: "sendProtocolsToOther C a (RegisteredAll keysA (ex_protocolMgr pa)) b PUSH = Inr (x1, to1, bz1)"
    and at_b: "exr_Handle (basic_book_ops Q') exB keysB C b a bz1 pb = (pb', eb, [(x2, to2, bz2)], callsB)"
    and at_a: "exr_Handle (basic_book_ops Q) exA keysA C a b bz2 pa = (pa', ea, sentA, callsA)"
    and waits: "ex_pushSignalC pa b = Some c" "\<not> ex_buffered pa c"
  shows "x1 = ProtocolExchangerProtocolID \<and> to1 = b \<and> x2 = ProtocolExchangerProtocolID \<and> to2 = a \<and>
    eb = HandleDone \<and> ea = HandleDone \<and> sentA = [] \<and> ex_buffered pa' c \<and>
    (\<forall>x. SupportedByPeer (basic_book_ops Q') (ex_protocolMgr pb') a x \<longleftrightarrow>
       x \<in> set (RegisteredAll keysA (ex_protocolMgr pa'))) \<and>
    (\<forall>x. SupportedByPeer (basic_book_ops Q) (ex_protocolMgr pa') b x \<longleftrightarrow>
       x \<in> set (RegisteredAll keysB (ex_protocolMgr pb')))"
proof -
  note unfold = sendProtocolsToOther_def buildProtocolsPayload_def
  have 1: "x1 = ProtocolExchangerProtocolID" "to1 = b" "protoUnmarshal C bz1 =
      Inr \<lparr>ep_pid = a, ep_protocols = sort (RegisteredAll keysA (ex_protocolMgr pa)), ep_type = PUSH\<rparr>"
    using push C by (auto simp: unfold proto_laws_def split: sum.split_asm)
  note hb = basic_book.handle_push [OF Q(2) 1(3) at_b]
  have 2: "x2 = ProtocolExchangerProtocolID" "to2 = a" "protoUnmarshal C bz2 =
      Inr \<lparr>ep_pid = b, ep_protocols = sort (RegisteredAll keysB (ex_protocolMgr pb')), ep_type = PUSH_OK\<rparr>"
    using hb(3) C by (auto simp: unfold proto_laws_def split: sum.split_asm)
  note ha = basic_book.handle_push_ok [OF Q(1) 2(3) at_a waits]
  show ?thesis
    using 1(1,2) 2(1,2) hb(1) ha(1,3,4)
    by (simp add: hb(2) ha(2) basic_book.supported_after_set [OF Q(1)] basic_book.supported_after_set [OF Q(2)])
qed

theorem push_makes_protocols_mutual_witness:
  "\<exists>bz1 bz2 pa' pb' callsA callsB.
     exr_Handle (basic_book_ops list_set) slice_exclude_all (\<lambda>_. [''/y'']) sample_proto ''you'' ''me'' bz1 (sample_exchanger None) =
       (pb', HandleDone, [(ProtocolExchangerProtocolID, ''me'', bz2)], callsB) \<and>
     exr_Handle (basic_book_ops list_set) slice_exclude_all (\<lambda>_. [''/x'']) sample_proto ''me'' ''you'' bz2
       (sample_exchanger (Some False)) = (pa', HandleDone, [], callsA) \<and>
     SupportedByPeer (basic_book_ops list_set) (ex_protocolMgr pb') ''me'' ''/x'' \<and>
     SupportedByPeer (basic_book_ops list_set) (ex_protocolMgr pa') ''you'' ''/y''"
proof -
  have send: "\<exists>bz. sendProtocolsToOther sample_proto me [x] other t = Inr (ProtocolExchangerProtocolID, other, bz)"
    if "CHR 0x00 \<notin> set me" "CHR 0x00 \<notin> set x" "named_type t" for me x other t
    using that by (simp add: sendProtocolsToOther_def buildProtocolsPayload_def sample_proto_def)
  obtain bz1 where s: "sendProtocolsToOther sample_proto ''me'' (RegisteredAll (\<lambda>_. [''/x''])
      (ex_protocolMgr (sample_exchanger (Some False)))) ''you'' PUSH = Inr (ProtocolExchangerProtocolID, ''you'', bz1)"
    using send [of "''me''" "''/x''" PUSH "''you''"] by (auto simp: RegisteredAll_def)
  then have u: "protoUnmarshal sample_proto bz1 = Inr \<lparr>ep_pid = ''me'', ep_protocols = [''/x''], ep_type = PUSH\<rparr>"
    using sample_proto_laws
    by (auto simp: sendProtocolsToOther_def buildProtocolsPayload_def RegisteredAll_def proto_laws_def split: sum.split_asm)
  obtain pb' eb sent callsB where "exr_Handle (basic_book_ops list_set) slice_exclude_all (\<lambda>_. [''/y'']) sample_proto
      ''you'' ''me'' bz1 (sample_exchanger None) = (pb', eb, sent, callsB)" using prod_cases4 by blast
  moreover from basic_book.handle_push(3) [OF list_set_laws u this] send [of "''you''" "''/y''" PUSH_OK "''me''"]
  obtain bz2 where "sent = [(ProtocolExchangerProtocolID, ''me'', bz2)]" by (auto simp: RegisteredAll_def)
  ultimately have b: "exr_Handle (basic_book_ops list_set) slice_exclude_all (\<lambda>_. [''/y'']) sample_proto
      ''you'' ''me'' bz1 (sample_exchanger None) = (pb', eb, [(ProtocolExchangerProtocolID, ''me'', bz2)], callsB)" by simp
  obtain pa' ea sentA callsA where a: "exr_Handle (basic_book_ops list_set) slice_exclude_all (\<lambda>_. [''/x'']) sample_proto
      ''me'' ''you'' bz2 (sample_exchanger (Some False)) = (pa', ea, sentA, callsA)" using prod_cases4 by blast
  have w: "ex_pushSignalC (sample_exchanger (Some False)) ''you'' = Some 3" "\<not> ex_buffered (sample_exchanger (Some False)) 3"
    by (simp_all add: sample_exchanger_def)
  from push_makes_protocols_mutual [OF list_set_laws list_set_laws sample_proto_laws s b a w]
  have "eb = HandleDone" "ea = HandleDone" "sentA = []"
    "SupportedByPeer (basic_book_ops list_set) (ex_protocolMgr pb') ''me'' ''/x''"
    "SupportedByPeer (basic_book_ops list_set) (ex_protocolMgr pa') ''you'' ''/y''"
    by (simp_all add: RegisteredAll_def)
  then show ?thesis using a b by blast
qed

end
