(* ===== verification/Host_Notifications.thy ===== *)
theory Host_Notifications
  imports Host_Messages
begin

text \<open>
  Who learns that a peer came or went: \<open>Notify\<close>, the channel \<open>notifyConnC\<close> and \<open>notifyConnLoop\<close> of \<open>host.go\<close>,
  \<open>NotifieeBundle\<close> of \<open>core/host/notify.go\<close>, and the notifiee of \<open>components/connection_supervisor.go\<close>, which
  dials necessary peers again. The goroutines that send on the channel, the loop and the supervisor are interleaved
  as events.
\<close>

section \<open>Notifiees\<close>

text \<open>The callbacks change a world of type \<open>'w\<close>; a callback that is not set is \<open>None\<close>.\<close>

record 'w notifiee_bundle =
  OnPeerConnectedFunc :: "(peer_id \<Rightarrow> 'w \<Rightarrow> 'w) option"
  OnPeerDisconnectedFunc :: "(peer_id \<Rightarrow> 'w \<Rightarrow> 'w) option"
  OnPeerProtocolSupportedFunc :: "(protocol_id \<Rightarrow> peer_id \<Rightarrow> 'w \<Rightarrow> 'w) option"
  OnPeerProtocolUnsupportedFunc :: "(protocol_id \<Rightarrow> peer_id \<Rightarrow> 'w \<Rightarrow> 'w) option"

fun bundle_notify :: "'w notifiee_bundle \<Rightarrow> notification \<Rightarrow> 'w \<Rightarrow> 'w" where
  "bundle_notify n (OnPeerConnected pid) w =
     (case OnPeerConnectedFunc n of None \<Rightarrow> w | Some f \<Rightarrow> f pid w)"
| "bundle_notify n (OnPeerDisconnected pid) w =
     (case OnPeerDisconnectedFunc n of None \<Rightarrow> w | Some f \<Rightarrow> f pid w)"
| "bundle_notify n (OnPeerProtocolSupported protocolID pid) w =
     (case OnPeerProtocolSupportedFunc n of None \<Rightarrow> w | Some f \<Rightarrow> f protocolID pid w)"
| "bundle_notify n (OnPeerProtocolUnsupported protocolID pid) w =
     (case OnPeerProtocolUnsupportedFunc n of None \<Rightarrow> w | Some f \<Rightarrow> f protocolID pid w)"

text \<open>The calls of one \<open>Range\<close> over the notifiees, one after the other; \<open>B\<close> is what each of them does.\<close>

definition call_notifiees :: "(handle \<Rightarrow> 'w notifiee_bundle) \<Rightarrow> (handle \<times> notification) list \<Rightarrow> 'w \<Rightarrow> 'w" where
  "call_notifiees B calls w = foldl (\<lambda>w (n, x). bundle_notify (B n) x w) w calls"

section \<open>The channel and its loop\<close>

text \<open>
  \<open>nt_posted\<close> and \<open>nt_told\<close> record the connections sent and those handled, with what was said of them.
  The channel holds one connection. \<open>Elsewhere\<close> is a step of the world that the callbacks change.
\<close>

record ('n, 'm, 'w) notify_sys =
  nt_notifiee :: 'n
  nt_conn :: "handle \<Rightarrow> 'm connection"
  nt_notifyConnC :: "handle list"
  nt_looping :: bool
  nt_world :: 'w
  nt_posted :: "handle list"
  nt_told :: "(handle \<times> bool) list"

datatype 'v notify_event =
    AddNotifiee handle
  | CloseIt handle
  | PostConn handle
  | TakeConn
  | EndNotifyLoop
  | Elsewhere 'v

fun notify_exec ::
  "(handle, 'n) set_ops \<Rightarrow> (handle \<Rightarrow> 'w notifiee_bundle) \<Rightarrow> ('v \<Rightarrow> 'w \<Rightarrow> 'w option) \<Rightarrow> 'v notify_event
   \<Rightarrow> ('n, 'm, 'w) notify_sys \<Rightarrow> ('n, 'm, 'w) notify_sys option" where
  "notify_exec N B wexec (AddNotifiee n) s = Some (s\<lparr>nt_notifiee := fst (set_put N (nt_notifiee s) n)\<rparr>)"
| "notify_exec N B wexec (CloseIt conn) s =
     Some (s\<lparr>nt_conn := (nt_conn s)(conn := (nt_conn s conn)\<lparr>conn_status := SetClosed (conn_status (nt_conn s conn))\<rparr>)\<rparr>)"
| "notify_exec N B wexec (PostConn conn) s =
     (if length (nt_notifyConnC s) < 1
      then Some (s\<lparr>nt_notifyConnC := nt_notifyConnC s @ [conn], nt_posted := nt_posted s @ [conn]\<rparr>) else None)"
| "notify_exec N B wexec TakeConn s =
     (if \<not> nt_looping s then None
      else (case nt_notifyConnC s of
              [] \<Rightarrow> None
            | conn # waiting \<Rightarrow>
                Some (s\<lparr>nt_notifyConnC := waiting,
                   nt_world := call_notifiees B (notifyConn N (nt_notifiee s) (nt_conn s conn)) (nt_world s),
                   nt_told := nt_told s @ [(conn, \<not> Closed (conn_status (nt_conn s conn)))]\<rparr>)))"
| "notify_exec N B wexec EndNotifyLoop s = (if nt_looping s then Some (s\<lparr>nt_looping := False\<rparr>) else None)"
| "notify_exec N B wexec (Elsewhere v) s =
     (case wexec v (nt_world s) of None \<Rightarrow> None | Some w \<Rightarrow> Some (s\<lparr>nt_world := w\<rparr>))"

fun notify_run ::
  "(handle, 'n) set_ops \<Rightarrow> (handle \<Rightarrow> 'w notifiee_bundle) \<Rightarrow> ('v \<Rightarrow> 'w \<Rightarrow> 'w option) \<Rightarrow> 'v notify_event list
   \<Rightarrow> ('n, 'm, 'w) notify_sys \<Rightarrow> ('n, 'm, 'w) notify_sys option" where
  "notify_run N B wexec [] s = Some s"
| "notify_run N B wexec (e # es) s =
     (case notify_exec N B wexec e s of None \<Rightarrow> None | Some s' \<Rightarrow> notify_run N B wexec es s')"

definition notify_start :: "'n \<Rightarrow> (handle \<Rightarrow> 'm connection) \<Rightarrow> 'w \<Rightarrow> ('n, 'm, 'w) notify_sys" where
  "notify_start notifiees conns w = \<lparr>nt_notifiee = notifiees, nt_conn = conns, nt_notifyConnC = [], nt_looping = True,
     nt_world = w, nt_posted = [], nt_told = []\<rparr>"

abbreviation is_closed :: "('n, 'm, 'w) notify_sys \<Rightarrow> handle \<Rightarrow> bool" where
  "is_closed s conn \<equiv> Closed (conn_status (nt_conn s conn))"



section \<open>The supervisor as a notifiee\<close>

text \<open>
  The world of the supervisor: its state and the actuators it started. It is registered in \<open>AttachHost\<close>
  with one callback, set in \<open>NewConnectionSupervisor\<close>.
\<close>

type_synonym 'm watch = "'m supervisor \<times> peer_id list"

definition hostNotifiee :: "bool \<Rightarrow> 'm watch notifiee_bundle" where
  "hostNotifiee preferClose =
     \<lparr>OnPeerConnectedFunc = None,
      OnPeerDisconnectedFunc = Some (\<lambda>pid (c, started). (NoticePeerDisconnected preferClose c pid, started)),
      OnPeerProtocolSupportedFunc = None, OnPeerProtocolUnsupportedFunc = None\<rparr>"

definition cs_AttachHost :: "(handle, 'n) set_ops \<Rightarrow> handle \<Rightarrow> ('n, 'm, 'w) notify_sys \<Rightarrow> ('n, 'm, 'w) notify_sys" where
  "cs_AttachHost N n s = s\<lparr>nt_notifiee := fst (set_put N (nt_notifiee s) n)\<rparr>"

text \<open>
  The loop of the supervisor: the ticker sets the signal, taking the signal runs \<open>checkConn\<close> with the connections
  and the order of the map of that moment; with \<open>closeC\<close> closed the loop may still take a signal before it ends. The
  goroutine of an actuator writes to it. The other events are the calls of the supervisor's methods.
\<close>

datatype 'm watch_event =
    SpvTick
  | SpvSignal "peer_id \<Rightarrow> bool" "(peer_id \<times> 'm) list"
  | SpvActuator peer_id "'m dial_actuator"
  | SpvSetPeer peer_id 'm
  | SpvRemovePeer peer_id
  | SpvRemoveAll
  | SpvStart
  | SpvStop

fun watch_exec :: "(int \<Rightarrow> int list) \<Rightarrow> peer_id \<Rightarrow> 'm watch_event \<Rightarrow> 'm watch \<Rightarrow> 'm watch option" where
  "watch_exec fib me SpvTick (c, started) = Some (trySignal c, started)"
| "watch_exec fib me (SpvSignal connected order) (c, started) =
     (if cs_signalC c \<and> distinct (map fst order) \<and> map_of order = cs_necessaryPeer c
      then (let (c', runs) = checkConn fib me connected order (c\<lparr>cs_signalC := False\<rparr>) in Some (c', started @ runs))
      else None)"
| "watch_exec fib me (SpvActuator pid a) (c, started) =
     (case cs_actuators c pid of
        None \<Rightarrow> Some (c, started)
      | Some _ \<Rightarrow> Some (c\<lparr>cs_actuators := (cs_actuators c)(pid \<mapsto> a)\<rparr>, started))"
| "watch_exec fib me (SpvSetPeer pid addr) (c, started) = Some (SetPeerAddr c pid addr, started)"
| "watch_exec fib me (SpvRemovePeer pid) (c, started) = Some (RemovePeerAddr c pid, started)"
| "watch_exec fib me SpvRemoveAll (c, started) = Some (RemoveAllPeer c, started)"
| "watch_exec fib me SpvStart (c, started) = Some (Start c, started)"
| "watch_exec fib me SpvStop (c, started) =
     (case Stop c of Panics p \<Rightarrow> None | Returns c' \<Rightarrow> Some (c', started))"

section \<open>What every run keeps\<close>

lemma notify_keeps:
  assumes "notify_exec N B wexec e s = Some s'"
  shows "conn_remotePID (nt_conn s' conn) = conn_remotePID (nt_conn s conn)"
    and "is_closed s conn \<Longrightarrow> is_closed s' conn"
    and "\<exists>new. nt_told s' = nt_told s @ new \<and> (is_closed s conn \<longrightarrow> (conn, True) \<notin> set new)"
  using assms by (cases e; auto split: if_splits list.splits option.splits)+

definition channel_inv :: "('n, 'm, 'w) notify_sys \<Rightarrow> bool" where
  "channel_inv s \<longleftrightarrow> map fst (nt_told s) @ nt_notifyConnC s = nt_posted s \<and> length (nt_notifyConnC s) \<le> 1"

lemma channel_inv_exec: "channel_inv s \<Longrightarrow> notify_exec N B wexec e s = Some s' \<Longrightarrow> channel_inv s'"
  by (cases e) (auto simp: channel_inv_def split: if_splits list.splits option.splits)

interpretation notify_runs: safe_runs "notify_exec N B wexec" "notify_run N B wexec" channel_inv for N B wexec
  by unfold_locales (simp_all add: channel_inv_exec del: notify_exec.simps)

lemma channel_inv_start: "channel_inv (notify_start notifiees conns w)"
  by (simp add: channel_inv_def notify_start_def)

lemma closed_run:
  assumes "is_closed s conn" and "notify_run N B wexec es s = Some s'"
  shows "is_closed s' conn \<and> (\<exists>new. nt_told s' = nt_told s @ new \<and> (conn, True) \<notin> set new)"
proof (rule notify_runs.run_invariant [where I = "\<lambda>t. is_closed t conn \<and>
    (\<exists>new. nt_told t = nt_told s @ new \<and> (conn, True) \<notin> set new)", OF _ _ assms(2)])
  fix e t t' assume t: "is_closed t conn \<and> (\<exists>new. nt_told t = nt_told s @ new \<and> (conn, True) \<notin> set new)"
    and e: "notify_exec N B wexec e t = Some t'"
  obtain new where "nt_told t' = nt_told t @ new" "(conn, True) \<notin> set new" using notify_keeps(3) [OF e] t by blast
  then show "is_closed t' conn \<and> (\<exists>new. nt_told t' = nt_told s @ new \<and> (conn, True) \<notin> set new)"
    using t notify_keeps(2) [OF e] by auto
qed (use assms(1) in simp)

text \<open>
  What is said, specified over the callbacks alone: for each connection taken from the channel each notifiee of the
  list \<open>ns\<close> is called once, with its callback for the state the connection was in.
\<close>

definition tell :: "'w notifiee_bundle \<Rightarrow> peer_id \<Rightarrow> bool \<Rightarrow> 'w \<Rightarrow> 'w" where
  "tell n pid connected w =
     (case (if connected then OnPeerConnectedFunc n else OnPeerDisconnectedFunc n) of None \<Rightarrow> w | Some f \<Rightarrow> f pid w)"

definition told_world ::
  "(handle \<Rightarrow> 'w notifiee_bundle) \<Rightarrow> handle list \<Rightarrow> (handle \<Rightarrow> 'm connection) \<Rightarrow> (handle \<times> bool) list \<Rightarrow> 'w \<Rightarrow> 'w"
where
  "told_world B ns conns told w =
     foldl (\<lambda>w (conn, connected). foldl (\<lambda>w n. tell (B n) (conn_remotePID (conns conn)) connected w) w ns) w told"

lemma calls_tell:
  "call_notifiees B (notifyConnectHandlers N notifiees pid connected) w =
     foldl (\<lambda>w n. tell (B n) pid connected w) w (set_range N notifiees)"
proof -
  have "foldl (\<lambda>w (n, x). bundle_notify (B n) x w) w
      (map (\<lambda>n. (n, if connected then OnPeerConnected pid else OnPeerDisconnected pid)) ns) =
    foldl (\<lambda>w n. tell (B n) pid connected w) w ns" for ns
    by (induction ns arbitrary: w) (simp_all add: tell_def)
  then show ?thesis by (simp add: call_notifiees_def notifyConnectHandlers_def)
qed

fun channel_event :: "'v notify_event \<Rightarrow> bool" where
  "channel_event (AddNotifiee n) = False"
| "channel_event (Elsewhere v) = False"
| "channel_event _ = True"

lemma world_told:
  assumes "\<forall>e\<in>set es. channel_event e" and "notify_run N B wexec es (notify_start notifiees conns w) = Some s"
  shows "nt_world s = told_world B (set_range N notifiees) conns (nt_told s) w"
proof -
  let ?I = "\<lambda>s. nt_notifiee s = notifiees \<and> (\<forall>c. conn_remotePID (nt_conn s c) = conn_remotePID (conns c)) \<and>
    nt_world s = told_world B (set_range N notifiees) conns (nt_told s) w"
  have "?I s"
  proof (rule notify_runs.run_invariant_on [where I = ?I, OF _ _ assms(2)])
    fix e t t' assume "e \<in> set es" and t: "?I t" and r: "notify_exec N B wexec e t = Some t'"
    then have "channel_event e" using assms(1) by blast
    then show "?I t'" using t r
      by (cases e) (auto simp: told_world_def notifyConn_def calls_tell split: if_splits list.splits)
  qed (simp add: notify_start_def told_world_def)
  then show ?thesis by blast
qed

section \<open>The supervisor is told\<close>

lemma call_once:
  assumes "set_laws N" and "v \<in> elems N ns" and "\<forall>n x w. n \<noteq> v \<longrightarrow> bundle_notify (B n) x w = w"
  shows "call_notifiees B (map (\<lambda>n. (n, x)) (set_range N ns)) w = bundle_notify (B v) x w"
proof -
  have none: "call_notifiees B (map (\<lambda>n. (n, x)) ns) w = w" if "v \<notin> set ns" for ns w
    using that assms(3) by (induction ns arbitrary: w) (auto simp: call_notifiees_def)
  have "call_notifiees B (map (\<lambda>n. (n, x)) ns) w = bundle_notify (B v) x w" if "v \<in> set ns" "distinct ns" for ns w
    using that
  proof (induction ns arbitrary: w)
    case (Cons n ns)
    then show ?case using assms(3) none [of ns] by (cases "n = v") (auto simp: call_notifiees_def)
  qed simp
  then show ?thesis using assms(2) set_range_distinct [OF assms(1)] by blast
qed

text \<open>What is known of the connection \<open>conn\<close> to \<open>pid\<close> and of the supervisor \<open>v\<close> while the notice is on its way.\<close>

definition watched ::
  "(handle, 'n) set_ops \<Rightarrow> handle \<Rightarrow> handle \<Rightarrow> peer_id \<Rightarrow> ('n, 'm, 'm watch) notify_sys \<Rightarrow> bool" where
  "watched N v conn pid s \<longleftrightarrow> is_closed s conn \<and> conn_remotePID (nt_conn s conn) = pid \<and> v \<in> elems N (nt_notifiee s) \<and>
     \<not> cs_closed (fst (nt_world s)) \<and> pid \<in> dom (cs_necessaryPeer (fst (nt_world s))) \<and> \<not> given_up (fst (nt_world s)) pid"

definition notice_under_way :: "handle \<Rightarrow> peer_id \<Rightarrow> peer_id list \<Rightarrow> ('n, 'm, 'm watch) notify_sys \<Rightarrow> bool" where
  "notice_under_way conn pid started s \<longleftrightarrow> (\<exists>new. snd (nt_world s) = started @ new \<and>
     (conn \<in> set (nt_notifyConnC s) \<or>
      cs_signalC (fst (nt_world s)) \<and> \<not> cs_allConnected (fst (nt_world s)) \<or> pid \<in> set new))"

text \<open>
  The events after which the peer need not be dialled: it is found connected, its actuator gives up, it is no longer
  a necessary peer, or the supervisor is stopped.
\<close>

fun need_ends :: "peer_id \<Rightarrow> 'm watch_event notify_event \<Rightarrow> bool" where
  "need_ends pid (Elsewhere (SpvSignal connected _)) = connected pid"
| "need_ends pid (Elsewhere (SpvActuator q a)) = (q = pid \<and> da_giveUp a)"
| "need_ends pid (Elsewhere (SpvRemovePeer q)) = (q = pid)"
| "need_ends pid (Elsewhere SpvRemoveAll) = True"
| "need_ends pid (Elsewhere SpvStop) = True"
| "need_ends pid _ = False"

lemma NoticePeerDisconnected_fields:
  "cs_necessaryPeer (NoticePeerDisconnected b c q) = cs_necessaryPeer c"
  "cs_closed (NoticePeerDisconnected b c q) = cs_closed c"
  "cs_actuators (NoticePeerDisconnected b c q) = cs_actuators c"
  "\<not> cs_closed c \<Longrightarrow> cs_signalC c \<Longrightarrow> cs_signalC (NoticePeerDisconnected b c q)"
  "\<not> cs_allConnected c \<Longrightarrow> \<not> cs_allConnected (NoticePeerDisconnected b c q)"
  "\<not> cs_closed c \<Longrightarrow> q \<in> dom (cs_necessaryPeer c) \<Longrightarrow>
     cs_signalC (NoticePeerDisconnected b c q) \<and> \<not> cs_allConnected (NoticePeerDisconnected b c q)"
  by (auto simp: NoticePeerDisconnected_def trySignal_def Let_def split: option.split)

lemma take_watched:
  assumes N: "set_laws N" and B: "B v = hostNotifiee preferClose" "\<forall>n x w. n \<noteq> v \<longrightarrow> bundle_notify (B n) x w = w"
    and v: "v \<in> elems N (nt_notifiee s)"
  shows "call_notifiees B (notifyConn N (nt_notifiee s) (nt_conn s h)) (c, started) =
    (if is_closed s h then NoticePeerDisconnected preferClose c (conn_remotePID (nt_conn s h)) else c, started)"
  by (simp add: notifyConn_def notifyConnectHandlers_def call_once [where v = v, OF N v B(2)] B(1) hostNotifiee_def)

lemma check_keeps_watching:
  assumes "pid \<in> dom (cs_necessaryPeer c)" and "\<not> given_up c pid" and "\<not> connected pid" and "pid \<noteq> me"
    and "distinct (map fst order)" and "map_of order = cs_necessaryPeer c"
    and r: "checkConn fib me connected order c = (c', runs)"
  shows "\<not> given_up c' pid \<and> (cs_allConnected c \<or> pid \<in> set runs)"
proof (cases "cs_allConnected c")
  case True
  then show ?thesis using r assms(2) by (simp add: checkConn_def)
next
  case False
  have ne: "cs_necessaryPeer c \<noteq> Map.empty" using assms(1) by auto
  have order: "set order = {(p, a). cs_necessaryPeer c p = Some a}"
    using assms(5) by (auto simp: assms(6) [symmetric])
  obtain c1 where c': "c' = c1\<lparr>cs_allConnected := \<forall>p\<in>dom (cs_necessaryPeer c). p \<noteq> me \<and> connected p\<rparr>"
    and runs: "runs = map fst (filter (\<lambda>(p, _). p \<noteq> me \<and> \<not> connected p \<and> \<not> given_up c p) order)"
    and each: "\<And>p. p \<in> dom (cs_necessaryPeer c) \<Longrightarrow> (p \<noteq> me \<and> \<not> connected p \<and> \<not> given_up c p \<longrightarrow> armed c1 p) \<and>
      (p \<noteq> me \<and> connected p \<longrightarrow> cs_actuators c1 p = None)"
    and dom: "dom (cs_necessaryPeer c) = fst ` set order"
    by (rule checkConn_open [OF False ne assms(5) order r]) blast
  have "armed c1 pid" using each [OF assms(1)] assms(2-4) by blast
  moreover have "pid \<in> set runs" using assms(1-4) unfolding dom runs by force
  ultimately show ?thesis by (auto simp: c' armed_def given_up_def)
qed

lemma under_way_exec:
  assumes N: "set_laws N" and B: "B v = hostNotifiee preferClose" "\<forall>n x w. n \<noteq> v \<longrightarrow> bundle_notify (B n) x w = w"
    and me: "pid \<noteq> me" and s: "watched N v conn pid s \<and> notice_under_way conn pid started s"
    and e: "\<not> need_ends pid e" and r: "notify_exec N B (watch_exec fib me) e s = Some s'"
  shows "watched N v conn pid s' \<and> notice_under_way conn pid started s'"
proof -
  obtain c st where w: "nt_world s = (c, st)" by fastforce
  have v: "v \<in> elems N (nt_notifiee s)" and c: "\<not> cs_closed c" "pid \<in> dom (cs_necessaryPeer c)" "\<not> given_up c pid"
    and conn: "is_closed s conn" "conn_remotePID (nt_conn s conn) = pid"
    using s by (auto simp: watched_def w)
  obtain new where new: "st = started @ new"
    "conn \<in> set (nt_notifyConnC s) \<or> cs_signalC c \<and> \<not> cs_allConnected c \<or> pid \<in> set new"
    using s by (auto simp: notice_under_way_def w)
  show ?thesis
  proof (cases e)
    case TakeConn
    then obtain h q where h: "nt_notifyConnC s = h # q"
      and s': "nt_notifyConnC s' = q" "nt_conn s' = nt_conn s" "nt_notifiee s' = nt_notifiee s"
        "nt_world s' = (if is_closed s h then NoticePeerDisconnected preferClose c (conn_remotePID (nt_conn s h)) else c, st)"
      using r by (auto simp: w take_watched [where v = v, OF N B v] split: if_splits list.splits)
    show ?thesis
      using c v conn new h NoticePeerDisconnected_fields [where b = preferClose and c = c and q = "conn_remotePID (nt_conn s h)"]
      by (auto simp: watched_def notice_under_way_def s' given_up_def)
  next
    case (Elsewhere x)
    then obtain c' st' where x: "watch_exec fib me x (c, st) = Some (c', st')" "s' = s\<lparr>nt_world := (c', st')\<rparr>"
      using r w by (auto split: option.splits)
    have "\<not> cs_closed c' \<and> pid \<in> dom (cs_necessaryPeer c') \<and> \<not> given_up c' pid \<and>
      (\<exists>new'. st' = st @ new' \<and> (pid \<in> set new' \<or> (cs_signalC c \<and> \<not> cs_allConnected c \<longrightarrow> cs_signalC c' \<and> \<not> cs_allConnected c')))"
    proof (cases x)
      case (SpvSignal connected order)
      with x(1) obtain runs where k: "distinct (map fst order)" "map_of order = cs_necessaryPeer c"
        "checkConn fib me connected order (c\<lparr>cs_signalC := False\<rparr>) = (c', runs)" "st' = st @ runs"
        by (auto split: if_splits prod.splits)
      show ?thesis
        using check_keeps_watching [of pid "c\<lparr>cs_signalC := False\<rparr>" connected me order fib c' runs] k c me e Elsewhere SpvSignal
          checkConn_frame [OF k(3)] by (auto simp: given_up_def)
    qed (use x(1) c e Elsewhere in \<open>auto simp: trySignal_def SetPeerAddr_def RemovePeerAddr_def Start_def given_up_def
        split: option.splits if_splits\<close>)
    then show ?thesis using v conn new by (auto simp: watched_def notice_under_way_def x(2))
  qed (use r s N in \<open>auto simp: watched_def notice_under_way_def set_simps split: if_splits\<close>)
qed

section \<open>Properties\<close>

text \<open>
  C17. The notifications follow the channel. However goroutines send connections, close them and the loop takes them,
  the connections sent are those handled, in order, and at most one that waits; as long as no notifiee is added and nobody else changes it,
  the world is what it becomes when, for each connection handled, in order, every notifiee of the set is called exactly
  once, with its callback for connected or for disconnected peers and the id of the connection's peer. But what is said
  is decided when the loop takes a connection: a connection closed by then, be it the one that has just connected its
  peer, is told as a disconnection and never again as a connection.
\<close>

theorem notifications_follow_the_channel:
  assumes N: "set_laws N" and "notify_run N B wexec es (notify_start notifiees conns w) = Some s" and "is_closed s conn"
    and "notify_run N B wexec fs s = Some s'"
  shows "map fst (nt_told s') @ nt_notifyConnC s' = nt_posted s' \<and> length (nt_notifyConnC s') \<le> 1 \<and>
    ((\<forall>e\<in>set (es @ fs). channel_event e) \<longrightarrow>
       (\<exists>ns. distinct ns \<and> set ns = elems N notifiees \<and> nt_world s' = told_world B ns conns (nt_told s') w)) \<and>
    (\<exists>new. nt_told s' = nt_told s @ new \<and> (conn, True) \<notin> set new)"
proof -
  have run: "notify_run N B wexec (es @ fs) (notify_start notifiees conns w) = Some s'"
    using assms(2,4) by (simp add: notify_runs.run_append)
  have "channel_inv s'" by (rule notify_runs.run_safe [OF channel_inv_start run])
  moreover have "\<forall>e\<in>set (es @ fs). channel_event e \<Longrightarrow> \<exists>ns. distinct ns \<and> set ns = elems N notifiees \<and>
      nt_world s' = told_world B ns conns (nt_told s') w"
    using world_told [OF _ run] set_range_distinct [OF N] by blast
  ultimately show ?thesis using closed_run [OF assms(3,4)] by (simp add: channel_inv_def)
qed

text \<open>
  C21. A lost necessary peer is dialled again. When a closed connection of a necessary peer other than the host itself,
  whose actuator has not given up, is sent on the channel and the supervisor is attached and not stopped, then whatever
  connections, ticks, signals and calls of the supervisor's methods come next, once the channel is empty and no signal is
  pending the supervisor has started the actuator of that peer since, unless meanwhile the peer was found connected, its
  actuator gave up, the peer or all peers were removed, or the supervisor was stopped. The other notifiees are
  assumed not to change the supervisor.
\<close>

theorem lost_necessary_peer_is_dialled_again:
  assumes "set_laws N" and "B v = hostNotifiee preferClose" and "\<forall>n x w. n \<noteq> v \<longrightarrow> bundle_notify (B n) x w = w"
    and "pid \<noteq> me" and "watched N v conn pid s0"
    and "notify_exec N B (watch_exec fib me) (PostConn conn) s0 = Some s1"
    and "notify_run N B (watch_exec fib me) es s1 = Some s"
    and "nt_notifyConnC s = []" and "\<not> cs_signalC (fst (nt_world s))"
  shows "(\<exists>new. snd (nt_world s) = snd (nt_world s0) @ new \<and> pid \<in> set new) \<or> (\<exists>e\<in>set es. need_ends pid e)"
proof (rule disjCI)
  assume es: "\<not> (\<exists>e\<in>set es. need_ends pid e)"
  have "watched N v conn pid s1 \<and> notice_under_way conn pid (snd (nt_world s0)) s1"
    using assms(5,6) by (auto simp: watched_def notice_under_way_def split: if_splits)
  from notify_runs.run_invariant_on [where I = "\<lambda>s. watched N v conn pid s \<and> notice_under_way conn pid (snd (nt_world s0)) s",
      OF _ this assms(7)] under_way_exec [OF assms(1-4)] es
  have "notice_under_way conn pid (snd (nt_world s0)) s" by blast
  then show "\<exists>new. snd (nt_world s) = snd (nt_world s0) @ new \<and> pid \<in> set new"
    using assms(8,9) by (auto simp: notice_under_way_def)
qed

text \<open>
  Nobody takes the last connection. When the loop has ended with a connection in the channel, no further connection
  can ever be sent, so every \<open>handleClosingConn\<close> that gets there waits for ever, before it cleans up.
\<close>

theorem ended_loop_blocks_its_senders:
  assumes "\<not> nt_looping s" and "nt_notifyConnC s \<noteq> []" and "notify_run N B wexec es s = Some s'"
  shows "notify_exec N B wexec (PostConn conn) s' = None"
proof -
  have "\<not> nt_looping s' \<and> nt_notifyConnC s' \<noteq> []"
  proof (rule notify_runs.run_invariant [where I = "\<lambda>s. \<not> nt_looping s \<and> nt_notifyConnC s \<noteq> []", OF _ _ assms(3)])
    fix e t t' assume "\<not> nt_looping t \<and> nt_notifyConnC t \<noteq> []" and "notify_exec N B wexec e t = Some t'"
    then show "\<not> nt_looping t' \<and> nt_notifyConnC t' \<noteq> []" by (cases e) (auto split: option.splits if_splits)
  qed (use assms(1,2) in simp)
  then show ?thesis by simp
qed

section \<open>Samples\<close>

definition sample_conns :: "handle \<Rightarrow> nat connection" where
  "sample_conns c = \<lparr>conn_status = NewStatus Inbound, conn_localPID = ''me'', conn_remotePID = ''you'',
     conn_remoteAddr = 7, conn_remoteNetAddr = ''''\<rparr>"

definition sample_bundles :: "handle \<Rightarrow> 'm watch notifiee_bundle" where
  "sample_bundles n = (if n = 9 then hostNotifiee False
     else \<lparr>OnPeerConnectedFunc = None, OnPeerDisconnectedFunc = None, OnPeerProtocolSupportedFunc = None,
           OnPeerProtocolUnsupportedFunc = None\<rparr>)"

lemma sample_bundles_laws:
  "sample_bundles 9 = hostNotifiee False" "\<forall>n x w. n \<noteq> 9 \<longrightarrow> bundle_notify (sample_bundles n) x w = w"
proof -
  show "\<forall>n x w. n \<noteq> 9 \<longrightarrow> bundle_notify (sample_bundles n) x w = w"
  proof (intro allI impI)
    fix n x and w :: "'m watch"
    assume "n \<noteq> (9 :: handle)"
    then show "bundle_notify (sample_bundles n) x w = w" by (cases x) (simp_all add: sample_bundles_def)
  qed
qed (simp add: sample_bundles_def)

definition watching_supervisor :: "nat supervisor" where
  "watching_supervisor =
     \<lparr>cs_necessaryPeer = [''you'' \<mapsto> 7], cs_signalC = False, cs_closed = False, cs_started = True, cs_tryTimes = 3,
      cs_actuators = Map.empty, cs_allConnected = True\<rparr>"

abbreviation sample_notify_run :: "nat watch_event notify_event list \<Rightarrow> (handle list, nat, nat watch) notify_sys \<Rightarrow>
    (handle list, nat, nat watch) notify_sys option" where
  "sample_notify_run \<equiv> notify_run list_set sample_bundles (watch_exec (\<lambda>n. replicate (nat n) 1) ''me'')"

definition sample_notify_start :: "(handle list, nat, nat watch) notify_sys" where
  "sample_notify_start = cs_AttachHost list_set 9 (notify_start [] sample_conns (watching_supervisor, []))"

text \<open>The connection 1 is sent and closed before the loop takes it; its closing is sent as well.\<close>

theorem notifications_follow_the_channel_witness:
  "\<exists>s s'. sample_notify_run [PostConn 1, CloseIt 1] (notify_start [] sample_conns (watching_supervisor, [])) = Some s \<and>
     sample_notify_run [TakeConn, PostConn 1, TakeConn] s = Some s' \<and>
     nt_posted s' = [1, 1] \<and> (1, True) \<notin> set (nt_told s')"
proof -
  obtain s where s: "sample_notify_run [PostConn 1, CloseIt 1] (notify_start [] sample_conns (watching_supervisor, [])) = Some s"
    "is_closed s 1" "nt_told s = []" "nt_looping s" "nt_notifyConnC s = [1]" "nt_posted s = [1]"
    by (simp add: notify_start_def)
  then obtain s' where s': "sample_notify_run [TakeConn, PostConn 1, TakeConn] s = Some s'" "nt_posted s' = [1, 1]" by simp
  from notifications_follow_the_channel [OF list_set_laws s(1,2) s'(1)] s(3) s' s(1) show ?thesis by auto
qed

theorem lost_necessary_peer_is_dialled_again_witness:
  "\<exists>s0 s1 s. sample_notify_run [CloseIt 1] sample_notify_start = Some s0 \<and>
     sample_notify_run [PostConn 1] s0 = Some s1 \<and>
     sample_notify_run [TakeConn, Elsewhere (SpvSignal (\<lambda>_. False) [(''you'', 7)])] s1 = Some s \<and>
     ''you'' \<in> set (snd (nt_world s))"
proof -
  obtain s0 where s0: "sample_notify_run [CloseIt 1] sample_notify_start = Some s0" "watched list_set 9 1 ''you'' s0"
    "nt_world s0 = (watching_supervisor, [])" "nt_looping s0" "nt_notifyConnC s0 = []" "nt_notifiee s0 = [9]"
    by (simp add: sample_notify_start_def cs_AttachHost_def notify_start_def watched_def watching_supervisor_def given_up_def
        sample_conns_def)
  then obtain s1 where s1: "notify_exec list_set sample_bundles (watch_exec (\<lambda>n. replicate (nat n) 1) ''me'') (PostConn 1) s0 = Some s1"
    "nt_world s1 = (watching_supervisor, [])" "nt_looping s1" "nt_notifyConnC s1 = [1]" "nt_notifiee s1 = [9]" "nt_conn s1 = nt_conn s0"
    by simp
  have c: "is_closed s0 1" "conn_remotePID (nt_conn s0 1) = ''you''" using s0(2) by (simp_all add: watched_def)
  obtain s where s: "sample_notify_run [TakeConn, Elsewhere (SpvSignal (\<lambda>_. False) [(''you'', 7)])] s1 = Some s"
    "nt_notifyConnC s = []" "\<not> cs_signalC (fst (nt_world s))"
    using s1 c by (simp add: notifyConn_def notifyConnectHandlers_def call_notifiees_def sample_bundles_def hostNotifiee_def
        watching_supervisor_def NoticePeerDisconnected_def trySignal_def checkConn_def checkPeer_def newDialActuator_def Let_def)
  from lost_necessary_peer_is_dialled_again [OF list_set_laws sample_bundles_laws _ s0(2) s1(1) s(1) s(2,3)]
  have "''you'' \<in> set (snd (nt_world s))" using s0(3) by simp
  moreover have "sample_notify_run [PostConn 1] s0 = Some s1" using s1(1) by (simp del: notify_exec.simps)
  ultimately show ?thesis using s0(1) s(1) by blast
qed

theorem ended_loop_blocks_its_senders_witness:
  "\<exists>s. sample_notify_run [PostConn 1, EndNotifyLoop] sample_notify_start = Some s \<and>
     notify_exec list_set sample_bundles (watch_exec (\<lambda>n. replicate (nat n) 1) ''me'') (PostConn 2) s = None"
proof -
  obtain s where s: "sample_notify_run [PostConn 1, EndNotifyLoop] sample_notify_start = Some s" "\<not> nt_looping s"
    "nt_notifyConnC s \<noteq> []"
    by (simp add: sample_notify_start_def cs_AttachHost_def notify_start_def)
  have "sample_notify_run [] s = Some s" by simp
  from ended_loop_blocks_its_senders [OF s(2,3) this, of 2] s(1) show ?thesis by blast
qed

end
