(* ===== verification/Keys.thy ===== *)
theory Keys
  imports RB_Prelude
begin

text \<open>
  \<open>core/crypto\<close>: the four kinds of keys, their conversion to and from protobuf messages and PEM blocks, and
  their comparison. RSA, ECDSA and secp256k1 keys are values of the cryptographic libraries (\<open>'r\<close>, \<open>'e\<close>, \<open>'s\<close>
  for public ones, \<open>'rs\<close>, \<open>'es\<close>, \<open>'ss\<close> for private ones), whose encodings are operations of \<open>key_lib\<close>;
  an Ed25519 key is its bytes. The field \<open>cached\<close> of an RSA key is never read and left out.
\<close>

section \<open>Keys and the libraries\<close>

datatype key_type = KeyType_RSA | KeyType_Ed25519 | KeyType_Secp256k1 | KeyType_ECDSA | KeyType_Other int

datatype ('r, 's, 'e) pub_key =
    RsaPublicKey 'r
  | Ed25519PublicKey bytes
  | Secp256k1PublicKey 's
  | ECDSAPublicKey 'e

datatype ('rs, 'ss, 'es) pri_key =
    RsaPrivateKey 'rs
  | Ed25519PrivateKey bytes
  | Secp256k1PrivateKey 'ss
  | ECDSAPrivateKey 'es

datatype key_error =
    ErrBadKeyType
  | ErrPEMDecodeFailed
  | ErrRsaKeyTooSmall
  | ErrRsaKeyTooBig
  | ErrNotRsaPubKey
  | ErrNotECDSAPubKey
  | ErrEd25519Size
  | ErrEd25519NotRedundant
  | ErrSecp256k1Size
  | ErrOfLib string

text \<open>
  The package \<open>x509\<close> reads a public key of any kind: \<open>Inl\<close> an RSA key, \<open>Inr\<close> an ECDSA key, \<open>None\<close> another.
  \<open>kl_bitLen\<close> is the bit length of the modulus.
\<close>

record ('r, 's, 'e, 'rs, 'ss, 'es) key_lib =
  kl_MarshalPKIX :: "'r + 'e \<Rightarrow> string + bytes"
  kl_ParsePKIX :: "bytes \<Rightarrow> string + ('r + 'e) option"
  kl_MarshalPKCS1 :: "'rs \<Rightarrow> bytes"
  kl_ParsePKCS1 :: "bytes \<Rightarrow> string + 'rs"
  kl_MarshalEC :: "'es \<Rightarrow> string + bytes"
  kl_ParseEC :: "bytes \<Rightarrow> string + 'es"
  kl_SecpPrivSerialize :: "'ss \<Rightarrow> bytes"
  kl_SecpPrivFromBytes :: "bytes \<Rightarrow> 'ss"
  kl_SecpPubSerialize :: "'s \<Rightarrow> bytes"
  kl_SecpPubParse :: "bytes \<Rightarrow> string + 's"
  kl_SecpPubIsEqual :: "'s \<Rightarrow> 's \<Rightarrow> bool"
  kl_RsaPublic :: "'rs \<Rightarrow> 'r"
  kl_SecpPublic :: "'ss \<Rightarrow> 's"
  kl_ECPublic :: "'es \<Rightarrow> 'e"
  kl_bitLen :: "'r \<Rightarrow> nat"
  kl_PEMEncode :: "string \<times> bytes \<Rightarrow> bytes"
  kl_PEMDecode :: "bytes \<Rightarrow> (string \<times> bytes) option"
  kl_ProtoMarshal :: "key_type \<times> bytes \<Rightarrow> string + bytes"
  kl_ProtoUnmarshal :: "bytes \<Rightarrow> string + key_type \<times> bytes"

definition of_lib :: "string + 'a \<Rightarrow> key_error + 'a" where
  "of_lib r = (case r of Inl e \<Rightarrow> Inl (ErrOfLib e) | Inr x \<Rightarrow> Inr x)"

definition bind_err :: "key_error + 'a \<Rightarrow> ('a \<Rightarrow> key_error + 'b) \<Rightarrow> key_error + 'b" where
  "bind_err r f = (case r of Inl e \<Rightarrow> Inl e | Inr x \<Rightarrow> f x)"

text \<open>The limits of RSA keys; the environment variable for weak keys is taken as not set.\<close>

definition MinRsaKeyBits :: nat where "MinRsaKeyBits = 2048"

definition maxRsaKeyBits :: nat where "maxRsaKeyBits = 8192"

definition check_rsa_bits :: "nat \<Rightarrow> key_error option" where
  "check_rsa_bits n = (if n < MinRsaKeyBits then Some ErrRsaKeyTooSmall
     else if n > maxRsaKeyBits then Some ErrRsaKeyTooBig else None)"

section \<open>Type, Raw and the unmarshallers\<close>

fun pub_Type :: "('r, 's, 'e) pub_key \<Rightarrow> key_type" where
  "pub_Type (RsaPublicKey _) = KeyType_RSA"
| "pub_Type (Ed25519PublicKey _) = KeyType_Ed25519"
| "pub_Type (Secp256k1PublicKey _) = KeyType_Secp256k1"
| "pub_Type (ECDSAPublicKey _) = KeyType_ECDSA"

fun pri_Type :: "('rs, 'ss, 'es) pri_key \<Rightarrow> key_type" where
  "pri_Type (RsaPrivateKey _) = KeyType_RSA"
| "pri_Type (Ed25519PrivateKey _) = KeyType_Ed25519"
| "pri_Type (Secp256k1PrivateKey _) = KeyType_Secp256k1"
| "pri_Type (ECDSAPrivateKey _) = KeyType_ECDSA"

definition RsaPublicKey_Raw :: "('r, 's, 'e, 'rs, 'ss, 'es) key_lib \<Rightarrow> 'r \<Rightarrow> key_error + bytes" where
  "RsaPublicKey_Raw L k = of_lib (kl_MarshalPKIX L (Inl k))"

definition Ed25519PublicKey_Raw :: "bytes \<Rightarrow> key_error + bytes" where
  "Ed25519PublicKey_Raw k = Inr k"

definition Secp256k1PublicKey_Raw :: "('r, 's, 'e, 'rs, 'ss, 'es) key_lib \<Rightarrow> 's \<Rightarrow> key_error + bytes" where
  "Secp256k1PublicKey_Raw L k = Inr (kl_SecpPubSerialize L k)"

definition ECDSAPublicKey_Raw :: "('r, 's, 'e, 'rs, 'ss, 'es) key_lib \<Rightarrow> 'e \<Rightarrow> key_error + bytes" where
  "ECDSAPublicKey_Raw L k = of_lib (kl_MarshalPKIX L (Inr k))"

fun pub_Raw :: "('r, 's, 'e, 'rs, 'ss, 'es) key_lib \<Rightarrow> ('r, 's, 'e) pub_key \<Rightarrow> key_error + bytes" where
  "pub_Raw L (RsaPublicKey k) = RsaPublicKey_Raw L k"
| "pub_Raw L (Ed25519PublicKey k) = Ed25519PublicKey_Raw k"
| "pub_Raw L (Secp256k1PublicKey k) = Secp256k1PublicKey_Raw L k"
| "pub_Raw L (ECDSAPublicKey k) = ECDSAPublicKey_Raw L k"

definition RsaPrivateKey_Raw :: "('r, 's, 'e, 'rs, 'ss, 'es) key_lib \<Rightarrow> 'rs \<Rightarrow> key_error + bytes" where
  "RsaPrivateKey_Raw L k = Inr (kl_MarshalPKCS1 L k)"

definition Ed25519PrivateKey_Raw :: "bytes \<Rightarrow> key_error + bytes" where
  "Ed25519PrivateKey_Raw k = Inr k"

definition Secp256k1PrivateKey_Raw :: "('r, 's, 'e, 'rs, 'ss, 'es) key_lib \<Rightarrow> 'ss \<Rightarrow> key_error + bytes" where
  "Secp256k1PrivateKey_Raw L k = Inr (kl_SecpPrivSerialize L k)"

definition ECDSAPrivateKey_Raw :: "('r, 's, 'e, 'rs, 'ss, 'es) key_lib \<Rightarrow> 'es \<Rightarrow> key_error + bytes" where
  "ECDSAPrivateKey_Raw L k = of_lib (kl_MarshalEC L k)"

fun pri_Raw :: "('r, 's, 'e, 'rs, 'ss, 'es) key_lib \<Rightarrow> ('rs, 'ss, 'es) pri_key \<Rightarrow> key_error + bytes" where
  "pri_Raw L (RsaPrivateKey k) = RsaPrivateKey_Raw L k"
| "pri_Raw L (Ed25519PrivateKey k) = Ed25519PrivateKey_Raw k"
| "pri_Raw L (Secp256k1PrivateKey k) = Secp256k1PrivateKey_Raw L k"
| "pri_Raw L (ECDSAPrivateKey k) = ECDSAPrivateKey_Raw L k"

definition RsaPrivateKey_GetPublic :: "('r, 's, 'e, 'rs, 'ss, 'es) key_lib \<Rightarrow> 'rs \<Rightarrow> ('r, 's, 'e) pub_key" where
  "RsaPrivateKey_GetPublic L k = RsaPublicKey (kl_RsaPublic L k)"

definition Ed25519PrivateKey_GetPublic :: "bytes \<Rightarrow> ('r, 's, 'e) pub_key" where
  "Ed25519PrivateKey_GetPublic k = Ed25519PublicKey (drop (64 - 32) k)"

definition Secp256k1PrivateKey_GetPublic :: "('r, 's, 'e, 'rs, 'ss, 'es) key_lib \<Rightarrow> 'ss \<Rightarrow> ('r, 's, 'e) pub_key" where
  "Secp256k1PrivateKey_GetPublic L k = Secp256k1PublicKey (kl_SecpPublic L k)"

definition ECDSAPrivateKey_GetPublic :: "('r, 's, 'e, 'rs, 'ss, 'es) key_lib \<Rightarrow> 'es \<Rightarrow> ('r, 's, 'e) pub_key" where
  "ECDSAPrivateKey_GetPublic L k = ECDSAPublicKey (kl_ECPublic L k)"

fun GetPublic :: "('r, 's, 'e, 'rs, 'ss, 'es) key_lib \<Rightarrow> ('rs, 'ss, 'es) pri_key \<Rightarrow> ('r, 's, 'e) pub_key" where
  "GetPublic L (RsaPrivateKey k) = RsaPrivateKey_GetPublic L k"
| "GetPublic L (Ed25519PrivateKey k) = Ed25519PrivateKey_GetPublic k"
| "GetPublic L (Secp256k1PrivateKey k) = Secp256k1PrivateKey_GetPublic L k"
| "GetPublic L (ECDSAPrivateKey k) = ECDSAPrivateKey_GetPublic L k"

declare RsaPublicKey_Raw_def [simp]
  Ed25519PublicKey_Raw_def [simp]
  Secp256k1PublicKey_Raw_def [simp]
  ECDSAPublicKey_Raw_def [simp]
  RsaPrivateKey_Raw_def [simp]
  Ed25519PrivateKey_Raw_def [simp]
  Secp256k1PrivateKey_Raw_def [simp]
  ECDSAPrivateKey_Raw_def [simp]
  RsaPrivateKey_GetPublic_def [simp]
  Ed25519PrivateKey_GetPublic_def [simp]
  Secp256k1PrivateKey_GetPublic_def [simp]
  ECDSAPrivateKey_GetPublic_def [simp]

definition UnmarshalRsaPublicKey ::
  "('r, 's, 'e, 'rs, 'ss, 'es) key_lib \<Rightarrow> bytes \<Rightarrow> key_error + ('r, 's, 'e) pub_key" where
  "UnmarshalRsaPublicKey L b =
     bind_err (of_lib (kl_ParsePKIX L b)) (\<lambda>k.
       case k of
         Some (Inl pk) \<Rightarrow>
           (case check_rsa_bits (kl_bitLen L pk) of Some e \<Rightarrow> Inl e | None \<Rightarrow> Inr (RsaPublicKey pk))
       | _ \<Rightarrow> Inl ErrNotRsaPubKey)"

definition UnmarshalRsaPrivateKey ::
  "('r, 's, 'e, 'rs, 'ss, 'es) key_lib \<Rightarrow> bytes \<Rightarrow> key_error + ('rs, 'ss, 'es) pri_key" where
  "UnmarshalRsaPrivateKey L b =
     bind_err (of_lib (kl_ParsePKCS1 L b)) (\<lambda>sk.
       case check_rsa_bits (kl_bitLen L (kl_RsaPublic L sk)) of
         Some e \<Rightarrow> Inl e | None \<Rightarrow> Inr (RsaPrivateKey sk))"

definition UnmarshalEd25519PublicKey :: "bytes \<Rightarrow> key_error + ('r, 's, 'e) pub_key" where
  "UnmarshalEd25519PublicKey data =
     (if length data \<noteq> 32 then Inl ErrEd25519Size else Inr (Ed25519PublicKey data))"

text \<open>\<open>ed25519.PrivateKeySize\<close> is 64 and \<open>ed25519.PublicKeySize\<close> 32.\<close>

definition UnmarshalEd25519PrivateKey :: "bytes \<Rightarrow> key_error + ('rs, 'ss, 'es) pri_key" where
  "UnmarshalEd25519PrivateKey data =
     (if length data = 64 + 32
      then (let redundantPk = drop 64 data; pk = drop (64 - 32) (take 64 data)
            in if pk \<noteq> redundantPk then Inl ErrEd25519NotRedundant else Inr (Ed25519PrivateKey (take 64 data)))
      else if length data = 64 then Inr (Ed25519PrivateKey data)
      else Inl ErrEd25519Size)"

definition UnmarshalSecp256k1PublicKey ::
  "('r, 's, 'e, 'rs, 'ss, 'es) key_lib \<Rightarrow> bytes \<Rightarrow> key_error + ('r, 's, 'e) pub_key" where
  "UnmarshalSecp256k1PublicKey L data =
     bind_err (of_lib (kl_SecpPubParse L data)) (\<lambda>k. Inr (Secp256k1PublicKey k))"

definition UnmarshalSecp256k1PrivateKey ::
  "('r, 's, 'e, 'rs, 'ss, 'es) key_lib \<Rightarrow> bytes \<Rightarrow> key_error + ('rs, 'ss, 'es) pri_key" where
  "UnmarshalSecp256k1PrivateKey L data =
     (if length data \<noteq> 32 then Inl ErrSecp256k1Size
      else Inr (Secp256k1PrivateKey (kl_SecpPrivFromBytes L data)))"

definition UnmarshalECDSAPublicKey ::
  "('r, 's, 'e, 'rs, 'ss, 'es) key_lib \<Rightarrow> bytes \<Rightarrow> key_error + ('r, 's, 'e) pub_key" where
  "UnmarshalECDSAPublicKey L data =
     bind_err (of_lib (kl_ParsePKIX L data)) (\<lambda>k.
       case k of Some (Inr pk) \<Rightarrow> Inr (ECDSAPublicKey pk) | _ \<Rightarrow> Inl ErrNotECDSAPubKey)"

definition UnmarshalECDSAPrivateKey ::
  "('r, 's, 'e, 'rs, 'ss, 'es) key_lib \<Rightarrow> bytes \<Rightarrow> key_error + ('rs, 'ss, 'es) pri_key" where
  "UnmarshalECDSAPrivateKey L data =
     bind_err (of_lib (kl_ParseEC L data)) (\<lambda>k. Inr (ECDSAPrivateKey k))"

section \<open>Protobuf\<close>

definition PubKeyToProto ::
  "('r, 's, 'e, 'rs, 'ss, 'es) key_lib \<Rightarrow> ('r, 's, 'e) pub_key \<Rightarrow> key_error + key_type \<times> bytes" where
  "PubKeyToProto L k = bind_err (pub_Raw L k) (\<lambda>data. Inr (pub_Type k, data))"

definition ProtoMarshalPubKey ::
  "('r, 's, 'e, 'rs, 'ss, 'es) key_lib \<Rightarrow> ('r, 's, 'e) pub_key \<Rightarrow> key_error + bytes" where
  "ProtoMarshalPubKey L k = bind_err (PubKeyToProto L k) (\<lambda>m. of_lib (kl_ProtoMarshal L m))"

definition PubKeyUnmarshalers ::
  "('r, 's, 'e, 'rs, 'ss, 'es) key_lib \<Rightarrow> key_type \<Rightarrow> (bytes \<Rightarrow> key_error + ('r, 's, 'e) pub_key) option" where
  "PubKeyUnmarshalers L t = (case t of
      KeyType_RSA \<Rightarrow> Some (UnmarshalRsaPublicKey L)
    | KeyType_Ed25519 \<Rightarrow> Some UnmarshalEd25519PublicKey
    | KeyType_Secp256k1 \<Rightarrow> Some (UnmarshalSecp256k1PublicKey L)
    | KeyType_ECDSA \<Rightarrow> Some (UnmarshalECDSAPublicKey L)
    | KeyType_Other _ \<Rightarrow> None)"

definition PriKeyUnmarshalers ::
  "('r, 's, 'e, 'rs, 'ss, 'es) key_lib \<Rightarrow> key_type \<Rightarrow> (bytes \<Rightarrow> key_error + ('rs, 'ss, 'es) pri_key) option" where
  "PriKeyUnmarshalers L t = (case t of
      KeyType_RSA \<Rightarrow> Some (UnmarshalRsaPrivateKey L)
    | KeyType_Ed25519 \<Rightarrow> Some UnmarshalEd25519PrivateKey
    | KeyType_Secp256k1 \<Rightarrow> Some (UnmarshalSecp256k1PrivateKey L)
    | KeyType_ECDSA \<Rightarrow> Some (UnmarshalECDSAPrivateKey L)
    | KeyType_Other _ \<Rightarrow> None)"

definition PubKeyFromProto ::
  "('r, 's, 'e, 'rs, 'ss, 'es) key_lib \<Rightarrow> key_type \<times> bytes \<Rightarrow> key_error + ('r, 's, 'e) pub_key" where
  "PubKeyFromProto L m = (case PubKeyUnmarshalers L (fst m) of None \<Rightarrow> Inl ErrBadKeyType | Some um \<Rightarrow> um (snd m))"

definition ProtoUnmarshalPubKey ::
  "('r, 's, 'e, 'rs, 'ss, 'es) key_lib \<Rightarrow> bytes \<Rightarrow> key_error + ('r, 's, 'e) pub_key" where
  "ProtoUnmarshalPubKey L data = bind_err (of_lib (kl_ProtoUnmarshal L data)) (PubKeyFromProto L)"

definition PriKeyFromProto ::
  "('r, 's, 'e, 'rs, 'ss, 'es) key_lib \<Rightarrow> key_type \<times> bytes \<Rightarrow> key_error + ('rs, 'ss, 'es) pri_key" where
  "PriKeyFromProto L m = (case PriKeyUnmarshalers L (fst m) of None \<Rightarrow> Inl ErrBadKeyType | Some um \<Rightarrow> um (snd m))"

definition ProtoUnmarshalPriKey ::
  "('r, 's, 'e, 'rs, 'ss, 'es) key_lib \<Rightarrow> bytes \<Rightarrow> key_error + ('rs, 'ss, 'es) pri_key" where
  "ProtoUnmarshalPriKey L data = bind_err (of_lib (kl_ProtoUnmarshal L data)) (PriKeyFromProto L)"

definition ProtoMarshalPriKey ::
  "('r, 's, 'e, 'rs, 'ss, 'es) key_lib \<Rightarrow> ('rs, 'ss, 'es) pri_key \<Rightarrow> key_error + bytes" where
  "ProtoMarshalPriKey L k = bind_err (pri_Raw L k) (\<lambda>data. of_lib (kl_ProtoMarshal L (pri_Type k, data)))"

section \<open>PEM\<close>

definition PEMBlockTypePrivate :: "key_type \<Rightarrow> string" where
  "PEMBlockTypePrivate t = (case t of
      KeyType_RSA \<Rightarrow> ''RSA PRIVATE KEY'' | KeyType_Ed25519 \<Rightarrow> ''ED25519 PRIVATE KEY''
    | KeyType_Secp256k1 \<Rightarrow> ''SECP256K1 PRIVATE KEY'' | KeyType_ECDSA \<Rightarrow> ''ECDSA PRIVATE KEY''
    | KeyType_Other _ \<Rightarrow> '''')"

definition PEMBlockTypePublic :: "key_type \<Rightarrow> string" where
  "PEMBlockTypePublic t = (case t of
      KeyType_RSA \<Rightarrow> ''RSA PUBLIC KEY'' | KeyType_Ed25519 \<Rightarrow> ''ED25519 PUBLIC KEY''
    | KeyType_Secp256k1 \<Rightarrow> ''SECP256K1 PUBLIC KEY'' | KeyType_ECDSA \<Rightarrow> ''ECDSA PUBLIC KEY''
    | KeyType_Other _ \<Rightarrow> '''')"

text \<open>
  The encoders put the raw bytes of the key into a block of its type; \<open>PEMEncodePubKey\<close> and \<open>PEMEncodePriKey\<close>
  choose one by the type of the key. The decoder for a single kind does not look at the type of the block.
\<close>

definition PEMEncodeRsaPublicKey :: "('r, 's, 'e, 'rs, 'ss, 'es) key_lib \<Rightarrow> 'r \<Rightarrow> key_error + bytes" where
  "PEMEncodeRsaPublicKey L k =
     bind_err (pub_Raw L (RsaPublicKey k)) (\<lambda>data. Inr (kl_PEMEncode L (''RSA PUBLIC KEY'', data)))"

definition PEMDecodeRsaPublicKey ::
  "('r, 's, 'e, 'rs, 'ss, 'es) key_lib \<Rightarrow> bytes \<Rightarrow> key_error + ('r, 's, 'e) pub_key" where
  "PEMDecodeRsaPublicKey L pemBytes =
     (case kl_PEMDecode L pemBytes of None \<Rightarrow> Inl ErrPEMDecodeFailed | Some (_, data) \<Rightarrow> UnmarshalRsaPublicKey L data)"

definition PEMEncodeEd25519PublicKey :: "('r, 's, 'e, 'rs, 'ss, 'es) key_lib \<Rightarrow> bytes \<Rightarrow> key_error + bytes" where
  "PEMEncodeEd25519PublicKey L k =
     bind_err (pub_Raw L (Ed25519PublicKey k)) (\<lambda>data. Inr (kl_PEMEncode L (''ED25519 PUBLIC KEY'', data)))"

definition PEMDecodeEd25519PublicKey ::
  "('r, 's, 'e, 'rs, 'ss, 'es) key_lib \<Rightarrow> bytes \<Rightarrow> key_error + ('r, 's, 'e) pub_key" where
  "PEMDecodeEd25519PublicKey L pemBytes =
     (case kl_PEMDecode L pemBytes of None \<Rightarrow> Inl ErrPEMDecodeFailed | Some (_, data) \<Rightarrow> UnmarshalEd25519PublicKey data)"

definition PEMEncodeSecp256k1PublicKey :: "('r, 's, 'e, 'rs, 'ss, 'es) key_lib \<Rightarrow> 's \<Rightarrow> key_error + bytes" where
  "PEMEncodeSecp256k1PublicKey L k =
     bind_err (pub_Raw L (Secp256k1PublicKey k)) (\<lambda>data. Inr (kl_PEMEncode L (''SECP256K1 PUBLIC KEY'', data)))"

definition PEMDecodeSecp256k1PublicKey ::
  "('r, 's, 'e, 'rs, 'ss, 'es) key_lib \<Rightarrow> bytes \<Rightarrow> key_error + ('r, 's, 'e) pub_key" where
  "PEMDecodeSecp256k1PublicKey L pemBytes =
     (case kl_PEMDecode L pemBytes of None \<Rightarrow> Inl ErrPEMDecodeFailed | Some (_, data) \<Rightarrow> UnmarshalSecp256k1PublicKey L data)"

definition PEMEncodeECDSAPublicKey :: "('r, 's, 'e, 'rs, 'ss, 'es) key_lib \<Rightarrow> 'e \<Rightarrow> key_error + bytes" where
  "PEMEncodeECDSAPublicKey L k =
     bind_err (pub_Raw L (ECDSAPublicKey k)) (\<lambda>data. Inr (kl_PEMEncode L (''ECDSA PUBLIC KEY'', data)))"

definition PEMDecodeECDSAPublicKey ::
  "('r, 's, 'e, 'rs, 'ss, 'es) key_lib \<Rightarrow> bytes \<Rightarrow> key_error + ('r, 's, 'e) pub_key" where
  "PEMDecodeECDSAPublicKey L pemBytes =
     (case kl_PEMDecode L pemBytes of None \<Rightarrow> Inl ErrPEMDecodeFailed | Some (_, data) \<Rightarrow> UnmarshalECDSAPublicKey L data)"

definition PEMEncodeRsaPrivateKey :: "('r, 's, 'e, 'rs, 'ss, 'es) key_lib \<Rightarrow> 'rs \<Rightarrow> key_error + bytes" where
  "PEMEncodeRsaPrivateKey L k =
     bind_err (pri_Raw L (RsaPrivateKey k)) (\<lambda>data. Inr (kl_PEMEncode L (''RSA PRIVATE KEY'', data)))"

definition PEMDecodeRsaPrivateKey ::
  "('r, 's, 'e, 'rs, 'ss, 'es) key_lib \<Rightarrow> bytes \<Rightarrow> key_error + ('rs, 'ss, 'es) pri_key" where
  "PEMDecodeRsaPrivateKey L pemBytes =
     (case kl_PEMDecode L pemBytes of None \<Rightarrow> Inl ErrPEMDecodeFailed | Some (_, data) \<Rightarrow> UnmarshalRsaPrivateKey L data)"

definition PEMEncodeEd25519PrivateKey :: "('r, 's, 'e, 'rs, 'ss, 'es) key_lib \<Rightarrow> bytes \<Rightarrow> key_error + bytes" where
  "PEMEncodeEd25519PrivateKey L k =
     bind_err (pri_Raw L (Ed25519PrivateKey k)) (\<lambda>data. Inr (kl_PEMEncode L (''ED25519 PRIVATE KEY'', data)))"

definition PEMDecodeEd25519PrivateKey ::
  "('r, 's, 'e, 'rs, 'ss, 'es) key_lib \<Rightarrow> bytes \<Rightarrow> key_error + ('rs, 'ss, 'es) pri_key" where
  "PEMDecodeEd25519PrivateKey L pemBytes =
     (case kl_PEMDecode L pemBytes of None \<Rightarrow> Inl ErrPEMDecodeFailed | Some (_, data) \<Rightarrow> UnmarshalEd25519PrivateKey data)"

definition PEMEncodeSecp256k1PrivateKey :: "('r, 's, 'e, 'rs, 'ss, 'es) key_lib \<Rightarrow> 'ss \<Rightarrow> key_error + bytes" where
  "PEMEncodeSecp256k1PrivateKey L k =
     bind_err (pri_Raw L (Secp256k1PrivateKey k)) (\<lambda>data. Inr (kl_PEMEncode L (''SECP256K1 PRIVATE KEY'', data)))"

definition PEMDecodeSecp256k1PrivateKey ::
  "('r, 's, 'e, 'rs, 'ss, 'es) key_lib \<Rightarrow> bytes \<Rightarrow> key_error + ('rs, 'ss, 'es) pri_key" where
  "PEMDecodeSecp256k1PrivateKey L pemBytes =
     (case kl_PEMDecode L pemBytes of None \<Rightarrow> Inl ErrPEMDecodeFailed | Some (_, data) \<Rightarrow> UnmarshalSecp256k1PrivateKey L data)"

definition PEMEncodeECDSAPrivateKey :: "('r, 's, 'e, 'rs, 'ss, 'es) key_lib \<Rightarrow> 'es \<Rightarrow> key_error + bytes" where
  "PEMEncodeECDSAPrivateKey L k =
     bind_err (pri_Raw L (ECDSAPrivateKey k)) (\<lambda>data. Inr (kl_PEMEncode L (''ECDSA PRIVATE KEY'', data)))"

definition PEMDecodeECDSAPrivateKey ::
  "('r, 's, 'e, 'rs, 'ss, 'es) key_lib \<Rightarrow> bytes \<Rightarrow> key_error + ('rs, 'ss, 'es) pri_key" where
  "PEMDecodeECDSAPrivateKey L pemBytes =
     (case kl_PEMDecode L pemBytes of None \<Rightarrow> Inl ErrPEMDecodeFailed | Some (_, data) \<Rightarrow> UnmarshalECDSAPrivateKey L data)"

fun PEMEncodePubKey :: "('r, 's, 'e, 'rs, 'ss, 'es) key_lib \<Rightarrow> ('r, 's, 'e) pub_key \<Rightarrow> key_error + bytes" where
  "PEMEncodePubKey L (RsaPublicKey k) = PEMEncodeRsaPublicKey L k"
| "PEMEncodePubKey L (Ed25519PublicKey k) = PEMEncodeEd25519PublicKey L k"
| "PEMEncodePubKey L (Secp256k1PublicKey k) = PEMEncodeSecp256k1PublicKey L k"
| "PEMEncodePubKey L (ECDSAPublicKey k) = PEMEncodeECDSAPublicKey L k"

fun PEMEncodePriKey :: "('r, 's, 'e, 'rs, 'ss, 'es) key_lib \<Rightarrow> ('rs, 'ss, 'es) pri_key \<Rightarrow> key_error + bytes" where
  "PEMEncodePriKey L (RsaPrivateKey k) = PEMEncodeRsaPrivateKey L k"
| "PEMEncodePriKey L (Ed25519PrivateKey k) = PEMEncodeEd25519PrivateKey L k"
| "PEMEncodePriKey L (Secp256k1PrivateKey k) = PEMEncodeSecp256k1PrivateKey L k"
| "PEMEncodePriKey L (ECDSAPrivateKey k) = PEMEncodeECDSAPrivateKey L k"

definition PEMDecodePubKey ::
  "('r, 's, 'e, 'rs, 'ss, 'es) key_lib \<Rightarrow> bytes \<Rightarrow> key_error + ('r, 's, 'e) pub_key" where
  "PEMDecodePubKey L pemBytes =
     (case kl_PEMDecode L pemBytes of
        None \<Rightarrow> Inl ErrPEMDecodeFailed
      | Some (t, data) \<Rightarrow>
          if t = ''RSA PUBLIC KEY'' then UnmarshalRsaPublicKey L data
          else if t = ''ED25519 PUBLIC KEY'' then UnmarshalEd25519PublicKey data
          else if t = ''SECP256K1 PUBLIC KEY'' then UnmarshalSecp256k1PublicKey L data
          else if t = ''ECDSA PUBLIC KEY'' then UnmarshalECDSAPublicKey L data
          else Inl ErrBadKeyType)"

definition PEMDecodePriKey ::
  "('r, 's, 'e, 'rs, 'ss, 'es) key_lib \<Rightarrow> bytes \<Rightarrow> key_error + ('rs, 'ss, 'es) pri_key" where
  "PEMDecodePriKey L pemBytes =
     (case kl_PEMDecode L pemBytes of
        None \<Rightarrow> Inl ErrPEMDecodeFailed
      | Some (t, data) \<Rightarrow>
          if t = ''RSA PRIVATE KEY'' then UnmarshalRsaPrivateKey L data
          else if t = ''ED25519 PRIVATE KEY'' then UnmarshalEd25519PrivateKey data
          else if t = ''SECP256K1 PRIVATE KEY'' then UnmarshalSecp256k1PrivateKey L data
          else if t = ''ECDSA PRIVATE KEY'' then UnmarshalECDSAPrivateKey L data
          else Inl ErrBadKeyType)"

section \<open>Comparing keys\<close>

datatype ('r, 's, 'e, 'rs, 'ss, 'es) any_key = APub "('r, 's, 'e) pub_key" | APri "('rs, 'ss, 'es) pri_key"

fun key_Type :: "('r, 's, 'e, 'rs, 'ss, 'es) any_key \<Rightarrow> key_type" where
  "key_Type (APub k) = pub_Type k"
| "key_Type (APri k) = pri_Type k"

fun key_Raw ::
  "('r, 's, 'e, 'rs, 'ss, 'es) key_lib \<Rightarrow> ('r, 's, 'e, 'rs, 'ss, 'es) any_key \<Rightarrow> key_error + bytes" where
  "key_Raw L (APub k) = pub_Raw L k"
| "key_Raw L (APri k) = pri_Raw L k"

definition basicEquals ::
  "('r, 's, 'e, 'rs, 'ss, 'es) key_lib \<Rightarrow> ('r, 's, 'e, 'rs, 'ss, 'es) any_key
   \<Rightarrow> ('r, 's, 'e, 'rs, 'ss, 'es) any_key \<Rightarrow> bool" where
  "basicEquals L k1 k2 \<longleftrightarrow>
     key_Type k1 = key_Type k2 \<and>
     (case (key_Raw L k1, key_Raw L k2) of (Inr a, Inr b) \<Rightarrow> a = b | _ \<Rightarrow> False)"

text \<open>
  The methods \<open>Equals\<close>. RSA and secp256k1 private keys are compared by their public halves; two RSA public keys
  are equal when modulus and exponent are, which is all an RSA public key holds.
\<close>

definition RsaPublicKey_Equals :: "('r, 's, 'e, 'rs, 'ss, 'es) key_lib \<Rightarrow> 'r \<Rightarrow> ('r, 's, 'e, 'rs, 'ss, 'es) any_key \<Rightarrow> bool" where
  "RsaPublicKey_Equals L k o' =
     (case o' of APub (RsaPublicKey other) \<Rightarrow> (k = other)
       | _ \<Rightarrow> basicEquals L (APub (RsaPublicKey k)) o')"

definition Ed25519PublicKey_Equals :: "('r, 's, 'e, 'rs, 'ss, 'es) key_lib \<Rightarrow> bytes \<Rightarrow> ('r, 's, 'e, 'rs, 'ss, 'es) any_key \<Rightarrow> bool" where
  "Ed25519PublicKey_Equals L k o' =
     (case o' of APub (Ed25519PublicKey other) \<Rightarrow> (k = other)
       | _ \<Rightarrow> basicEquals L (APub (Ed25519PublicKey k)) o')"

definition Secp256k1PublicKey_Equals :: "('r, 's, 'e, 'rs, 'ss, 'es) key_lib \<Rightarrow> 's \<Rightarrow> ('r, 's, 'e, 'rs, 'ss, 'es) any_key \<Rightarrow> bool" where
  "Secp256k1PublicKey_Equals L k o' =
     (case o' of APub (Secp256k1PublicKey other) \<Rightarrow> kl_SecpPubIsEqual L k other
       | _ \<Rightarrow> basicEquals L (APub (Secp256k1PublicKey k)) o')"

definition ECDSAPublicKey_Equals :: "('r, 's, 'e, 'rs, 'ss, 'es) key_lib \<Rightarrow> 'e \<Rightarrow> ('r, 's, 'e, 'rs, 'ss, 'es) any_key \<Rightarrow> bool" where
  "ECDSAPublicKey_Equals L k o' =
     basicEquals L (APub (ECDSAPublicKey k)) o'"

definition RsaPrivateKey_Equals :: "('r, 's, 'e, 'rs, 'ss, 'es) key_lib \<Rightarrow> 'rs \<Rightarrow> ('r, 's, 'e, 'rs, 'ss, 'es) any_key \<Rightarrow> bool" where
  "RsaPrivateKey_Equals L k o' =
     (case o' of APri (RsaPrivateKey other) \<Rightarrow> (kl_RsaPublic L k = kl_RsaPublic L other)
       | _ \<Rightarrow> basicEquals L (APri (RsaPrivateKey k)) o')"

definition Ed25519PrivateKey_Equals :: "('r, 's, 'e, 'rs, 'ss, 'es) key_lib \<Rightarrow> bytes \<Rightarrow> ('r, 's, 'e, 'rs, 'ss, 'es) any_key \<Rightarrow> bool" where
  "Ed25519PrivateKey_Equals L k o' =
     (case o' of APri (Ed25519PrivateKey other) \<Rightarrow> (k = other)
       | _ \<Rightarrow> basicEquals L (APri (Ed25519PrivateKey k)) o')"

definition Secp256k1PrivateKey_Equals :: "('r, 's, 'e, 'rs, 'ss, 'es) key_lib \<Rightarrow> 'ss \<Rightarrow> ('r, 's, 'e, 'rs, 'ss, 'es) any_key \<Rightarrow> bool" where
  "Secp256k1PrivateKey_Equals L k o' =
     (case o' of APri (Secp256k1PrivateKey other) \<Rightarrow> Secp256k1PublicKey_Equals L (kl_SecpPublic L k) (APub (Secp256k1PrivateKey_GetPublic L other))
       | _ \<Rightarrow> basicEquals L (APri (Secp256k1PrivateKey k)) o')"

definition ECDSAPrivateKey_Equals :: "('r, 's, 'e, 'rs, 'ss, 'es) key_lib \<Rightarrow> 'es \<Rightarrow> ('r, 's, 'e, 'rs, 'ss, 'es) any_key \<Rightarrow> bool" where
  "ECDSAPrivateKey_Equals L k o' =
     basicEquals L (APri (ECDSAPrivateKey k)) o'"

fun Equals :: "('r, 's, 'e, 'rs, 'ss, 'es) key_lib \<Rightarrow> ('r, 's, 'e, 'rs, 'ss, 'es) any_key \<Rightarrow> ('r, 's, 'e, 'rs, 'ss, 'es) any_key \<Rightarrow> bool" where
  "Equals L (APub (RsaPublicKey k)) o' = RsaPublicKey_Equals L k o'"
| "Equals L (APub (Ed25519PublicKey k)) o' = Ed25519PublicKey_Equals L k o'"
| "Equals L (APub (Secp256k1PublicKey k)) o' = Secp256k1PublicKey_Equals L k o'"
| "Equals L (APub (ECDSAPublicKey k)) o' = ECDSAPublicKey_Equals L k o'"
| "Equals L (APri (RsaPrivateKey k)) o' = RsaPrivateKey_Equals L k o'"
| "Equals L (APri (Ed25519PrivateKey k)) o' = Ed25519PrivateKey_Equals L k o'"
| "Equals L (APri (Secp256k1PrivateKey k)) o' = Secp256k1PrivateKey_Equals L k o'"
| "Equals L (APri (ECDSAPrivateKey k)) o' = ECDSAPrivateKey_Equals L k o'"

declare RsaPublicKey_Equals_def [simp]
  Ed25519PublicKey_Equals_def [simp]
  Secp256k1PublicKey_Equals_def [simp]
  ECDSAPublicKey_Equals_def [simp]
  RsaPrivateKey_Equals_def [simp]
  Ed25519PrivateKey_Equals_def [simp]
  Secp256k1PrivateKey_Equals_def [simp]
  ECDSAPrivateKey_Equals_def [simp]

text \<open>\<open>same\<close>: the two interface values hold the same pointer.\<close>

definition KeyEqual ::
  "('r, 's, 'e, 'rs, 'ss, 'es) key_lib \<Rightarrow> bool \<Rightarrow> ('r, 's, 'e, 'rs, 'ss, 'es) any_key
   \<Rightarrow> ('r, 's, 'e, 'rs, 'ss, 'es) any_key \<Rightarrow> bool" where
  "KeyEqual L same k1 k2 \<longleftrightarrow> same \<or> Equals L k1 k2"

section \<open>Generating keys\<close>

text \<open>What the libraries return for a new key; the source of randomness is part of the answer.\<close>

record ('rs, 'ss, 'es) key_gen =
  kg_Rsa :: "int \<Rightarrow> string + 'rs"
  kg_Ed25519 :: "string + bytes \<times> bytes"
  kg_Secp256k1 :: "string + 'ss"
  kg_ECDSA :: "string + 'es"

definition GenerateRSAKeyPair ::
  "('r, 's, 'e, 'rs, 'ss, 'es) key_lib \<Rightarrow> ('rs, 'ss, 'es) key_gen \<Rightarrow> int
   \<Rightarrow> key_error + ('rs, 'ss, 'es) pri_key \<times> ('r, 's, 'e) pub_key" where
  "GenerateRSAKeyPair L Y bits =
     (if bits < int MinRsaKeyBits then Inl ErrRsaKeyTooSmall
      else if bits > int maxRsaKeyBits then Inl ErrRsaKeyTooBig
      else bind_err (of_lib (kg_Rsa Y bits)) (\<lambda>pri. Inr (RsaPrivateKey pri, RsaPublicKey (kl_RsaPublic L pri))))"

definition GenerateEd25519Key ::
  "('rs, 'ss, 'es) key_gen \<Rightarrow> key_error + ('rs, 'ss, 'es) pri_key \<times> ('r, 's, 'e) pub_key" where
  "GenerateEd25519Key Y =
     bind_err (of_lib (kg_Ed25519 Y)) (\<lambda>(pub, pri). Inr (Ed25519PrivateKey pri, Ed25519PublicKey pub))"

definition GenerateSecp256k1Key ::
  "('r, 's, 'e, 'rs, 'ss, 'es) key_lib \<Rightarrow> ('rs, 'ss, 'es) key_gen
   \<Rightarrow> key_error + ('rs, 'ss, 'es) pri_key \<times> ('r, 's, 'e) pub_key" where
  "GenerateSecp256k1Key L Y =
     bind_err (of_lib (kg_Secp256k1 Y)) (\<lambda>k. Inr (Secp256k1PrivateKey k, GetPublic L (Secp256k1PrivateKey k)))"

definition GenerateECDSAKeyPair ::
  "('r, 's, 'e, 'rs, 'ss, 'es) key_lib \<Rightarrow> ('rs, 'ss, 'es) key_gen
   \<Rightarrow> key_error + ('rs, 'ss, 'es) pri_key \<times> ('r, 's, 'e) pub_key" where
  "GenerateECDSAKeyPair L Y =
     bind_err (of_lib (kg_ECDSA Y)) (\<lambda>pri. Inr (ECDSAPrivateKey pri, ECDSAPublicKey (kl_ECPublic L pri)))"

text \<open>\<open>bits[0]\<close> of an empty argument list is out of range.\<close>

definition GenerateKeyPairWithReader ::
  "('r, 's, 'e, 'rs, 'ss, 'es) key_lib \<Rightarrow> ('rs, 'ss, 'es) key_gen \<Rightarrow> int \<Rightarrow> int list
   \<Rightarrow> (key_error + ('rs, 'ss, 'es) pri_key \<times> ('r, 's, 'e) pub_key) run" where
  "GenerateKeyPairWithReader L Y typ bits =
     (if typ = 0 then (case bits of [] \<Rightarrow> Panics IndexOutOfRange | b # _ \<Rightarrow> Returns (GenerateRSAKeyPair L Y b))
      else if typ = 1 then Returns (GenerateEd25519Key Y)
      else if typ = 2 then Returns (GenerateSecp256k1Key L Y)
      else if typ = 3 then Returns (GenerateECDSAKeyPair L Y)
      else Returns (Inl ErrBadKeyType))"

section \<open>What is relied on\<close>

text \<open>
  Reading back what was written gives the same key, block or message; a secp256k1 private key is written in 32
  bytes.
\<close>

definition key_lib_laws :: "('r, 's, 'e, 'rs, 'ss, 'es) key_lib \<Rightarrow> bool" where
  "key_lib_laws L \<longleftrightarrow>
     (\<forall>k b. kl_MarshalPKIX L k = Inr b \<longrightarrow> kl_ParsePKIX L b = Inr (Some k)) \<and>
     (\<forall>k. kl_ParsePKCS1 L (kl_MarshalPKCS1 L k) = Inr k) \<and>
     (\<forall>k b. kl_MarshalEC L k = Inr b \<longrightarrow> kl_ParseEC L b = Inr k) \<and>
     (\<forall>k. length (kl_SecpPrivSerialize L k) = 32 \<and> kl_SecpPrivFromBytes L (kl_SecpPrivSerialize L k) = k) \<and>
     (\<forall>k. kl_SecpPubParse L (kl_SecpPubSerialize L k) = Inr k) \<and>
     (\<forall>a b. kl_SecpPubIsEqual L a b \<longleftrightarrow> a = b) \<and>
     (\<forall>m. kl_PEMDecode L (kl_PEMEncode L m) = Some m) \<and>
     (\<forall>m b. kl_ProtoMarshal L m = Inr b \<longrightarrow> kl_ProtoUnmarshal L b = Inr m)"

lemma key_lib_lawsD:
  assumes "key_lib_laws L"
  shows "kl_MarshalPKIX L k = Inr b \<Longrightarrow> kl_ParsePKIX L b = Inr (Some k)"
    and "kl_ParsePKCS1 L (kl_MarshalPKCS1 L k1) = Inr k1"
    and "kl_MarshalEC L k2 = Inr b \<Longrightarrow> kl_ParseEC L b = Inr k2"
    and "length (kl_SecpPrivSerialize L k3) = 32" and "kl_SecpPrivFromBytes L (kl_SecpPrivSerialize L k3) = k3"
    and "kl_SecpPubParse L (kl_SecpPubSerialize L k4) = Inr k4"
    and "kl_SecpPubIsEqual L a a' \<longleftrightarrow> a = a'"
    and "kl_PEMDecode L (kl_PEMEncode L m) = Some m"
    and "kl_ProtoMarshal L pm = Inr b \<Longrightarrow> kl_ProtoUnmarshal L b = Inr pm"
  using assms unfolding key_lib_laws_def by blast+

text \<open>Keys the code accepts when it reads them.\<close>

fun pub_ok :: "('r, 's, 'e, 'rs, 'ss, 'es) key_lib \<Rightarrow> ('r, 's, 'e) pub_key \<Rightarrow> bool" where
  "pub_ok L (RsaPublicKey k) \<longleftrightarrow> MinRsaKeyBits \<le> kl_bitLen L k \<and> kl_bitLen L k \<le> maxRsaKeyBits"
| "pub_ok L (Ed25519PublicKey k) \<longleftrightarrow> length k = 32"
| "pub_ok L _ \<longleftrightarrow> True"

fun pri_ok :: "('r, 's, 'e, 'rs, 'ss, 'es) key_lib \<Rightarrow> ('rs, 'ss, 'es) pri_key \<Rightarrow> bool" where
  "pri_ok L (RsaPrivateKey k) \<longleftrightarrow>
     MinRsaKeyBits \<le> kl_bitLen L (kl_RsaPublic L k) \<and> kl_bitLen L (kl_RsaPublic L k) \<le> maxRsaKeyBits"
| "pri_ok L (Ed25519PrivateKey k) \<longleftrightarrow> length k = 64"
| "pri_ok L _ \<longleftrightarrow> True"

lemma bind_err_simps [simp]: "bind_err (Inl e) f = Inl e" "bind_err (Inr x) f = f x"
  by (simp_all add: bind_err_def)

lemma of_lib_Inr [simp]: "of_lib (Inr x) = Inr x"
  by (simp add: of_lib_def)

lemma of_lib_Inr_iff [simp]: "of_lib r = Inr x \<longleftrightarrow> r = Inr x"
  by (cases r) (simp_all add: of_lib_def)

lemma bind_err_Inr_iff: "bind_err r f = Inr y \<longleftrightarrow> (\<exists>x. r = Inr x \<and> f x = Inr y)"
  by (cases r) simp_all

lemma check_rsa_bits_None: "check_rsa_bits n = None \<longleftrightarrow> MinRsaKeyBits \<le> n \<and> n \<le> maxRsaKeyBits"
  by (simp add: check_rsa_bits_def)

text \<open>The unmarshaller for a key's type reads the raw bytes back, exactly for the keys in order.\<close>

lemma unmarshal_pub_raw:
  assumes "key_lib_laws L" and "pub_Raw L k = Inr data" and "PubKeyUnmarshalers L (pub_Type k) = Some um"
  shows "um data = Inr k \<longleftrightarrow> pub_ok L k"
  using assms(2,3) key_lib_lawsD [OF assms(1)]
  by (cases k) (auto simp: PubKeyUnmarshalers_def UnmarshalRsaPublicKey_def UnmarshalEd25519PublicKey_def
      UnmarshalSecp256k1PublicKey_def UnmarshalECDSAPublicKey_def check_rsa_bits_None split: option.splits)

lemma unmarshal_pri_raw:
  assumes "key_lib_laws L" and "pri_Raw L k = Inr data" and "PriKeyUnmarshalers L (pri_Type k) = Some um"
  shows "um data = Inr k \<longleftrightarrow> pri_ok L k"
  using assms(2,3) key_lib_lawsD [OF assms(1)]
  by (cases k) (auto simp: PriKeyUnmarshalers_def UnmarshalRsaPrivateKey_def UnmarshalEd25519PrivateKey_def
      UnmarshalSecp256k1PrivateKey_def UnmarshalECDSAPrivateKey_def check_rsa_bits_None Let_def split: option.splits)

lemma PEMEncodePubKey_eq:
  "PEMEncodePubKey L k =
     bind_err (pub_Raw L k) (\<lambda>data. Inr (kl_PEMEncode L (PEMBlockTypePublic (pub_Type k), data)))"
  by (cases k)
     (simp_all add: PEMEncodeRsaPublicKey_def PEMEncodeEd25519PublicKey_def PEMEncodeSecp256k1PublicKey_def PEMEncodeECDSAPublicKey_def
        PEMBlockTypePublic_def)

lemma PEMEncodePriKey_eq:
  "PEMEncodePriKey L k =
     bind_err (pri_Raw L k) (\<lambda>data. Inr (kl_PEMEncode L (PEMBlockTypePrivate (pri_Type k), data)))"
  by (cases k)
     (simp_all add: PEMEncodeRsaPrivateKey_def PEMEncodeEd25519PrivateKey_def PEMEncodeSecp256k1PrivateKey_def PEMEncodeECDSAPrivateKey_def
        PEMBlockTypePrivate_def)

lemma PEMDecodePubKey_type:
  "kl_PEMDecode L b = Some (PEMBlockTypePublic (pub_Type k), data) \<Longrightarrow>
     \<exists>um. PubKeyUnmarshalers L (pub_Type k) = Some um \<and> PEMDecodePubKey L b = um data"
  by (cases k) (simp_all add: PEMDecodePubKey_def PEMBlockTypePublic_def PubKeyUnmarshalers_def)

lemma PEMDecodePriKey_type:
  "kl_PEMDecode L b = Some (PEMBlockTypePrivate (pri_Type k), data) \<Longrightarrow>
     \<exists>um. PriKeyUnmarshalers L (pri_Type k) = Some um \<and> PEMDecodePriKey L b = um data"
  by (cases k) (simp_all add: PEMDecodePriKey_def PEMBlockTypePrivate_def PriKeyUnmarshalers_def)

lemma unmarshaler_of_type:
  "\<exists>um. PubKeyUnmarshalers L (pub_Type k) = Some um" "\<exists>um. PriKeyUnmarshalers L (pri_Type sk) = Some um"
  by (cases k; simp add: PubKeyUnmarshalers_def) (cases sk; simp add: PriKeyUnmarshalers_def)

lemma pub_round_trip:
  assumes "key_lib_laws L" and "ProtoMarshalPubKey L k = Inr b" and "pub_ok L k"
  shows "ProtoUnmarshalPubKey L b = Inr k"
proof -
  obtain um where um: "PubKeyUnmarshalers L (pub_Type k) = Some um" using unmarshaler_of_type(1) by blast
  show ?thesis using assms(2,3) um unmarshal_pub_raw [OF assms(1) _ um] key_lib_lawsD(9) [OF assms(1)]
    by (auto simp: ProtoMarshalPubKey_def PubKeyToProto_def bind_err_Inr_iff ProtoUnmarshalPubKey_def PubKeyFromProto_def)
qed

section \<open>Properties\<close>

text \<open>
  C27. Keys survive their encodings, and only keys in order are read. A public or private key that was
  marshalled as a protobuf message or encoded as PEM is read back as the same key exactly when it is in
  order: an RSA key of 2048 to 8192 bits, an Ed25519 key of the right size, any secp256k1 or ECDSA key. So a
  smaller or larger RSA key can be written but not read.
\<close>

theorem key_round_trips:
  assumes "key_lib_laws L"
  shows "(ProtoMarshalPubKey L k = Inr b \<longrightarrow> (ProtoUnmarshalPubKey L b = Inr k \<longleftrightarrow> pub_ok L k)) \<and>
    (PEMEncodePubKey L k = Inr b \<longrightarrow> (PEMDecodePubKey L b = Inr k \<longleftrightarrow> pub_ok L k)) \<and>
    (ProtoMarshalPriKey L sk = Inr b \<longrightarrow> (ProtoUnmarshalPriKey L b = Inr sk \<longleftrightarrow> pri_ok L sk)) \<and>
    (PEMEncodePriKey L sk = Inr b \<longrightarrow> (PEMDecodePriKey L b = Inr sk \<longleftrightarrow> pri_ok L sk))"
proof -
  obtain um um' where um: "PubKeyUnmarshalers L (pub_Type k) = Some um" "PriKeyUnmarshalers L (pri_Type sk) = Some um'"
    using unmarshaler_of_type by metis
  note laws = key_lib_lawsD [OF assms]
  note pub = unmarshal_pub_raw [OF assms _ um(1)] and pri = unmarshal_pri_raw [OF assms _ um(2)]
  have "ProtoMarshalPubKey L k = Inr b \<longrightarrow> (ProtoUnmarshalPubKey L b = Inr k \<longleftrightarrow> pub_ok L k)"
    using um(1) pub laws(9)
    by (auto simp: ProtoMarshalPubKey_def PubKeyToProto_def bind_err_Inr_iff ProtoUnmarshalPubKey_def PubKeyFromProto_def)
  moreover have "ProtoMarshalPriKey L sk = Inr b \<longrightarrow> (ProtoUnmarshalPriKey L b = Inr sk \<longleftrightarrow> pri_ok L sk)"
    using um(2) pri laws(9)
    by (auto simp: ProtoMarshalPriKey_def bind_err_Inr_iff ProtoUnmarshalPriKey_def PriKeyFromProto_def)
  moreover have "PEMEncodePubKey L k = Inr b \<longrightarrow> (PEMDecodePubKey L b = Inr k \<longleftrightarrow> pub_ok L k)"
  proof
    assume "PEMEncodePubKey L k = Inr b"
    then obtain data where d: "pub_Raw L k = Inr data" "kl_PEMDecode L b = Some (PEMBlockTypePublic (pub_Type k), data)"
      using laws(8) by (auto simp: PEMEncodePubKey_eq bind_err_Inr_iff)
    from PEMDecodePubKey_type [OF d(2)] um(1) pub [OF d(1)]
    show "PEMDecodePubKey L b = Inr k \<longleftrightarrow> pub_ok L k" by auto
  qed
  moreover have "PEMEncodePriKey L sk = Inr b \<longrightarrow> (PEMDecodePriKey L b = Inr sk \<longleftrightarrow> pri_ok L sk)"
  proof
    assume "PEMEncodePriKey L sk = Inr b"
    then obtain data where d: "pri_Raw L sk = Inr data" "kl_PEMDecode L b = Some (PEMBlockTypePrivate (pri_Type sk), data)"
      using laws(8) by (auto simp: PEMEncodePriKey_eq bind_err_Inr_iff)
    from PEMDecodePriKey_type [OF d(2)] um(2) pri [OF d(1)]
    show "PEMDecodePriKey L b = Inr sk \<longleftrightarrow> pri_ok L sk" by auto
  qed
  ultimately show ?thesis by blast
qed

text \<open>
  A library with RSA keys that are numbers of bits, secp256k1 keys that are single bytes and no ECDSA keys;
  a PEM block is its type, a zero byte and the data, a message the type's number and the data.
\<close>

definition toy_lib :: "(nat, char, unit, nat, char, unit) key_lib" where
  "toy_lib =
     \<lparr>kl_MarshalPKIX = (\<lambda>k. case k of Inl n \<Rightarrow> Inr (replicate n (CHR ''r'')) | Inr _ \<Rightarrow> Inl ''no curve''),
      kl_ParsePKIX = (\<lambda>b. Inr (Some (Inl (length b)))),
      kl_MarshalPKCS1 = (\<lambda>n. replicate n (CHR ''r'')), kl_ParsePKCS1 = (\<lambda>b. Inr (length b)),
      kl_MarshalEC = (\<lambda>_. Inl ''no curve''), kl_ParseEC = (\<lambda>_. Inl ''no curve''),
      kl_SecpPrivSerialize = (\<lambda>c. replicate 32 c), kl_SecpPrivFromBytes = hd,
      kl_SecpPubSerialize = (\<lambda>c. [c]), kl_SecpPubParse = (\<lambda>b. Inr (hd b)), kl_SecpPubIsEqual = (=),
      kl_RsaPublic = id, kl_SecpPublic = id, kl_ECPublic = id, kl_bitLen = id,
      kl_PEMEncode = (\<lambda>(t, data). replicate (length t) (CHR ''t'') @ CHR 0x00 # t @ data),
      kl_PEMDecode = (\<lambda>b. let n = length (takeWhile (\<lambda>c. c \<noteq> CHR 0x00) b); r = drop (Suc n) b
         in Some (take n r, drop n r)),
      kl_ProtoMarshal = (\<lambda>(t, data). case t of
           KeyType_RSA \<Rightarrow> Inr (CHR ''0'' # data) | KeyType_Ed25519 \<Rightarrow> Inr (CHR ''1'' # data)
         | KeyType_Secp256k1 \<Rightarrow> Inr (CHR ''2'' # data) | KeyType_ECDSA \<Rightarrow> Inr (CHR ''3'' # data)
         | KeyType_Other _ \<Rightarrow> Inl ''unknown''),
      kl_ProtoUnmarshal = (\<lambda>b. case b of [] \<Rightarrow> Inl ''empty'' | c # data \<Rightarrow>
         Inr (if c = CHR ''0'' then KeyType_RSA else if c = CHR ''1'' then KeyType_Ed25519
              else if c = CHR ''2'' then KeyType_Secp256k1 else KeyType_ECDSA, data))\<rparr>"

lemma toy_lib_laws: "key_lib_laws toy_lib"
proof -
  have "takeWhile (\<lambda>c. c \<noteq> CHR 0x00) (replicate n (CHR ''t'') @ CHR 0x00 # xs) = replicate n (CHR ''t'')" for n xs
    by (induction n) simp_all
  then show ?thesis
    by (auto simp: key_lib_laws_def toy_lib_def Let_def numeral_eq_Suc split: sum.splits key_type.splits)
qed

theorem key_round_trips_witness:
  "PEMDecodePubKey toy_lib (kl_PEMEncode toy_lib (''ED25519 PUBLIC KEY'', replicate 32 (CHR ''k''))) =
     Inr (Ed25519PublicKey (replicate 32 (CHR ''k''))) \<and>
   (\<exists>b. ProtoMarshalPubKey toy_lib (RsaPublicKey 512) = Inr b \<and>
      ProtoUnmarshalPubKey toy_lib b \<noteq> Inr (RsaPublicKey 512))"
proof
  let ?k = "Ed25519PublicKey (replicate 32 (CHR ''k'')) :: (nat, char, unit) pub_key"
  have "PEMEncodePubKey toy_lib ?k = Inr (kl_PEMEncode toy_lib (''ED25519 PUBLIC KEY'', replicate 32 (CHR ''k'')))"
    by (simp add: PEMEncodeEd25519PublicKey_def)
  moreover have "pub_ok toy_lib ?k" by simp
  ultimately show "PEMDecodePubKey toy_lib (kl_PEMEncode toy_lib (''ED25519 PUBLIC KEY'', replicate 32 (CHR ''k''))) = Inr ?k"
    using key_round_trips [OF toy_lib_laws, of ?k] by blast
  have "ProtoMarshalPubKey toy_lib (RsaPublicKey 512) = Inr (CHR ''0'' # replicate 512 (CHR ''r''))"
    by (simp add: ProtoMarshalPubKey_def PubKeyToProto_def toy_lib_def)
  moreover have "\<not> pub_ok toy_lib (RsaPublicKey 512)" by (simp add: toy_lib_def MinRsaKeyBits_def)
  ultimately show "\<exists>b. ProtoMarshalPubKey toy_lib (RsaPublicKey 512) = Inr b \<and>
      ProtoUnmarshalPubKey toy_lib b \<noteq> Inr (RsaPublicKey 512)"
    using key_round_trips [OF toy_lib_laws, of "RsaPublicKey 512"] by blast
qed

text \<open>
  A generated pair belongs together and is in order, when the libraries return keys of the size asked for and
  an Ed25519 private key ends in its public key. Asking for an RSA key without a number of bits panics.
\<close>

definition key_gen_laws :: "('r, 's, 'e, 'rs, 'ss, 'es) key_lib \<Rightarrow> ('rs, 'ss, 'es) key_gen \<Rightarrow> bool" where
  "key_gen_laws L Y \<longleftrightarrow>
     (\<forall>n k. kg_Rsa Y n = Inr k \<longrightarrow> int (kl_bitLen L (kl_RsaPublic L k)) = n) \<and>
     (\<forall>pub pri. kg_Ed25519 Y = Inr (pub, pri) \<longrightarrow> length pri = 64 \<and> pub = drop 32 pri)"

theorem generated_pairs_match:
  assumes "key_gen_laws L Y" and "GenerateKeyPairWithReader L Y typ bits = r"
  shows "(r = Panics p \<longrightarrow> typ = 0 \<and> bits = []) \<and>
    (r = Returns (Inr (sk, pk)) \<longrightarrow> pk = GetPublic L sk \<and> pri_ok L sk \<and> pub_ok L pk)"
proof -
  have rsa: "pk = GetPublic L sk \<and> pri_ok L sk \<and> pub_ok L pk" if "GenerateRSAKeyPair L Y b = Inr (sk, pk)" for b
    using that assms(1)
    by (auto simp: GenerateRSAKeyPair_def key_gen_laws_def bind_err_Inr_iff split: if_split_asm) force+
  have ed: "pk = GetPublic L sk \<and> pri_ok L sk \<and> pub_ok L pk" if "GenerateEd25519Key Y = Inr (sk, pk)"
    using that assms(1) by (auto simp: GenerateEd25519Key_def key_gen_laws_def bind_err_Inr_iff)
  have secp: "pk = GetPublic L sk \<and> pri_ok L sk \<and> pub_ok L pk" if "GenerateSecp256k1Key L Y = Inr (sk, pk)"
    using that by (auto simp: GenerateSecp256k1Key_def bind_err_Inr_iff)
  have ec: "pk = GetPublic L sk \<and> pri_ok L sk \<and> pub_ok L pk" if "GenerateECDSAKeyPair L Y = Inr (sk, pk)"
    using that by (auto simp: GenerateECDSAKeyPair_def bind_err_Inr_iff)
  show ?thesis
    using assms(2) rsa ed secp ec by (auto simp: GenerateKeyPairWithReader_def split: if_split_asm list.split_asm)
qed

text \<open>
  Comparing keys: public keys compare as equal only when they are the same key, and private keys only when
  their public keys are; the comparison does not depend on the order.
\<close>

lemma raw_inj:
  assumes "key_lib_laws L" and "pub_Type k = pub_Type k'" and "pub_Raw L k = Inr b" and "pub_Raw L k' = Inr b"
  shows "k = k'"
proof -
  have "u = v" if "kl_MarshalPKIX L u = Inr b" "kl_MarshalPKIX L v = Inr b" for u v
    using that(1,2) [THEN key_lib_lawsD(1) [OF assms(1)]] by simp
  moreover have "u = v" if "kl_SecpPubSerialize L u = b" "kl_SecpPubSerialize L v = b" for u v
    using key_lib_lawsD(6) [OF assms(1), of u] key_lib_lawsD(6) [OF assms(1), of v] that by simp
  ultimately show ?thesis using assms(2-4) by (cases k; cases k') auto
qed

lemma basicEquals_sym: "basicEquals L x y = basicEquals L y x"
  by (auto simp: basicEquals_def split: sum.splits)

lemma Equals_sym:
  assumes "\<And>a b. kl_SecpPubIsEqual L a b \<longleftrightarrow> a = b"
  shows "Equals L x y = Equals L y x"
proof (cases x; cases y)
  fix k k' assume "x = APub k" "y = APub k'"
  then show ?thesis using basicEquals_sym [of L x y] assms by (cases k; cases k') auto
next
  fix k k' assume "x = APri k" "y = APri k'"
  then show ?thesis using basicEquals_sym [of L x y] assms by (cases k; cases k') auto
next
  fix k k' assume "x = APub k" "y = APri k'"
  then show ?thesis using basicEquals_sym [of L x y] by (cases k; cases k') simp_all
next
  fix k k' assume "x = APri k" "y = APub k'"
  then show ?thesis using basicEquals_sym [of L x y] by (cases k; cases k') simp_all
qed

theorem equal_keys_have_equal_publics:
  assumes "key_lib_laws L"
  shows "(KeyEqual L False (APub k) (APub k') \<longrightarrow> k = k') \<and>
    (KeyEqual L False (APri sk) (APri sk') \<longrightarrow> GetPublic L sk = GetPublic L sk') \<and>
    (KeyEqual L False x y = KeyEqual L False y x)"
proof -
  note laws = key_lib_lawsD [OF assms]
  have "KeyEqual L False (APub k) (APub k') \<longrightarrow> k = k'"
    using raw_inj [OF assms, of k k'] laws(7)
    by (cases k; cases k') (auto simp: KeyEqual_def basicEquals_def split: sum.splits)
  moreover have "KeyEqual L False (APri sk) (APri sk') \<longrightarrow> GetPublic L sk = GetPublic L sk'"
  proof (cases sk; cases sk')
    fix a b assume "sk = ECDSAPrivateKey a" "sk' = ECDSAPrivateKey b"
    then show ?thesis using laws(3) [of a] laws(3) [of b]
      by (fastforce simp: KeyEqual_def basicEquals_def split: sum.splits)
  qed (use laws(7) in \<open>auto simp: KeyEqual_def basicEquals_def\<close>)
  moreover have "KeyEqual L False x y = KeyEqual L False y x"
    using Equals_sym [of L x y] laws(7) by (simp add: KeyEqual_def)
  ultimately show ?thesis by blast
qed

theorem equal_keys_have_equal_publics_witness:
  "\<not> KeyEqual toy_lib False (APub (RsaPublicKey 2048)) (APub (RsaPublicKey 4096))"
  using equal_keys_have_equal_publics [OF toy_lib_laws, of "RsaPublicKey 2048" "RsaPublicKey 4096"] by simp

end
