(* ===== verification/Peer_Keys.thy ===== *)
theory Peer_Keys
  imports Peer_Id Keys
begin

text \<open>
  The ids of \<open>core/peer/id.go\<close> over the keys of \<open>core/crypto\<close>: the encoding of keys that \<open>Peer_Id\<close> takes as a
  parameter is here the one of \<open>ProtoMarshalPubKey\<close> and \<open>ProtoUnmarshalPubKey\<close>; the hash and base58 packages
  remain parameters.
\<close>

section \<open>The codec of the repository\<close>

text \<open>\<open>E\<close> is the text of an error.\<close>

definition with_text :: "(key_error \<Rightarrow> string) \<Rightarrow> key_error + 'a \<Rightarrow> string + 'a" where
  "with_text E r = (case r of Inl e \<Rightarrow> Inl (E e) | Inr x \<Rightarrow> Inr x)"

definition repo_codec ::
  "('r, 's, 'e, 'rs, 'ss, 'es) key_lib \<Rightarrow> (key_error \<Rightarrow> string) \<Rightarrow> ('r, 's, 'e) pub_key key_codec
   \<Rightarrow> ('r, 's, 'e) pub_key key_codec" where
  "repo_codec L E H =
     H\<lparr>kc_marshal := \<lambda>k. with_text E (ProtoMarshalPubKey L k),
       kc_unmarshal := \<lambda>b. with_text E (ProtoUnmarshalPubKey L b)\<rparr>"

definition hash_laws :: "'k key_codec \<Rightarrow> bool" where
  "hash_laws H \<longleftrightarrow>
     kc_IDENTITY H \<noteq> kc_SHA2_256 H \<and>
     (\<forall>bz. kc_base58Decode H (kc_base58Encode H bz) = Inr bz) \<and>
     (\<forall>bz. kc_hashDecode H (kc_hashSum H (kc_IDENTITY H) bz) = Inr (kc_IDENTITY H, bz)) \<and>
     (\<forall>bz. \<exists>d. kc_hashDecode H (kc_hashSum H (kc_SHA2_256 H) bz) = Inr (kc_SHA2_256 H, d))"

lemma with_text_Inr [simp]: "with_text E r = Inr x \<longleftrightarrow> r = Inr x"
  by (simp add: with_text_def split: sum.split)

lemma repo_codec_simps [simp]:
  "kc_marshal (repo_codec L E H) k = with_text E (ProtoMarshalPubKey L k)"
  "kc_unmarshal (repo_codec L E H) b = with_text E (ProtoUnmarshalPubKey L b)"
  "kc_base58Encode (repo_codec L E H) = kc_base58Encode H"
  "kc_base58Decode (repo_codec L E H) = kc_base58Decode H"
  "kc_hashSum (repo_codec L E H) = kc_hashSum H"
  "kc_hashDecode (repo_codec L E H) = kc_hashDecode H"
  "kc_IDENTITY (repo_codec L E H) = kc_IDENTITY H"
  "kc_SHA2_256 (repo_codec L E H) = kc_SHA2_256 H"
  by (simp_all add: repo_codec_def)

interpretation repo_ids: key_encoding "\<lambda>k. key_lib_laws L \<and> hash_laws H \<and> pub_ok L k" "repo_codec L E H" for L E H
  by unfold_locales (auto simp: hash_laws_def pub_round_trip)

section \<open>Properties\<close>

text \<open>
  C28. The id of a key and the key. For every kind of key the code can read: an id made from the key matches it;
  when the encoded key has at most 46 bytes the key can be read back from the id, and no other readable key
  has that id; otherwise the id answers that no key is embedded.
\<close>

theorem id_of_key:
  assumes "key_lib_laws L" and "hash_laws H" and "pub_ok L k"
    and "ProtoMarshalPubKey L k = Inr bz" and "IDFromPubKey (repo_codec L E H) k = Inr i"
  shows "MatchesPubKey (repo_codec L E H) i k \<and>
    ExtractPubKey (repo_codec L E H) i = (if length bz \<le> 46 then Inr k else Inl ErrNoPubKey) \<and>
    (length bz \<le> 46 \<longrightarrow> (\<forall>k'. pub_ok L k' \<and> MatchesPubKey (repo_codec L E H) i k' \<longrightarrow> k' = k))"
proof -
  have ok: "key_lib_laws L \<and> hash_laws H \<and> pub_ok L k" and m: "kc_marshal (repo_codec L E H) k = Inr bz"
    using assms(1-4) by simp_all
  have "k' = k" if "length bz \<le> 46" "pub_ok L k'" "MatchesPubKey (repo_codec L E H) i k'" for k'
    using repo_ids.embedded_key_unique [OF ok _ m _ assms(5), of k'] that assms(1,2)
    by (simp add: MatchesPubKey_def IDLength_def split: sum.split_asm)
  then show ?thesis
    using repo_ids.extract_of_id [OF ok m assms(5)] assms(5) by (simp add: MatchesPubKey_def IDLength_def)
qed

text \<open>An identity hash with a zero byte in front, another hash with a prefix of its input.\<close>

definition toy_hash :: "(nat, char, unit) pub_key key_codec" where
  "toy_hash =
     \<lparr>kc_marshal = (\<lambda>_. Inl ''none''), kc_unmarshal = (\<lambda>_. Inl ''none''), kc_base58Encode = id, kc_base58Decode = Inr,
      kc_hashSum = (\<lambda>alg bz. if alg = 0 then CHR 0x00 # bz else CHR 0x12 # take 32 bz),
      kc_hashDecode = (\<lambda>h. case h of [] \<Rightarrow> Inl ''short''
         | c # d \<Rightarrow> if c = CHR 0x00 then Inr (0, d) else Inr (18, d)),
      kc_IDENTITY = 0, kc_SHA2_256 = 18\<rparr>"

lemma toy_hash_laws: "hash_laws toy_hash"
  by (simp add: hash_laws_def toy_hash_def)

theorem id_of_key_witness:
  "ExtractPubKey (repo_codec toy_lib (\<lambda>_. ''error'') toy_hash) (CHR 0x00 # CHR ''1'' # replicate 32 (CHR ''k'')) =
     Inr (Ed25519PublicKey (replicate 32 (CHR ''k'')))"
proof -
  let ?k = "Ed25519PublicKey (replicate 32 (CHR ''k'')) :: (nat, char, unit) pub_key"
  have m: "ProtoMarshalPubKey toy_lib ?k = Inr (CHR ''1'' # replicate 32 (CHR ''k''))"
    by (simp add: ProtoMarshalPubKey_def PubKeyToProto_def toy_lib_def)
  have i: "IDFromPubKey (repo_codec toy_lib (\<lambda>_. ''error'') toy_hash) ?k = Inr (CHR 0x00 # CHR ''1'' # replicate 32 (CHR ''k''))"
    by (simp add: IDFromPubKey_def m with_text_def toy_hash_def IDLength_def)
  have "pub_ok toy_lib ?k" by simp
  from id_of_key [OF toy_lib_laws toy_hash_laws this m i] show ?thesis by simp
qed

end
