(* ===== verification/Tls_Security.thy ===== *)
theory Tls_Security
  imports Peer_Keys Tcp_Network
begin

text \<open>
  \<open>util/tls_security.go\<close> and the signatures of \<open>core/crypto\<close>: the certificate that ties a TLS key to the key of
  a peer, and how the other side checks it and computes the peer's id. The signature schemes, \<open>x509\<close> and
  \<open>asn1\<close> are operations of \<open>sig_lib\<close> and \<open>cert_lib\<close>; \<open>'p\<close> and \<open>'q\<close> stand for the public and private keys of
  certificates.
\<close>

section \<open>Signatures\<close>

record ('r, 's, 'e, 'rs, 'ss, 'es) sig_lib =
  sg_sha256 :: "bytes \<Rightarrow> bytes"
  sg_RsaSign :: "'rs \<Rightarrow> bytes \<Rightarrow> string + bytes"
  sg_RsaVerify :: "'r \<Rightarrow> bytes \<Rightarrow> bytes \<Rightarrow> string option"
  sg_Ed25519NewKeyFromSeed :: "bytes \<Rightarrow> bytes"
  sg_Ed25519Sign :: "bytes \<Rightarrow> bytes \<Rightarrow> bytes"
  sg_Ed25519Verify :: "bytes \<Rightarrow> bytes \<Rightarrow> bytes \<Rightarrow> bool"
  sg_SecpSign :: "'ss \<Rightarrow> bytes \<Rightarrow> bytes"
  sg_SecpParse :: "bytes \<Rightarrow> string + bytes"
  sg_SecpVerify :: "'s \<Rightarrow> bytes \<Rightarrow> bytes \<Rightarrow> bool"
  sg_ECDSASign :: "'es \<Rightarrow> bytes \<Rightarrow> string + int \<times> int"
  sg_ECDSAVerify :: "'e \<Rightarrow> bytes \<Rightarrow> int \<times> int \<Rightarrow> bool"
  sg_asn1Marshal :: "int \<times> int \<Rightarrow> string + bytes"
  sg_asn1Unmarshal :: "bytes \<Rightarrow> string + int \<times> int"

definition RsaPrivateKey_Sign :: "('r, 's, 'e, 'rs, 'ss, 'es) sig_lib \<Rightarrow> 'rs \<Rightarrow> bytes \<Rightarrow> key_error + bytes" where
  "RsaPrivateKey_Sign G k msg =
     of_lib (sg_RsaSign G k (sg_sha256 G msg))"

definition Ed25519PrivateKey_Sign :: "('r, 's, 'e, 'rs, 'ss, 'es) sig_lib \<Rightarrow> bytes \<Rightarrow> bytes \<Rightarrow> key_error + bytes" where
  "Ed25519PrivateKey_Sign G k msg =
     Inr (sg_Ed25519Sign G k msg)"

definition Secp256k1PrivateKey_Sign :: "('r, 's, 'e, 'rs, 'ss, 'es) sig_lib \<Rightarrow> 'ss \<Rightarrow> bytes \<Rightarrow> key_error + bytes" where
  "Secp256k1PrivateKey_Sign G k msg =
     Inr (sg_SecpSign G k (sg_sha256 G msg))"

definition ECDSAPrivateKey_Sign :: "('r, 's, 'e, 'rs, 'ss, 'es) sig_lib \<Rightarrow> 'es \<Rightarrow> bytes \<Rightarrow> key_error + bytes" where
  "ECDSAPrivateKey_Sign G k msg =
     bind_err (of_lib (sg_ECDSASign G k (sg_sha256 G msg))) (\<lambda>rs. of_lib (sg_asn1Marshal G rs))"

fun key_Sign :: "('r, 's, 'e, 'rs, 'ss, 'es) sig_lib \<Rightarrow> ('rs, 'ss, 'es) pri_key \<Rightarrow> bytes \<Rightarrow> key_error + bytes" where
  "key_Sign G (RsaPrivateKey k) msg = RsaPrivateKey_Sign G k msg"
| "key_Sign G (Ed25519PrivateKey k) msg = Ed25519PrivateKey_Sign G k msg"
| "key_Sign G (Secp256k1PrivateKey k) msg = Secp256k1PrivateKey_Sign G k msg"
| "key_Sign G (ECDSAPrivateKey k) msg = ECDSAPrivateKey_Sign G k msg"

definition RsaPublicKey_Verify :: "('r, 's, 'e, 'rs, 'ss, 'es) sig_lib \<Rightarrow> 'r \<Rightarrow> bytes \<Rightarrow> bytes \<Rightarrow> key_error + bool" where
  "RsaPublicKey_Verify G k data sig =
     (case sg_RsaVerify G k (sg_sha256 G data) sig of Some e \<Rightarrow> Inl (ErrOfLib e) | None \<Rightarrow> Inr True)"

definition Ed25519PublicKey_Verify :: "('r, 's, 'e, 'rs, 'ss, 'es) sig_lib \<Rightarrow> bytes \<Rightarrow> bytes \<Rightarrow> bytes \<Rightarrow> key_error + bool" where
  "Ed25519PublicKey_Verify G k data sig =
     Inr (sg_Ed25519Verify G k data sig)"

definition Secp256k1PublicKey_Verify :: "('r, 's, 'e, 'rs, 'ss, 'es) sig_lib \<Rightarrow> 's \<Rightarrow> bytes \<Rightarrow> bytes \<Rightarrow> key_error + bool" where
  "Secp256k1PublicKey_Verify G k data sig =
     bind_err (of_lib (sg_SecpParse G sig)) (\<lambda>s. Inr (sg_SecpVerify G k (sg_sha256 G data) s))"

definition ECDSAPublicKey_Verify :: "('r, 's, 'e, 'rs, 'ss, 'es) sig_lib \<Rightarrow> 'e \<Rightarrow> bytes \<Rightarrow> bytes \<Rightarrow> key_error + bool" where
  "ECDSAPublicKey_Verify G k data sig =
     bind_err (of_lib (sg_asn1Unmarshal G sig)) (\<lambda>rs. Inr (sg_ECDSAVerify G k (sg_sha256 G data) rs))"

fun key_Verify :: "('r, 's, 'e, 'rs, 'ss, 'es) sig_lib \<Rightarrow> ('r, 's, 'e) pub_key \<Rightarrow> bytes \<Rightarrow> bytes \<Rightarrow> key_error + bool" where
  "key_Verify G (RsaPublicKey k) data sig = RsaPublicKey_Verify G k data sig"
| "key_Verify G (Ed25519PublicKey k) data sig = Ed25519PublicKey_Verify G k data sig"
| "key_Verify G (Secp256k1PublicKey k) data sig = Secp256k1PublicKey_Verify G k data sig"
| "key_Verify G (ECDSAPublicKey k) data sig = ECDSAPublicKey_Verify G k data sig"

declare RsaPrivateKey_Sign_def [simp]
  Ed25519PrivateKey_Sign_def [simp]
  Secp256k1PrivateKey_Sign_def [simp]
  ECDSAPrivateKey_Sign_def [simp]
  RsaPublicKey_Verify_def [simp]
  Ed25519PublicKey_Verify_def [simp]
  Secp256k1PublicKey_Verify_def [simp]
  ECDSAPublicKey_Verify_def [simp]

section \<open>Certificates\<close>

record 'p certificate =
  ce_Extensions :: "(int list \<times> bytes) list"
  ce_UnhandledCriticalExtensions :: "int list list"
  ce_PublicKey :: 'p

text \<open>
  \<open>cl_GenerateKey\<close> is the generation of the certificate's own key; \<open>cl_CreateCertificate\<close> gives the certificate
  as the other side parses it; \<open>cl_Verify\<close> checks it with itself as the only root.
\<close>

record ('p, 'q) cert_lib =
  cl_MarshalPKIX :: "'p \<Rightarrow> string + bytes"
  cl_asn1Marshal :: "bytes \<times> bytes \<Rightarrow> string + bytes"
  cl_asn1Unmarshal :: "bytes \<Rightarrow> string + bytes \<times> bytes"
  cl_GenerateKey :: "string + 'q"
  cl_Public :: "'q \<Rightarrow> 'p"
  cl_CreateCertificate :: "(int list \<times> bytes) list \<Rightarrow> 'q \<Rightarrow> string + 'p certificate"
  cl_Verify :: "'p certificate \<Rightarrow> string option"

definition certificatePrefix :: bytes where
  "certificatePrefix = ''rainbow-bee-tls-handshake:''"

definition extensionPrefix :: "int list" where
  "extensionPrefix = [1, 3, 6, 1, 4, 1, 53594]"

definition getPrefixedExtensionID :: "int list \<Rightarrow> int list" where
  "getPrefixedExtensionID suffix = extensionPrefix @ suffix"

definition extensionID :: "int list" where
  "extensionID = getPrefixedExtensionID [1, 1]"

fun ids_loop :: "int list \<Rightarrow> int list \<Rightarrow> bool" where
  "ids_loop (x # xs) (y # ys) = (if x \<noteq> y then False else ids_loop xs ys)"
| "ids_loop _ _ = True"

definition extensionIDEqual :: "int list \<Rightarrow> int list \<Rightarrow> bool" where
  "extensionIDEqual a b = (if length a \<noteq> length b then False else ids_loop a b)"

datatype tls_error =
    ErrOneCertificate
  | ErrNoKeyExtension
  | ErrCertVerification string
  | ErrSignedKey string
  | ErrPubKey key_error
  | ErrSignature key_error
  | ErrSignatureInvalid
  | ErrTlsLib string

definition bind_tls :: "('e + 'a) \<Rightarrow> ('e \<Rightarrow> tls_error) \<Rightarrow> ('a \<Rightarrow> tls_error + 'b) \<Rightarrow> tls_error + 'b" where
  "bind_tls r w f = (case r of Inl e \<Rightarrow> Inl (w e) | Inr x \<Rightarrow> f x)"

definition GenerateSignedExtension ::
  "('r, 's, 'e, 'rs, 'ss, 'es) key_lib \<Rightarrow> ('r, 's, 'e, 'rs, 'ss, 'es) sig_lib \<Rightarrow> ('p, 'q) cert_lib
   \<Rightarrow> ('rs, 'ss, 'es) pri_key \<Rightarrow> 'p \<Rightarrow> tls_error + int list \<times> bytes" where
  "GenerateSignedExtension L G X sk pubKey =
     bind_tls (ProtoMarshalPubKey L (GetPublic L sk)) ErrPubKey (\<lambda>keyBytes.
     bind_tls (cl_MarshalPKIX X pubKey) ErrTlsLib (\<lambda>certKeyPub.
     bind_tls (key_Sign G sk (certificatePrefix @ certKeyPub)) ErrSignature (\<lambda>signature.
     bind_tls (cl_asn1Marshal X (keyBytes, signature)) ErrTlsLib (\<lambda>value.
       Inr (extensionID, value)))))"

definition keyToCertificate ::
  "('r, 's, 'e, 'rs, 'ss, 'es) key_lib \<Rightarrow> ('r, 's, 'e, 'rs, 'ss, 'es) sig_lib \<Rightarrow> ('p, 'q) cert_lib
   \<Rightarrow> (int list \<times> bytes) list \<Rightarrow> ('rs, 'ss, 'es) pri_key \<Rightarrow> tls_error + 'p certificate" where
  "keyToCertificate L G X extraExtensions sk =
     bind_tls (cl_GenerateKey X) ErrTlsLib (\<lambda>certKey.
     bind_tls (GenerateSignedExtension L G X sk (cl_Public X certKey)) id (\<lambda>extension.
       bind_tls (cl_CreateCertificate X (extraExtensions @ [extension]) certKey) ErrTlsLib Inr))"

text \<open>
  \<open>tmpl\<close> is the error of \<open>tlsCertTemplate\<close>, or the extensions of the template: none in the one that it makes.
  Of the configuration the network reads the certificates, and replaces the protocol name.
\<close>

definition EasyToUseTLSConfig ::
  "('r, 's, 'e, 'rs, 'ss, 'es) key_lib \<Rightarrow> ('r, 's, 'e, 'rs, 'ss, 'es) sig_lib \<Rightarrow> ('p, 'q) cert_lib
   \<Rightarrow> string + (int list \<times> bytes) list \<Rightarrow> ('rs, 'ss, 'es) pri_key \<Rightarrow> tls_error + 'p certificate tls_config" where
  "EasyToUseTLSConfig L G X tmpl sk =
     bind_tls tmpl ErrTlsLib (\<lambda>exts.
     bind_tls (keyToCertificate L G X exts sk) id (\<lambda>cert.
       Inr \<lparr>tls_certificates = [cert], tls_nextProtos = [''rainbow-bee'']\<rparr>))"

text \<open>The loop over the extensions: the first with the right id, if there is one.\<close>

fun find_key_extension :: "(int list \<times> bytes) list \<Rightarrow> (int list \<times> bytes) option" where
  "find_key_extension [] = None"
| "find_key_extension (ext # exts) =
     (if extensionIDEqual (fst ext) extensionID then Some ext else find_key_extension exts)"

definition PubKeyFromCertChain ::
  "('r, 's, 'e, 'rs, 'ss, 'es) key_lib \<Rightarrow> ('r, 's, 'e, 'rs, 'ss, 'es) sig_lib \<Rightarrow> ('p, 'q) cert_lib
   \<Rightarrow> 'p certificate list \<Rightarrow> tls_error + ('r, 's, 'e) pub_key" where
  "PubKeyFromCertChain L G X chain =
     (case chain of
        [cert0] \<Rightarrow>
          (case find_key_extension (ce_Extensions cert0) of
             None \<Rightarrow> Inl ErrNoKeyExtension
           | Some (i, value) \<Rightarrow>
               (let cert = cert0\<lparr>ce_UnhandledCriticalExtensions := remove1 i (ce_UnhandledCriticalExtensions cert0)\<rparr>
                in case cl_Verify X cert of
                     Some e \<Rightarrow> Inl (ErrCertVerification e)
                   | None \<Rightarrow>
                       bind_tls (cl_asn1Unmarshal X value) ErrSignedKey (\<lambda>(pubBytes, signature).
                       bind_tls (ProtoUnmarshalPubKey L pubBytes) ErrPubKey (\<lambda>pubKey.
                       bind_tls (cl_MarshalPKIX X (ce_PublicKey cert)) ErrTlsLib (\<lambda>certKeyPub.
                       bind_tls (key_Verify G pubKey (certificatePrefix @ certKeyPub) signature) ErrSignature (\<lambda>valid.
                         if \<not> valid then Inl ErrSignatureInvalid else Inr pubKey))))))
      | _ \<Rightarrow> Inl ErrOneCertificate)"

definition EasyToUsePIDLoader ::
  "('r, 's, 'e, 'rs, 'ss, 'es) key_lib \<Rightarrow> ('r, 's, 'e, 'rs, 'ss, 'es) sig_lib \<Rightarrow> ('p, 'q) cert_lib
   \<Rightarrow> ('r, 's, 'e) pub_key key_codec \<Rightarrow> 'p certificate list \<Rightarrow> tls_error + peer_id" where
  "EasyToUsePIDLoader L G X K certs =
     bind_tls (PubKeyFromCertChain L G X certs) id (\<lambda>pk. bind_tls (IDFromPubKey K pk) ErrTlsLib Inr)"

section \<open>What is relied on\<close>

text \<open>
  What each signature library promises of a digest or message and the two halves of a key: a signature it makes
  verifies. Signatures of secp256k1 and pairs of ECDSA numbers are read back as they were written. A private key of
  \<open>ed25519\<close> carries its public half; the promise is made for keys that were derived from a seed.
\<close>

definition sig_laws ::
  "('r, 's, 'e, 'rs, 'ss, 'es) key_lib \<Rightarrow> ('r, 's, 'e, 'rs, 'ss, 'es) sig_lib \<Rightarrow> bool" where
  "sig_laws L G \<longleftrightarrow>
     (\<forall>k digest sig. sg_RsaSign G k digest = Inr sig \<longrightarrow> sg_RsaVerify G (kl_RsaPublic L k) digest sig = None) \<and>
     (\<forall>seed msg. length seed = 32 \<longrightarrow> (let k = sg_Ed25519NewKeyFromSeed G seed
        in take 32 k = seed \<and> sg_Ed25519Verify G (drop 32 k) msg (sg_Ed25519Sign G k msg))) \<and>
     (\<forall>k digest. \<exists>s. sg_SecpParse G (sg_SecpSign G k digest) = Inr s \<and> sg_SecpVerify G (kl_SecpPublic L k) digest s) \<and>
     (\<forall>k digest rs. sg_ECDSASign G k digest = Inr rs \<longrightarrow> sg_ECDSAVerify G (kl_ECPublic L k) digest rs) \<and>
     (\<forall>rs b. sg_asn1Marshal G rs = Inr b \<longrightarrow> sg_asn1Unmarshal G b = Inr rs)"

text \<open>The public half of an Ed25519 key belongs to its seed; the other kinds of keys compute their public key.\<close>

fun own_halves :: "('r, 's, 'e, 'rs, 'ss, 'es) sig_lib \<Rightarrow> ('rs, 'ss, 'es) pri_key \<Rightarrow> bool" where
  "own_halves G (Ed25519PrivateKey k) \<longleftrightarrow> length k = 64 \<and> k = sg_Ed25519NewKeyFromSeed G (take 32 k)"
| "own_halves G _ \<longleftrightarrow> True"

text \<open>A certificate holds the extensions it was created with after any others of its own, and the public key.\<close>

definition cert_laws :: "('p, 'q) cert_lib \<Rightarrow> bool" where
  "cert_laws X \<longleftrightarrow>
     (\<forall>m b. cl_asn1Marshal X m = Inr b \<longrightarrow> cl_asn1Unmarshal X b = Inr m) \<and>
     (\<forall>exts q c. cl_CreateCertificate X exts q = Inr c \<longrightarrow>
        ce_PublicKey c = cl_Public X q \<and>
        (\<exists>own. ce_Extensions c = own @ exts \<and> (\<forall>e\<in>set own. fst e \<noteq> extensionID)) \<and>
        cl_Verify X (c\<lparr>ce_UnhandledCriticalExtensions :=
          remove1 extensionID (ce_UnhandledCriticalExtensions c)\<rparr>) = None)"

lemma own_signature_verifies:
  assumes laws: "sig_laws L G" and own: "own_halves G sk" and sig: "key_Sign G sk msg = Inr sig"
  shows "key_Verify G (GetPublic L sk) msg sig = Inr True"
proof (cases sk)
  case (RsaPrivateKey k)
  then show ?thesis using laws sig by (cases "sg_RsaSign G k (sg_sha256 G msg)") (auto simp: sig_laws_def of_lib_def)
next
  case (Ed25519PrivateKey k)
  then have "length (take 32 k) = 32" "k = sg_Ed25519NewKeyFromSeed G (take 32 k)" using own by simp_all
  then have "sg_Ed25519Verify G (drop 32 k) msg (sg_Ed25519Sign G k msg)"
    using laws unfolding sig_laws_def Let_def by metis
  then show ?thesis using Ed25519PrivateKey sig by auto
next
  case (Secp256k1PrivateKey k)
  obtain s where "sg_SecpParse G (sg_SecpSign G k (sg_sha256 G msg)) = Inr s"
    "sg_SecpVerify G (kl_SecpPublic L k) (sg_sha256 G msg) s"
    using laws unfolding sig_laws_def by blast
  then show ?thesis using Secp256k1PrivateKey sig by (auto simp: of_lib_def)
next
  case (ECDSAPrivateKey k)
  then obtain rs where "of_lib (sg_ECDSASign G k (sg_sha256 G msg)) = Inr rs" "of_lib (sg_asn1Marshal G rs) = Inr sig"
    using sig by (auto simp: bind_err_Inr_iff)
  then have "sg_ECDSASign G k (sg_sha256 G msg) = Inr rs" "sg_asn1Marshal G rs = Inr sig"
    by (auto simp: of_lib_def split: sum.splits)
  then have "sg_asn1Unmarshal G sig = Inr rs" "sg_ECDSAVerify G (kl_ECPublic L k) (sg_sha256 G msg) rs"
    using laws unfolding sig_laws_def by blast+
  then show ?thesis using ECDSAPrivateKey by (simp add: of_lib_def)
qed

lemma ids_loop_iff: "length a = length b \<Longrightarrow> ids_loop a b \<longleftrightarrow> a = b"
  by (induction a b rule: list_induct2) auto

lemma extensionIDEqual_iff: "extensionIDEqual a b \<longleftrightarrow> a = b"
  using ids_loop_iff by (auto simp: extensionIDEqual_def)

lemma find_key_extension_append:
  "\<forall>e\<in>set own. fst e \<noteq> extensionID \<Longrightarrow> find_key_extension (own @ exts) = find_key_extension exts"
  by (induction own) (auto simp: extensionIDEqual_iff)

lemma find_key_extension_SomeD:
  "find_key_extension exts = Some e \<Longrightarrow> e \<in> set exts \<and> fst e = extensionID"
  by (induction exts) (auto simp: extensionIDEqual_iff split: if_splits)

lemma bind_tls_Inr_iff: "bind_tls r w f = Inr y \<longleftrightarrow> (\<exists>x. r = Inr x \<and> f x = Inr y)"
  by (cases r) (simp_all add: bind_tls_def)

lemma bind_tls_Inr [simp]: "bind_tls (Inr x) w f = f x"
  by (simp add: bind_tls_def)

lemma unmarshalled_rsa: "UnmarshalRsaPublicKey L b = Inr k \<Longrightarrow> pub_ok L k"
proof (cases "kl_ParsePKIX L b")
  case (Inr r)
  assume u: "UnmarshalRsaPublicKey L b = Inr k"
  then obtain pk where "r = Some (Inl pk)"
    using Inr by (cases r; cases "the r") (auto simp: UnmarshalRsaPublicKey_def)
  then show ?thesis using u Inr
    by (cases "check_rsa_bits (kl_bitLen L pk)") (auto simp: UnmarshalRsaPublicKey_def check_rsa_bits_None)
qed (simp add: UnmarshalRsaPublicKey_def of_lib_def)

lemma unmarshalled_ecdsa: "UnmarshalECDSAPublicKey L b = Inr k \<Longrightarrow> pub_ok L k"
proof (cases "kl_ParsePKIX L b")
  case (Inr r)
  assume "UnmarshalECDSAPublicKey L b = Inr k"
  then show ?thesis using Inr by (cases r; cases "the r") (auto simp: UnmarshalECDSAPublicKey_def)
qed (simp add: UnmarshalECDSAPublicKey_def of_lib_def)

lemma unmarshalled_pub_ok: "PubKeyUnmarshalers L t = Some um \<Longrightarrow> um data = Inr k \<Longrightarrow> pub_ok L k"
  by (cases t)
     (auto simp: PubKeyUnmarshalers_def bind_err_Inr_iff UnmarshalEd25519PublicKey_def
        UnmarshalSecp256k1PublicKey_def dest: unmarshalled_rsa unmarshalled_ecdsa split: if_split_asm)

lemma ProtoUnmarshalPubKey_ok: "ProtoUnmarshalPubKey L b = Inr k \<Longrightarrow> pub_ok L k"
  by (auto simp: ProtoUnmarshalPubKey_def bind_err_Inr_iff PubKeyFromProto_def
      dest: unmarshalled_pub_ok split: option.split_asm)

section \<open>Properties\<close>

text \<open>
  C18. A peer is known by the id of its own key. When a host's TLS configuration can be made from its private
  key, the other side, checking the certificate of that configuration, computes exactly the id that the host
  computes for itself from the key, whatever the kind of the key: each kind signs and verifies the same digest with the
  halves of the same key. The public key has to be one the code reads, and the public half that an Ed25519 key carries
  has to belong to its seed; of the signature libraries only what they promise of their own signatures is assumed.
\<close>

theorem tls_identity_is_the_peers_id:
  assumes laws: "key_lib_laws L" "sig_laws L G" "cert_laws X"
    and ok: "pub_ok L (GetPublic L sk)" and own: "own_halves G sk"
    and cfg: "EasyToUseTLSConfig L G X (Inr []) sk = Inr cfg"
    and i: "IDFromPriKey K (GetPublic L) sk = Inr pid"
  shows "EasyToUsePIDLoader L G X K (tls_certificates cfg) = Inr pid"
proof -
  obtain q cert val keyBytes certKeyPub sig where
    q: "cl_CreateCertificate X [(extensionID, val)] q = Inr cert" "tls_certificates cfg = [cert]"
    and k: "ProtoMarshalPubKey L (GetPublic L sk) = Inr keyBytes" "cl_MarshalPKIX X (cl_Public X q) = Inr certKeyPub"
      "key_Sign G sk (certificatePrefix @ certKeyPub) = Inr sig" "cl_asn1Marshal X (keyBytes, sig) = Inr val"
    using cfg by (auto simp: EasyToUseTLSConfig_def keyToCertificate_def GenerateSignedExtension_def bind_tls_Inr_iff)
  obtain own where c: "ce_PublicKey cert = cl_Public X q" "ce_Extensions cert = own @ [(extensionID, val)]"
    "\<forall>e\<in>set own. fst e \<noteq> extensionID"
    "cl_Verify X (cert\<lparr>ce_UnhandledCriticalExtensions :=
       remove1 extensionID (ce_UnhandledCriticalExtensions cert)\<rparr>) = None"
    using laws(3) q(1) unfolding cert_laws_def by blast
  have "find_key_extension (ce_Extensions cert) = Some (extensionID, val)"
    using find_key_extension_append [OF c(3)] by (simp add: c(2) extensionIDEqual_iff)
  moreover have "cl_asn1Unmarshal X val = Inr (keyBytes, sig)" using laws(3) k(4) unfolding cert_laws_def by blast
  moreover have "ProtoUnmarshalPubKey L keyBytes = Inr (GetPublic L sk)" by (rule pub_round_trip [OF laws(1) k(1) ok])
  moreover have "key_Verify G (GetPublic L sk) (certificatePrefix @ certKeyPub) sig = Inr True"
    by (rule own_signature_verifies [OF laws(2) own k(3)])
  ultimately have "PubKeyFromCertChain L G X [cert] = Inr (GetPublic L sk)"
    using c(1,4) k(2) by (simp add: PubKeyFromCertChain_def Let_def)
  then show ?thesis using i q(2) by (simp add: EasyToUsePIDLoader_def IDFromPriKey_def)
qed

text \<open>
  C25. No id without a signature. When the loader accepts a chain, the chain is a single certificate that
  verifies, its key extension names a key in order, that key has signed the certificate's public key, and the
  id is the id of that key. Nothing else of the certificate is believed, and a chain with no extension or with
  several certificates is refused.
\<close>

theorem loader_accepts_only_signed_keys:
  assumes "EasyToUsePIDLoader L G X K chain = Inr pid"
  shows "\<exists>cert val pubBytes signature pk certKeyPub.
    chain = [cert] \<and> (extensionID, val) \<in> set (ce_Extensions cert) \<and>
    cl_Verify X (cert\<lparr>ce_UnhandledCriticalExtensions :=
      remove1 extensionID (ce_UnhandledCriticalExtensions cert)\<rparr>) = None \<and>
    cl_asn1Unmarshal X val = Inr (pubBytes, signature) \<and>
    ProtoUnmarshalPubKey L pubBytes = Inr pk \<and> pub_ok L pk \<and>
    cl_MarshalPKIX X (ce_PublicKey cert) = Inr certKeyPub \<and>
    key_Verify G pk (certificatePrefix @ certKeyPub) signature = Inr True \<and> IDFromPubKey K pk = Inr pid"
proof -
  obtain pk where pk: "PubKeyFromCertChain L G X chain = Inr pk" "IDFromPubKey K pk = Inr pid"
    using assms by (auto simp: EasyToUsePIDLoader_def bind_tls_Inr_iff)
  then obtain cert where cert: "chain = [cert]"
    by (auto simp: PubKeyFromCertChain_def split: list.splits)
  obtain i val where f: "find_key_extension (ce_Extensions cert) = Some (i, val)"
    using pk(1) by (auto simp: cert PubKeyFromCertChain_def split: option.splits)
  then have "i = extensionID" "(extensionID, val) \<in> set (ce_Extensions cert)"
    using find_key_extension_SomeD [OF f] by auto
  then show ?thesis using pk f ProtoUnmarshalPubKey_ok [of L]
    by (fastforce simp: cert PubKeyFromCertChain_def Let_def bind_tls_Inr_iff split: option.splits if_splits)
qed

text \<open>
  Signatures for the library \<open>toy_lib\<close> that show the signer and the message, certificates of numbered keys, and
  ids over them.
\<close>

definition toy_sig :: "(nat, char, unit, nat, char, unit) sig_lib" where
  "toy_sig =
     \<lparr>sg_sha256 = id, sg_RsaSign = (\<lambda>k h. Inr h), sg_RsaVerify = (\<lambda>k h s. if s = h then None else Some ''bad''),
      sg_Ed25519NewKeyFromSeed = (\<lambda>seed. seed @ seed), sg_Ed25519Sign = (\<lambda>k msg. drop 32 k @ msg), sg_Ed25519Verify = (\<lambda>k data sig. sig = k @ data),
      sg_SecpSign = (\<lambda>k h. k # h), sg_SecpParse = Inr, sg_SecpVerify = (\<lambda>k h s. s = k # h),
      sg_ECDSASign = (\<lambda>k h. Inl ''no curve''), sg_ECDSAVerify = (\<lambda>k h rs. False),
      sg_asn1Marshal = (\<lambda>_. Inl ''no curve''), sg_asn1Unmarshal = (\<lambda>_. Inl ''no curve'')\<rparr>"

definition toy_cert :: "(nat, nat) cert_lib" where
  "toy_cert =
     \<lparr>cl_MarshalPKIX = (\<lambda>p. Inr (replicate p (CHR ''p''))),
      cl_asn1Marshal = (\<lambda>(a, b). Inr (replicate (length a) (CHR ''a'') @ CHR 0x00 # a @ b)),
      cl_asn1Unmarshal = (\<lambda>b. let n = length (takeWhile (\<lambda>c. c \<noteq> CHR 0x00) b); r = drop (Suc n) b
         in Inr (take n r, drop n r)),
      cl_GenerateKey = Inr 5, cl_Public = id,
      cl_CreateCertificate = (\<lambda>exts q.
         Inr \<lparr>ce_Extensions = exts, ce_UnhandledCriticalExtensions = [], ce_PublicKey = q\<rparr>),
      cl_Verify = (\<lambda>_. None)\<rparr>"

definition toy_codec :: "(nat, char, unit) pub_key key_codec" where
  "toy_codec =
     \<lparr>kc_marshal = (\<lambda>k. case ProtoMarshalPubKey toy_lib k of Inr b \<Rightarrow> Inr b | Inl _ \<Rightarrow> Inl ''bad key''),
      kc_unmarshal = (\<lambda>b. Inl ''not used''), kc_base58Encode = id, kc_base58Decode = Inr,
      kc_hashSum = (\<lambda>alg bz. CHR 0x00 # bz), kc_hashDecode = (\<lambda>h. Inl ''not used''),
      kc_IDENTITY = 0, kc_SHA2_256 = 18\<rparr>"

lemma toy_sig_laws: "sig_laws toy_lib toy_sig"
  by (simp add: sig_laws_def toy_sig_def toy_lib_def)

lemma toy_cert_laws: "cert_laws toy_cert"
proof -
  have "takeWhile (\<lambda>c. c \<noteq> CHR 0x00) (replicate n (CHR ''a'') @ CHR 0x00 # xs) = replicate n (CHR ''a'')" for n xs
    by (induction n) simp_all
  then show ?thesis by (auto simp: cert_laws_def toy_cert_def Let_def)
qed

text \<open>The configuration of an Ed25519 key, and the id of the key.\<close>

lemma toy_config:
  obtains cfg where "EasyToUseTLSConfig toy_lib toy_sig toy_cert (Inr []) (Ed25519PrivateKey (replicate 64 (CHR ''k''))) = Inr cfg"
  by (simp add: EasyToUseTLSConfig_def keyToCertificate_def GenerateSignedExtension_def ProtoMarshalPubKey_def
      PubKeyToProto_def toy_lib_def toy_sig_def toy_cert_def)

lemma toy_id:
  "IDFromPriKey toy_codec (GetPublic toy_lib) (Ed25519PrivateKey (replicate 64 (CHR ''k''))) =
     Inr (CHR 0x00 # CHR ''1'' # replicate 32 (CHR ''k''))"
  by (simp add: IDFromPriKey_def IDFromPubKey_def toy_codec_def ProtoMarshalPubKey_def PubKeyToProto_def toy_lib_def
      IDLength_def)

theorem tls_identity_is_the_peers_id_witness:
  "\<exists>cfg. EasyToUseTLSConfig toy_lib toy_sig toy_cert (Inr []) (Ed25519PrivateKey (replicate 64 (CHR ''k''))) = Inr cfg \<and>
     EasyToUsePIDLoader toy_lib toy_sig toy_cert toy_codec (tls_certificates cfg) =
       Inr (CHR 0x00 # CHR ''1'' # replicate 32 (CHR ''k''))"
proof -
  obtain cfg where cfg: "EasyToUseTLSConfig toy_lib toy_sig toy_cert (Inr []) (Ed25519PrivateKey (replicate 64 (CHR ''k''))) = Inr cfg"
    by (rule toy_config)
  have "pub_ok toy_lib (GetPublic toy_lib (Ed25519PrivateKey (replicate 64 (CHR ''k''))))" by simp
  moreover have "own_halves toy_sig (Ed25519PrivateKey (replicate 64 (CHR ''k'')))"
    by (simp add: toy_sig_def replicate_add [symmetric])
  ultimately show ?thesis
    using tls_identity_is_the_peers_id [OF toy_lib_laws toy_sig_laws toy_cert_laws _ _ cfg toy_id] cfg by blast
qed

theorem loader_accepts_only_signed_keys_witness:
  "\<exists>cert pubBytes signature pk. EasyToUsePIDLoader toy_lib toy_sig toy_cert toy_codec [cert] =
       Inr (CHR 0x00 # CHR ''1'' # replicate 32 (CHR ''k'')) \<and>
     ProtoUnmarshalPubKey toy_lib pubBytes = Inr pk \<and>
     key_Verify toy_sig pk (certificatePrefix @ ''ppppp'') signature = Inr True"
proof -
  let ?k = "replicate 32 (CHR ''k'')"
  let ?b = "CHR ''1'' # ?k"
  let ?cert = "\<lparr>ce_Extensions = [(extensionID, replicate 33 (CHR ''a'') @ CHR 0x00 # ?b @ ?k @ certificatePrefix @ ''ppppp'')],
      ce_UnhandledCriticalExtensions = [], ce_PublicKey = 5\<rparr>"
  have m: "cl_asn1Unmarshal toy_cert (replicate 33 (CHR ''a'') @ CHR 0x00 # ?b @ ?k @ certificatePrefix @ ''ppppp'') =
      Inr (?b, ?k @ certificatePrefix @ ''ppppp'')"
    by (simp add: toy_cert_def numeral_eq_Suc)
  have u: "ProtoUnmarshalPubKey toy_lib ?b = Inr (Ed25519PublicKey ?k)"
    by (simp add: ProtoUnmarshalPubKey_def PubKeyFromProto_def PubKeyUnmarshalers_def UnmarshalEd25519PublicKey_def toy_lib_def)
  have v: "key_Verify toy_sig (Ed25519PublicKey ?k) (certificatePrefix @ ''ppppp'') (?k @ certificatePrefix @ ''ppppp'') = Inr True"
    by (simp add: toy_sig_def)
  have p: "cl_MarshalPKIX toy_cert 5 = Inr ''ppppp''" "cl_Verify toy_cert c = None" for c
    by (simp_all add: toy_cert_def numeral_eq_Suc)
  have i: "IDFromPubKey toy_codec (Ed25519PublicKey ?k) = Inr (CHR 0x00 # ?b)"
    using toy_id by (simp add: IDFromPriKey_def)
  have l: "EasyToUsePIDLoader toy_lib toy_sig toy_cert toy_codec [?cert] = Inr (CHR 0x00 # ?b)"
    by (simp add: EasyToUsePIDLoader_def PubKeyFromCertChain_def extensionIDEqual_iff m u p v i Let_def
        del: append.simps key_Verify.simps)
  from loader_accepts_only_signed_keys [OF l] obtain pubBytes signature pk certKeyPub where
    "ProtoUnmarshalPubKey toy_lib pubBytes = Inr pk" "cl_MarshalPKIX toy_cert 5 = Inr certKeyPub"
    "key_Verify toy_sig pk (certificatePrefix @ certKeyPub) signature = Inr True"
    by auto
  then show ?thesis using l p(1) by auto
qed

end
