(* ===== verification/Spec2Isabelle.thy ===== *)
theory Spec2Isabelle
  imports Connection_Manager Blacklist Peer_Store Protocol_Manager Receive_Stream_Manager
    Send_Stream_Pool Send_Stream_Pool_Manager Payload_Package Stream_IO Connection_Supervisor
    Peer_Id Connection_Exclusive Host_Connections Host_Messages Concurrent_Sends
    Exchanger_Pushes Service_Discovery Discovery_Search Discovery_Exchange Group_Multicast Tcp_Connection Tcp_Network
    Host_Construction Host_Lifecycle Host_Pushes Host_Interleaving Host_Notifications Keys Peer_Keys Tls_Security
begin

text \<open>
  Rainbow-bee: a verification of the peer-to-peer network host of this repository (Go).

  \<^bold>\<open>The program.\<close> A \<^emph>\<open>host\<close> (\<open>host.go\<close>) owns a \<^emph>\<open>network\<close> (\<open>network/tcp\<close>) that listens, dials and accepts
  TCP connections, authenticates the peer on the other side by a TLS certificate (\<open>util/tls_security.go\<close>,
  \<open>core/crypto\<close>, \<open>core/peer\<close>) and multiplexes streams over each connection. A new connection goes through the
  exclusive check, the blacklist and the connection manager; it is given a pool of send streams, its protocols are
  exchanged, and its receive streams are counted and read until it closes. A message is framed as a payload package
  and written to a borrowed send stream; the receiver's stream loop cuts packages out of the bytes, and a pipeline
  decodes them and calls the handler registered for their protocol. A supervisor redials necessary peers. On top of
  the host there are a discovery of services and a group multicast.

  \<^bold>\<open>Theories and sources.\<close> Records, datatypes and operations have the names and the order of the code.

  \<^item> Foundations. \<open>RB_Prelude\<close>: byte strings, handles, calls that may panic (\<open>run\<close>), Go's maps, and the set type of
    rainbowcat as the parameter \<open>set_ops\<close> with \<open>set_laws\<close>. \<open>Go_Std\<close>: \<open>net.SplitHostPort\<close>. \<open>Util_Net\<close>: \<open>util/error.go\<close>
    and the error tests of \<open>util/stream.go\<close>. \<open>Network_Core\<close>: \<open>core/network\<close>.
  \<^item> \<open>components/\<close>. \<open>Connection_Manager\<close> (\<open>connection_manager.go\<close>), \<open>Blacklist\<close>, \<open>Receive_Stream_Manager\<close>,
    \<open>Send_Stream_Pool\<close>, \<open>Send_Stream_Pool_Manager\<close>, \<open>Protocol_Manager\<close>, \<open>Connection_Supervisor\<close>,
    \<open>Protocol_Exchanger\<close> and \<open>Exchanger_Pushes\<close> (\<open>protocol_exchanger.go\<close>).
  \<^item> \<open>Peer_Store\<close>: \<open>peerstore/\<close> and \<open>core/store\<close>. \<open>Payload_Package\<close>: \<open>core/protocol/payload_package.go\<close>. \<open>Stream_IO\<close>:
    \<open>util/stream.go\<close> and the loop \<open>receiveStreamHandlerLoop\<close> of \<open>host.go\<close>.
  \<^item> Identity. \<open>Peer_Id\<close>: \<open>core/peer/id.go\<close>, \<open>util/addr.go\<close>. \<open>Keys\<close>: \<open>core/crypto\<close>. \<open>Peer_Keys\<close>: ids over these keys.
    \<open>Tls_Security\<close>: \<open>util/tls_security.go\<close> and signing.
  \<^item> \<open>network/tcp\<close>. \<open>Tcp_Connection\<close>: \<open>connection.go\<close>, \<open>stream.go\<close>. \<open>Tcp_Network\<close>: \<open>network.go\<close>, \<open>option.go\<close> and
    \<open>network_factory.go\<close>.
  \<^item> The host. \<open>Connection_Exclusive\<close> and \<open>Host_Connections\<close>: the life of a connection in \<open>host.go\<close>. \<open>Host_Interleaving\<close>:
    the same as steps of goroutines. \<open>Host_Messages\<close>: sending, receiving, dialling, protocols of peers, and \<open>host_handle_msg_pipeline.go\<close>.
    \<open>Concurrent_Sends\<close>: \<open>SendMsg\<close> by many goroutines over one pool of streams. \<open>Host_Pushes\<close>: the loop that
    pushes changed protocols to the connected peers. \<open>Host_Notifications\<close>: \<open>notifyConnLoop\<close>, \<open>core/host/notify.go\<close> and
    the notifiee of the supervisor. \<open>Host_Construction\<close>: \<open>host_option.go\<close> and \<open>NewHost\<close>. \<open>Host_Lifecycle\<close>: \<open>Start\<close>, \<open>Stop\<close>, \<open>reset\<close>.
  \<^item> \<open>service/\<close>. \<open>Service_Discovery\<close>, \<open>Discovery_Search\<close> and \<open>Discovery_Exchange\<close> (a search between two hosts):
    \<open>discovery/protocol_discovery.go\<close>. \<open>Group_Multicast\<close>:
    \<open>groupmulticast/group_multicast.go\<close>.

  \<^bold>\<open>State and steps.\<close> A Go struct is a record, passed explicitly; a method that holds its mutex for the whole call is
  one function on it. Where the code takes a lock several times or waits on channels, each critical section is
  an operation and the goroutines are a step relation or a run of events: \<open>pool_step\<close> (borrowers, returners and the expand
  loop of a pool), \<open>send_step\<close> (goroutines in \<open>SendMsg\<close> on such a pool, each write in portions),
  \<open>search_exec\<close> (searches and their answers), the pushes of \<open>Exchanger_Pushes\<close>, \<open>loop_run\<close> (callers that
  register handlers, and the loop that pushes the change), \<open>host_run\<close>
  (connections coming and going, each handled as a whole), \<open>sys_run\<close> (the same with the component calls of
  \<open>handleNewConnection\<close> and of every \<open>handleClosingConn\<close> interleaved; there \<open>notifyConnC\<close> never fills up), \<open>notify_run\<close> (senders on
  \<open>notifyConnC\<close>, its loop, and the supervisor). The order in which Go visits a map, the branch a \<open>select\<close> picks, random numbers and
  the order in which goroutines end are arguments. Errors are values of sum types, a panic is \<open>Panics\<close>.

  \<^bold>\<open>Parameters and their laws.\<close> What the repository imports is an argument: sets and slices of rainbowcat (\<open>set_laws\<close>,
  \<open>exclude_law\<close>), integer coding and compression (\<open>codec_laws\<close>), protobuf messages (decoding undoes encoding), hashes and
  base58 (\<open>key_codec_laws\<close>, \<open>hash_laws\<close>), multiaddresses (\<open>addr_laws\<close>), cryptographic libraries (\<open>key_lib_laws\<close>,
  \<open>key_gen_laws\<close>, \<open>sig_laws\<close>: what each library promises of the signatures it makes, not what the repository's \<open>Sign\<close>
  and \<open>Verify\<close> do), \<open>x509\<close> and \<open>asn1\<close> (\<open>cert_laws\<close>). Every set of laws that a
  property assumes has an instance in its witness. TLS,
  sockets, the yamux session and the pipeline library answer as arguments of the operation that asks them.

  \<^bold>\<open>Interfaces.\<close> Seven contracts are locales, each interpreted on the code's own definitions: \<open>connection_manager\<close> (\<open>lcm\<close>),
  \<open>protocol_book\<close> (\<open>basic_book\<close>, over which the protocol manager is written), \<open>receive_stream_manager\<close> (\<open>rsm\<close>),
  \<open>send_stream_pool_manager\<close> (\<open>spm\<close>) and \<open>key_encoding\<close> (\<open>lawful_codec\<close> for any codec with the laws, \<open>repo_ids\<close> for the
  repository's encoding of keys); \<open>event_runs\<close> is the contract of a run of events and \<open>safe_runs\<close>, which
  extends it, that of a run whose steps keep an invariant; each of the seven kinds of runs that are functions (those
  above and \<open>tcp_runs\<close>) is an interpretation of one of them, so that every invariant of a run is one rule over its steps.

  \<^bold>\<open>What is shown.\<close>

  \<^item> Connections: the manager's invariant and limit under every sequence of operations, which connection is given up for
    a new one (an abstract specification of all strategies), that high-level peers are protected, and what removing does.
    In the host: an accepted connection is registered everywhere, a closed one leaves nothing behind, a refused one is
    closed unless it was merely not allowed; the blacklist blocks; simultaneous dials leave one connection.
    Left alone, the steps are these operations (\<open>uninterrupted_steps_are_the_operations\<close>); in every interleaving the
    entries of the exclusive check are those of the connection being handled; in every interleaving a finished cleanup is final, but one
    that is overtaken by a reconnection forgets the protocols of the peer.
  \<^item> Streams: the receive stream manager and the protocol book refine abstract maps of sets; the pool's counts agree with
    its queue and no stream has two owners, the same for the halves of yamux streams.
  \<^item> Messages: round trip of packages, rejection of incomplete ones, framing over any splitting of the bytes, and, over
    these, that a sent message reaches the handler registered for its protocol with its payload unchanged. Goroutines
    that send at once never mix their bytes on a stream: in every interleaving the other side reads whole packages, unless a write timed out halfway.
  \<^item> Protocols: the local protocols are the registered handlers; an exchange tells each side the other's protocols; the
    handler of pushes believes only what a sender says of itself; a push makes the protocols of both sides known to each
    other, and no change of the handlers stays unpushed; announcements are stored and notified.
  \<^item> Identity: keys survive their encodings exactly when they are in order; an id embeds exactly short keys; the id computed from
    a certificate is the id of the host's key, and no id is accepted without a signature by its key.
  \<^item> Network and life cycle: options yield a well-formed host, which it remains in every interleaving; the outcome of dialling and of the handshake; what
    a stop and a restart keep.
  \<^item> Notifications follow their channel, and a lost necessary peer is dialled again.
  \<^item> Supervision and services: dial attempts are bounded; \<open>checkConn\<close> dials exactly the missing peers; what a
    search finds among the hosts it asks, channels of searches, outcomes of group sends.

  Several theorems state behaviour that the code hardly intends (a removed connection that takes its siblings along, an expand
  loop that dies on its first success, searches that lock the discovery, dead connections after a restart, a stream kept after a write that timed out), or that its comments deny (which
  peer is given up for a new one, answers about peers that are not connected); the text before each says so.

  \<^bold>\<open>Loops, fuel, bounds.\<close> Loops over data are structural. \<open>Run\<close> of the dial actuator takes fuel for its tries; more than
  the entries of \<open>da_fibonacci\<close> are always enough, which \<open>dial_attempts_are_bounded\<close> proves. \<open>BorrowStream\<close> takes fuel for its
  retries: an answer does not change with more fuel, and \<open>exhausted_pool_with_dead_loop_never_lends\<close> says that for no fuel
  there is one. The time of a search (\<open>search_task\<close>) counts rounds of its \<open>select\<close> and has the same form. A loop that
  reads a stream or a socket goes through the list of what its reads find and blocks at the end. Lengths on the wire are
  64-bit words (\<open>Stream_IO\<close>); RSA keys have 2048 to 8192 bits, ids embed keys of up to 46 bytes.

  \<^bold>\<open>Not modelled.\<close> Logging; contexts, whose end has the effect of closing in the places that watch both; generated
  protobuf code (\<open>*.pb.go\<close>); interface declarations (\<open>core/host\<close>, \<open>core/manager\<close>, \<open>core/broadcast\<close> and the like), which
  have no behaviour; recovery of panics in goroutines (\<open>core/safe\<close>) and socket options (\<open>core/reuse\<close>); the parallelism inside
  the pipeline, whose tasks run one after the other here; plain getters and setters; writers that wait for a read-write
  lock. The environment variable that admits weak RSA keys is taken as not set.
\<close>

end
